(* ===== verification/Prelude.thy ===== *)
theory Prelude
  imports Main "HOL-Library.Word"
begin

unbundle bit_operations_syntax

declare add_2_eq_Suc [simp del] add_2_eq_Suc' [simp del]

text \<open>
  What the components share: the machine-integer and byte types, Rust's fixed-width
  byte conversions (\<open>to_be_bytes\<close>, \<open>from_be_bytes\<close>, \<open>to_le_bytes\<close>), the outcome type
  of fallible code (a value, an error, or a panic), checked indexing and slicing, and
  Rust strings.

  A Rust \<open>String\<close> or \<open>str\<close> is its UTF-8 bytes; it is an Isabelle \<open>string\<close> here, whose
  characters are bytes.  \<open>usize\<close> values are lengths and positions of buffers held in
  memory, so they are \<open>nat\<close>; the only narrowing casts (\<open>as u16\<close>, \<open>as u64\<close>) are
  written with \<open>word_of_nat\<close>, which wraps.
\<close>

section \<open>Types\<close>

type_synonym u8 = "8 word"
type_synonym u16 = "16 word"
type_synonym u32 = "32 word"
type_synonym u64 = "64 word"
type_synonym u128 = "128 word"
type_synonym bytes = "u8 list"

named_theorems wire_simps \<open>evaluation of byte-level encoders and decoders\<close>
named_theorems res_simps \<open>the outcome monad\<close>

section \<open>Outcomes: a value, an error, or a panic\<close>

text \<open>
  \<open>Result<T, E>\<close> with a third case for an out-of-range index or slice, an arithmetic
  underflow of \<open>usize\<close>, or a failed \<open>expect\<close>, all of which abort the task.
\<close>

datatype ('e, 'a) res = Ok 'a | Err 'e | Panic

primrec bind_res :: "('e, 'a) res \<Rightarrow> ('a \<Rightarrow> ('e, 'b) res) \<Rightarrow> ('e, 'b) res" where
  "bind_res (Ok x) f = f x"
| "bind_res (Err e) f = Err e"
| "bind_res Panic f = Panic"

text \<open>The \<open>?\<close> operator with a \<open>#[from]\<close> conversion of the error.\<close>

primrec map_err :: "('e \<Rightarrow> 'f) \<Rightarrow> ('e, 'a) res \<Rightarrow> ('f, 'a) res" where
  "map_err h (Ok x) = Ok x"
| "map_err h (Err e) = Err (h e)"
| "map_err h Panic = Panic"

text \<open>\<open>Option::ok_or\<close>.\<close>

primrec ok_or :: "'a option \<Rightarrow> 'e \<Rightarrow> ('e, 'a) res" where
  "ok_or None e = Err e"
| "ok_or (Some x) e = Ok x"

lemma bind_res_eq_Ok [res_simps]:
  "bind_res m f = Ok y \<longleftrightarrow> (\<exists>x. m = Ok x \<and> f x = Ok y)"
  by (cases m) auto

lemma bind_res_eq_Panic [res_simps]:
  "bind_res m f = Panic \<longleftrightarrow> m = Panic \<or> (\<exists>x. m = Ok x \<and> f x = Panic)"
  by (cases m) auto

lemma bind_res_eq_Err [res_simps]:
  "bind_res m f = Err e \<longleftrightarrow> m = Err e \<or> (\<exists>x. m = Ok x \<and> f x = Err e)"
  by (cases m) auto

lemma bind_res_assoc: "bind_res (bind_res m f) g = bind_res m (\<lambda>x. bind_res (f x) g)"
  by (cases m) simp_all

lemma map_err_eq [res_simps]:
  "map_err h m = Ok y \<longleftrightarrow> m = Ok y"
  "map_err h m = Panic \<longleftrightarrow> m = Panic"
  "map_err h m = Err e \<longleftrightarrow> (\<exists>d. m = Err d \<and> e = h d)"
  by (cases m; auto)+

lemma ok_or_eq [res_simps]:
  "ok_or v e = Ok x \<longleftrightarrow> v = Some x"
  "ok_or v e = Err d \<longleftrightarrow> v = None \<and> d = e"
  "ok_or v e \<noteq> Panic"
  by (cases v; auto)+

section \<open>Checked indexing and slicing\<close>

definition index_at :: "'a list \<Rightarrow> nat \<Rightarrow> ('e, 'a) res" where
  "index_at xs i = (if i < length xs then Ok (xs ! i) else Panic)"

text \<open>\<open>&xs[a..b]\<close>: panics when \<open>a > b\<close> or \<open>b > len\<close>.\<close>

definition slice :: "'a list \<Rightarrow> nat \<Rightarrow> nat \<Rightarrow> ('e, 'a list) res" where
  "slice xs a b = (if a \<le> b \<and> b \<le> length xs then Ok (take (b - a) (drop a xs)) else Panic)"

text \<open>\<open>xs[a..b].copy_from_slice(&src)\<close>: panics also when the lengths differ.\<close>

definition copy_into :: "'a list \<Rightarrow> nat \<Rightarrow> nat \<Rightarrow> 'a list \<Rightarrow> ('e, 'a list) res" where
  "copy_into xs a b src =
     (if a \<le> b \<and> b \<le> length xs \<and> length src = b - a
      then Ok (take a xs @ src @ drop b xs) else Panic)"

lemma index_at_ok [simp]: "i < length xs \<Longrightarrow> index_at xs i = Ok (xs ! i)"
  by (simp add: index_at_def)

lemma index_at_not_err [simp]: "index_at xs i \<noteq> Err e"
  by (simp add: index_at_def)

lemma slice_ok [simp]: "a \<le> b \<Longrightarrow> b \<le> length xs \<Longrightarrow> slice xs a b = Ok (take (b - a) (drop a xs))"
  by (simp add: slice_def)

lemma slice_not_err [simp]: "slice xs a b \<noteq> Err e"
  by (simp add: slice_def)

section \<open>Byte conversions\<close>

text \<open>\<open>to_be n w\<close> is \<open>w.to_be_bytes()\<close> of an \<open>n\<close>-byte integer, \<open>from_be\<close> its inverse.\<close>

definition to_be :: "nat \<Rightarrow> 'a::len word \<Rightarrow> bytes" where
  "to_be n w = map (\<lambda>i. ucast (drop_bit (8 * (n - 1 - i)) w)) [0..<n]"

definition from_be :: "bytes \<Rightarrow> 'a::len word" where
  "from_be bs = foldl (\<lambda>acc b. push_bit 8 acc OR ucast b) 0 bs"

definition to_le :: "nat \<Rightarrow> 'a::len word \<Rightarrow> bytes" where
  "to_le n w = rev (to_be n w)"

definition from_le :: "bytes \<Rightarrow> 'a::len word" where
  "from_le bs = from_be (rev bs)"

lemma length_to_be [simp]: "length (to_be n w) = n"
  by (simp add: to_be_def)

lemma length_to_le [simp]: "length (to_le n w) = n"
  by (simp add: to_le_def)

lemma from_be_snoc: "from_be (bs @ [b]) = push_bit 8 (from_be bs) OR ucast b"
  by (simp add: from_be_def)

lemma from_be_Nil [simp]: "from_be [] = 0"
  by (simp add: from_be_def)

lemma bit_from_be:
  "bit (from_be bs :: 'a::len word) i \<longleftrightarrow>
     i < LENGTH('a) \<and> i < 8 * length bs \<and> bit (rev bs ! (i div 8)) (i mod 8)"
proof (induction bs arbitrary: i rule: rev_induct)
  case Nil
  then show ?case by simp
next
  case (snoc b bs)
  show ?case
  proof (cases "i < 8")
    case True
    then show ?thesis
      by (auto simp: from_be_snoc bit_simps)
  next
    case False
    then obtain k where k: "i = 8 + k" by (metis le_Suc_ex not_less)
    have "i div 8 = Suc (k div 8)" "i mod 8 = k mod 8" using k by simp_all
    then show ?thesis
      by (auto simp: from_be_snoc bit_simps snoc.IH k dest: bit_imp_le_length)
  qed
qed

lemma from_be_to_be [simp]:
  assumes "LENGTH('a) = 8 * n"
  shows "from_be (to_be n w) = (w :: 'a::len word)"
proof (rule bit_word_eqI)
  fix i assume i: "i < LENGTH('a)"
  then have d: "i div 8 < n" using assms by simp
  have "8 * (i div 8) + i mod 8 = i" by simp
  with d i assms show "bit (from_be (to_be n w) :: 'a word) i = bit w i"
    by (simp add: bit_from_be rev_nth) (simp add: to_be_def bit_simps)
qed

lemma to_be_from_be [simp]:
  assumes "LENGTH('a) = 8 * n" and "length bs = n"
  shows "to_be n (from_be bs :: 'a::len word) = bs"
proof (rule nth_equalityI)
  show "length (to_be n (from_be bs :: 'a word)) = length bs" using assms by simp
next
  fix j assume "j < length (to_be n (from_be bs :: 'a word))"
  then have j: "j < n" by simp
  show "to_be n (from_be bs :: 'a word) ! j = bs ! j"
  proof (rule bit_word_eqI)
    fix i assume i: "i < LENGTH(8)"
    obtain m where m: "n = Suc (j + m)" using j less_iff_Suc_add by auto
    then have nj: "n - 1 - j = m" by simp
    define k where "k = 8 * m + i"
    have i8: "i < 8" using i by simp
    have dv: "k div 8 = m" "k mod 8 = i" using i8 by (simp_all add: k_def)
    have lt: "k < 8 * n" using i8 m unfolding k_def by linarith
    have "to_be n (from_be bs :: 'a word) ! j = ucast (drop_bit (8 * m) (from_be bs :: 'a word))"
      unfolding to_be_def using j by (simp add: nj del: One_nat_def diff_Suc_eq_diff_pred diff_diff_left)
    then have "bit (to_be n (from_be bs :: 'a word) ! j) i = bit (from_be bs :: 'a word) k"
      using i8 by (simp add: bit_simps k_def)
    also have "\<dots> = bit (rev bs ! m) i"
      using lt assms by (simp add: bit_from_be dv)
    also have "rev bs ! m = bs ! j"
      using j m assms by (simp add: rev_nth)
    finally show "bit (to_be n (from_be bs :: 'a word) ! j) i = bit (bs ! j) i" .
  qed
qed

lemma to_be_inject:
  fixes v w :: "'a::len word"
  assumes "LENGTH('a) = 8 * n"
  shows "to_be n v = to_be n w \<longleftrightarrow> v = w"
  using from_be_to_be [OF assms] by metis

lemma from_le_to_le [simp]:
  "LENGTH('a) = 8 * n \<Longrightarrow> from_le (to_le n w) = (w :: 'a::len word)"
  by (simp add: from_le_def to_le_def)

lemma to_le_from_le [simp]:
  "LENGTH('a) = 8 * n \<Longrightarrow> length bs = n \<Longrightarrow> to_le n (from_le bs :: 'a::len word) = bs"
  by (simp add: from_le_def to_le_def)

lemma to_be_2 [wire_simps]: "to_be 2 w = [ucast (drop_bit 8 w), ucast w]"
  by (simp add: to_be_def numeral_2_eq_2)

lemma to_be_4 [wire_simps]:
  "to_be 4 w = [ucast (drop_bit 24 w), ucast (drop_bit 16 w), ucast (drop_bit 8 w), ucast w]"
  by (simp add: to_be_def upt_conv_Cons)

text \<open>
  \<open>u16::from_be_bytes([buf[i], buf[i + 1]])\<close> and the four-byte form: each index is checked.
\<close>

definition u16_at :: "bytes \<Rightarrow> nat \<Rightarrow> ('e, u16) res" where
  "u16_at buf i = bind_res (index_at buf i) (\<lambda>a. bind_res (index_at buf (i + 1)) (\<lambda>b.
     Ok (from_be [a, b])))"

definition u32_at :: "bytes \<Rightarrow> nat \<Rightarrow> ('e, u32) res" where
  "u32_at buf i = bind_res (index_at buf i) (\<lambda>a. bind_res (index_at buf (i + 1)) (\<lambda>b.
     bind_res (index_at buf (i + 2)) (\<lambda>c. bind_res (index_at buf (i + 3)) (\<lambda>d.
     Ok (from_be [a, b, c, d])))))"

lemma u16_at_ok:
  assumes "i + 2 \<le> length buf"
  shows "u16_at buf i = Ok (from_be (take 2 (drop i buf)))"
proof -
  have "take 2 (drop i buf) = [buf ! i, buf ! (i + 1)]"
    using assms by (simp add: take_Suc_conv_app_nth numeral_2_eq_2)
  then show ?thesis using assms by (simp add: u16_at_def)
qed

lemma u32_at_ok:
  assumes "i + 4 \<le> length buf"
  shows "u32_at buf i = Ok (from_be (take 4 (drop i buf)))"
proof -
  have "take 4 (drop i buf) = [buf ! i, buf ! (i + 1), buf ! (i + 2), buf ! (i + 3)]"
    using assms by (simp add: take_Suc_conv_app_nth numeral_eq_Suc)
  then show ?thesis using assms by (simp add: u32_at_def)
qed

section \<open>Strings\<close>

definition byte_of_char :: "char \<Rightarrow> u8" where
  "byte_of_char c = word_of_nat (of_char c)"

definition char_of_byte :: "u8 \<Rightarrow> char" where
  "char_of_byte b = char_of (unat b)"

text \<open>\<open>str::as_bytes\<close>, and the string with given (UTF-8) bytes.\<close>

definition as_bytes :: "string \<Rightarrow> bytes" where
  "as_bytes s = map byte_of_char s"

definition str_of :: "bytes \<Rightarrow> string" where
  "str_of bs = map char_of_byte bs"

lemma char_of_byte_of_char [simp]: "char_of_byte (byte_of_char c) = c"
proof -
  have "(of_char c :: nat) mod 256 = of_char c"
    by (rule of_char_mod_256)
  then have "(of_char c :: nat) < 256"
    by (metis mod_less_divisor zero_less_numeral)
  then show ?thesis
    by (simp add: char_of_byte_def byte_of_char_def unat_of_nat)
qed

lemma byte_of_char_of_byte [simp]: "byte_of_char (char_of_byte b) = b"
proof -
  have "unat b < 256" using unsigned_less [of b, where 'a = nat] by simp
  then show ?thesis by (simp add: char_of_byte_def byte_of_char_def)
qed

lemma as_bytes_str_of [simp]: "as_bytes (str_of bs) = bs"
  by (simp add: as_bytes_def str_of_def comp_def)

lemma str_of_as_bytes [simp]: "str_of (as_bytes s) = s"
  by (simp add: as_bytes_def str_of_def comp_def)

lemma length_as_bytes [simp]: "length (as_bytes s) = length s"
  by (simp add: as_bytes_def)

lemma length_str_of [simp]: "length (str_of bs) = length bs"
  by (simp add: str_of_def)

lemma map_nth_at: "map f xs = ys \<Longrightarrow> i < length ys \<Longrightarrow> f (xs ! i) = ys ! i"
  by auto

text \<open>Text between backquotes.\<close>

definition backquote :: "string \<Rightarrow> string" where
  "backquote s = [CHR 0x60] @ s @ [CHR 0x60]"

definition starts_with :: "string \<Rightarrow> string \<Rightarrow> bool" where
  "starts_with s prefix \<longleftrightarrow> take (length prefix) s = prefix"

end
