(* ===== verification/Net_Addr.thy ===== *)
theory Net_Addr
  imports Prelude
begin

text \<open>
  The part of \<open>std::net\<close> the checks use: addresses, and their text form.  The probe
  context passes the server-reflexive address between checks as text
  (\<open>ctx.scratch["srflx"]\<close>): \<open>checks/stun.rs\<close> writes it with \<open>to_string\<close>,
  \<open>checks/turn_echo.rs\<close> and \<open>checks/ice_gather.rs\<close> read it back with \<open>parse\<close>.  Both are
  modelled after the standard library: \<open>Display\<close> compresses the longest run of zero
  segments and prints IPv4-mapped addresses in dotted form, \<open>FromStr\<close> is the
  recursive-descent parser of \<open>core::net::parser\<close>.
\<close>

section \<open>Addresses\<close>

datatype ipaddr = V4 u32 | V6 u128

datatype sockaddr =
  SockV4 u32 u16
| SockV6 u128 u16 u32 u32  \<comment> \<open>address, port, flow info, scope id\<close>

primrec sock_new :: "ipaddr \<Rightarrow> u16 \<Rightarrow> sockaddr" where
  "sock_new (V4 a) p = SockV4 a p"
| "sock_new (V6 a) p = SockV6 a p 0 0"

primrec sock_ip :: "sockaddr \<Rightarrow> ipaddr" where
  "sock_ip (SockV4 a p) = V4 a"
| "sock_ip (SockV6 a p f s) = V6 a"

primrec sock_port :: "sockaddr \<Rightarrow> u16" where
  "sock_port (SockV4 a p) = p"
| "sock_port (SockV6 a p f s) = p"

lemma sock_new_sel [simp]: "sock_ip (sock_new ip p) = ip" "sock_port (sock_new ip p) = p"
  by (cases ip; simp)+

lemma sock_new_inject [simp]: "sock_new ip p = sock_new ip' p' \<longleftrightarrow> ip = ip' \<and> p = p'"
  by (cases ip; cases ip') auto

text \<open>\<open>Ipv6Addr::segments\<close>: the eight 16-bit groups, most significant first.\<close>

definition segments :: "u128 \<Rightarrow> u16 list" where
  "segments a = map (\<lambda>i. ucast (drop_bit (16 * (7 - i)) a)) [0..<8]"

definition of_segments :: "u16 list \<Rightarrow> u128" where
  "of_segments gs = foldl (\<lambda>acc g. push_bit 16 acc OR ucast g) 0 gs"

section \<open>Numbers as text\<close>

definition digit_char :: "nat \<Rightarrow> char" where
  "digit_char d = (if d < 10 then char_of (48 + d) else char_of (87 + d))"

fun radix_str :: "nat \<Rightarrow> nat \<Rightarrow> string" where
  "radix_str r n =
     (if n < r \<or> r < 2 then [digit_char n]
      else radix_str r (n div r) @ [digit_char (n mod r)])"

declare radix_str.simps [simp del]

abbreviation dec :: "nat \<Rightarrow> string" where "dec \<equiv> radix_str 10"

definition show_word :: "'a::len word \<Rightarrow> string" where
  "show_word w = dec (unat w)"

text \<open>\<open>char::to_digit(radix)\<close>.\<close>

definition to_digit :: "nat \<Rightarrow> char \<Rightarrow> nat option" where
  "to_digit r c =
     (let k = of_char c :: nat;
          d = (if 48 \<le> k \<and> k \<le> 57 then k - 48
               else if 97 \<le> k \<and> k \<le> 122 then k - 87
               else if 65 \<le> k \<and> k \<le> 90 then k - 55 else r)
      in if d < r then Some d else None)"

definition is_dig :: "nat \<Rightarrow> char \<Rightarrow> bool" where
  "is_dig r c \<longleftrightarrow> to_digit r c \<noteq> None"

definition digits_val :: "nat \<Rightarrow> string \<Rightarrow> nat" where
  "digits_val r ds = foldl (\<lambda>acc c. acc * r + the (to_digit r c)) 0 ds"

section \<open>Display\<close>

definition show_ipv4 :: "u32 \<Rightarrow> string" where
  "show_ipv4 a =
     show_word (ucast (drop_bit 24 a) :: u8) @ ''.'' @ show_word (ucast (drop_bit 16 a) :: u8) @ ''.''
     @ show_word (ucast (drop_bit 8 a) :: u8) @ ''.'' @ show_word (ucast a :: u8)"

definition show_seg :: "u16 \<Rightarrow> string" where
  "show_seg g = radix_str 16 (unat g)"

fun show_segs :: "u16 list \<Rightarrow> string" where
  "show_segs [] = ''''"
| "show_segs [g] = show_seg g"
| "show_segs (g # gs) = show_seg g @ '':'' @ show_segs gs"

text \<open>The longest run of zero segments, the first one on a tie: start and length.\<close>

fun zero_span :: "nat \<Rightarrow> nat \<times> nat \<Rightarrow> nat \<times> nat \<Rightarrow> u16 list \<Rightarrow> nat \<times> nat" where
  "zero_span i longest current [] = longest"
| "zero_span i longest current (g # gs) =
     (if g = 0 then
        (let start = (if snd current = 0 then i else fst current);
             current' = (start, snd current + 1);
             longest' = (if snd current' > snd longest then current' else longest)
         in zero_span (i + 1) longest' current' gs)
      else zero_span (i + 1) longest (0, 0) gs)"

definition is_v4_mapped :: "u16 list \<Rightarrow> bool" where
  "is_v4_mapped gs \<longleftrightarrow> take 6 gs = [0, 0, 0, 0, 0, 0xffff]"

definition show_ipv6 :: "u128 \<Rightarrow> string" where
  "show_ipv6 a =
     (let gs = segments a in
      if is_v4_mapped gs then ''::ffff:'' @ show_ipv4 (ucast a)
      else
        (let (start, len) = zero_span 0 (0, 0) (0, 0) gs in
         if len > 1 then show_segs (take start gs) @ ''::'' @ show_segs (drop (start + len) gs)
         else show_segs gs))"

primrec show_ip :: "ipaddr \<Rightarrow> string" where
  "show_ip (V4 a) = show_ipv4 a"
| "show_ip (V6 a) = show_ipv6 a"

primrec show_sock :: "sockaddr \<Rightarrow> string" where
  "show_sock (SockV4 a p) = show_ipv4 a @ '':'' @ show_word p"
| "show_sock (SockV6 a p f s) =
     ''['' @ show_ipv6 a @ (if s = 0 then '''' else ''%'' @ show_word s) @ '']:'' @ show_word p"

section \<open>FromStr\<close>

text \<open>
  A parser maps the remaining input to a value and the rest; \<open>None\<close> leaves the input
  where it was (\<open>read_atomically\<close>).
\<close>

type_synonym 'a parser = "string \<Rightarrow> ('a \<times> string) option"

definition read_char :: "char \<Rightarrow> unit parser" where
  "read_char c s = (case s of [] \<Rightarrow> None | d # ds \<Rightarrow> if d = c then Some ((), ds) else None)"

text \<open>
  \<open>read_number(radix, max_digits, allow_zero_prefix)\<close> into a type with maximum \<open>mx\<close>.
\<close>

definition read_number :: "nat \<Rightarrow> nat option \<Rightarrow> bool \<Rightarrow> nat \<Rightarrow> nat parser" where
  "read_number r maxd zero_ok mx s =
     (let ds = takeWhile (is_dig r) s; rest = dropWhile (is_dig r) s in
      if (case maxd of None \<Rightarrow> False | Some m \<Rightarrow> length ds > m) then None
      else if ds = [] then None
      else if \<not> zero_ok \<and> hd ds = CHR ''0'' \<and> length ds > 1 then None
      else if digits_val r ds \<le> mx then Some (digits_val r ds, rest) else None)"

definition read_sep :: "char \<Rightarrow> nat \<Rightarrow> 'a parser \<Rightarrow> 'a parser" where
  "read_sep sep i inner s =
     (if 0 < i then Option.bind (read_char sep s) (\<lambda>(_, s'). inner s') else inner s)"

abbreviation read_octet :: "nat parser" where
  "read_octet \<equiv> read_number 10 (Some 3) False 255"

definition read_ipv4 :: "u32 parser" where
  "read_ipv4 s =
     Option.bind (read_sep (CHR ''.'') 0 read_octet s) (\<lambda>(a, s1).
     Option.bind (read_sep (CHR ''.'') 1 read_octet s1) (\<lambda>(b, s2).
     Option.bind (read_sep (CHR ''.'') 2 read_octet s2) (\<lambda>(c, s3).
     Option.bind (read_sep (CHR ''.'') 3 read_octet s3) (\<lambda>(d, s4).
     Some (from_be [word_of_nat a, word_of_nat b, word_of_nat c, word_of_nat d], s4)))))"

abbreviation read_group :: "nat parser" where
  "read_group \<equiv> read_number 16 (Some 4) True 65535"

text \<open>
  \<open>read_groups\<close>: at most \<open>limit\<close> groups from index \<open>i\<close>; the groups read, whether
  they end in an embedded IPv4 address, and the rest.
\<close>

function read_groups :: "nat \<Rightarrow> nat \<Rightarrow> string \<Rightarrow> u16 list \<times> bool \<times> string" where
  "read_groups limit i s =
     (if i < limit then
        (case (if i < limit - 1 then read_sep (CHR '':'') i read_ipv4 s else None) of
           Some (v4, s') \<Rightarrow> ([ucast (drop_bit 16 v4), ucast v4], True, s')
         | None \<Rightarrow>
             (case read_sep (CHR '':'') i read_group s of
                None \<Rightarrow> ([], False, s)
              | Some (g, s') \<Rightarrow>
                  (let (gs, b, s'') = read_groups limit (i + 1) s'
                   in (word_of_nat g # gs, b, s''))))
      else ([], False, s))"
  by pat_completeness auto
termination
  by (relation "measure (\<lambda>(limit, i, s). limit - i)") auto

declare read_groups.simps [simp del]

definition read_ipv6 :: "u128 parser" where
  "read_ipv6 s =
     (let (head, head_v4, s1) = read_groups 8 0 s in
      if length head = 8 then Some (of_segments head, s1)
      else if head_v4 then None
      else Option.bind (read_char (CHR '':'') s1) (\<lambda>(_, s2).
           Option.bind (read_char (CHR '':'') s2) (\<lambda>(_, s3).
           let (tail, _, s4) = read_groups (8 - (length head + 1)) 0 s3 in
           Some (of_segments (head @ replicate (8 - length head - length tail) 0 @ tail), s4))))"

definition read_port :: "nat parser" where
  "read_port s = Option.bind (read_char (CHR '':'') s) (\<lambda>(_, s1). read_number 10 None True 65535 s1)"

definition read_scope :: "nat parser" where
  "read_scope s = Option.bind (read_char (CHR ''%'') s) (\<lambda>(_, s1). read_number 10 None True 4294967295 s1)"

definition read_sock_v4 :: "sockaddr parser" where
  "read_sock_v4 s =
     Option.bind (read_ipv4 s) (\<lambda>(a, s1).
     Option.bind (read_port s1) (\<lambda>(p, s2). Some (SockV4 a (word_of_nat p), s2)))"

definition read_sock_v6 :: "sockaddr parser" where
  "read_sock_v6 s =
     Option.bind (read_char (CHR ''['') s) (\<lambda>(_, s1).
     Option.bind (read_ipv6 s1) (\<lambda>(a, s2).
     let (scope, s3) = (case read_scope s2 of Some (k, s') \<Rightarrow> (k, s') | None \<Rightarrow> (0, s2)) in
     Option.bind (read_char (CHR '']'') s3) (\<lambda>(_, s4).
     Option.bind (read_port s4) (\<lambda>(p, s5).
     Some (SockV6 a (word_of_nat p) 0 (word_of_nat scope), s5)))))"

text \<open>\<open>str::parse::<SocketAddr>\<close>: the whole input must be consumed.\<close>

definition parse_sock :: "string \<Rightarrow> sockaddr option" where
  "parse_sock s =
     (case (case read_sock_v4 s of Some r \<Rightarrow> Some r | None \<Rightarrow> read_sock_v6 s) of
        Some (a, rest) \<Rightarrow> if rest = [] then Some a else None
      | None \<Rightarrow> None)"

end
