(* ===== verification/Net_Text.thy ===== *)
theory Net_Text
  imports Net_Addr
begin

text \<open>
  The text form of addresses is read back: \<open>FromStr\<close> inverts \<open>Display\<close> for socket addresses
  of both families, with the zero compression of IPv6, the dotted form of IPv4-mapped
  addresses and the scope id.  Flow info is not printed.
\<close>

section \<open>Digits\<close>

lemma of_char_digit_char: "d < 36 \<Longrightarrow> of_char (digit_char d) = (if d < 10 then 48 + d else 87 + d :: nat)"
  by (simp add: digit_char_def)

lemma to_digit_digit_char: "d < r \<Longrightarrow> r \<le> 36 \<Longrightarrow> to_digit r (digit_char d) = Some d"
  by (auto simp: to_digit_def of_char_digit_char Let_def)

lemma radix_str_digits: "2 \<le> r \<Longrightarrow> r \<le> 36 \<Longrightarrow> c \<in> set (radix_str r n) \<Longrightarrow> is_dig r c"
proof (induction r n rule: radix_str.induct)
  case (1 r n)
  then show ?case
    by (subst (asm) (2) radix_str.simps) (auto simp: is_dig_def to_digit_digit_char split: if_splits)
qed

lemma digits_val_snoc: "digits_val r (ds @ [c]) = digits_val r ds * r + the (to_digit r c)"
  by (simp add: digits_val_def)

lemma digits_val_radix: "2 \<le> r \<Longrightarrow> r \<le> 36 \<Longrightarrow> digits_val r (radix_str r n) = n"
proof (induction r n rule: radix_str.induct)
  case (1 r n)
  show ?case
  proof (cases "n < r")
    case True
    then show ?thesis using 1 by (subst radix_str.simps) (simp add: digits_val_def to_digit_digit_char)
  next
    case False
    then show ?thesis using 1 by (subst radix_str.simps) (simp add: digits_val_snoc to_digit_digit_char)
  qed
qed

lemma radix_str_nonempty [simp]: "radix_str r n \<noteq> []"
  by (subst radix_str.simps) simp

lemma hd_radix_str: "2 \<le> r \<Longrightarrow> r \<le> 36 \<Longrightarrow> 0 < n \<Longrightarrow> hd (radix_str r n) \<noteq> CHR ''0''"
proof (induction r n rule: radix_str.induct)
  case (1 r n)
  show ?case
  proof (cases "n < r")
    case True
    have "of_char (digit_char n) \<noteq> (of_char CHR ''0'' :: nat)"
      using True 1 by (simp add: of_char_digit_char)
    then show ?thesis using True 1 by (subst radix_str.simps) auto
  next
    case False
    then have "0 < n div r" using 1 by (simp add: div_greater_zero_iff)
    then show ?thesis using False 1 by (subst radix_str.simps) simp
  qed
qed

lemma length_radix_str: "2 \<le> r \<Longrightarrow> n < r ^ Suc k \<Longrightarrow> length (radix_str r n) \<le> Suc k"
proof (induction k arbitrary: n)
  case 0
  then show ?case by (subst radix_str.simps) simp
next
  case (Suc k)
  have "n div r < r ^ Suc k" using Suc.prems by (simp add: div_less_iff_less_mult mult.commute)
  then show ?case using Suc by (subst radix_str.simps) simp
qed

lemma length_radix_str_1: "n < r \<Longrightarrow> length (radix_str r n) = 1"
  by (subst radix_str.simps) simp

text \<open>A parser of numbers reads what was printed and stops at the first character that is no digit.\<close>

definition stops :: "nat \<Rightarrow> string \<Rightarrow> bool" where
  "stops r s \<longleftrightarrow> s = [] \<or> \<not> is_dig r (hd s)"

lemma takeWhile_radix:
  assumes "2 \<le> r" and "r \<le> 36" and "stops r rest"
  shows "takeWhile (is_dig r) (radix_str r n @ rest) = radix_str r n"
    and "dropWhile (is_dig r) (radix_str r n @ rest) = rest"
proof -
  have d: "\<And>c. c \<in> set (radix_str r n) \<Longrightarrow> is_dig r c" using radix_str_digits assms by blast
  have "takeWhile (is_dig r) rest = []" "dropWhile (is_dig r) rest = rest"
    using assms(3) by (cases rest; simp add: stops_def)+
  then show "takeWhile (is_dig r) (radix_str r n @ rest) = radix_str r n"
    "dropWhile (is_dig r) (radix_str r n @ rest) = rest"
    by (simp_all add: takeWhile_append2 dropWhile_append2 d)
qed

lemma read_number_radix:
  assumes "2 \<le> r" and "r \<le> 36" and "stops r rest" and "n \<le> mx"
    and "case maxd of None \<Rightarrow> True | Some m \<Rightarrow> length (radix_str r n) \<le> m"
  shows "read_number r maxd zero_ok mx (radix_str r n @ rest) = Some (n, rest)"
proof -
  have "\<not> (hd (radix_str r n) = CHR ''0'' \<and> length (radix_str r n) > 1)"
    using hd_radix_str [OF assms(1,2), of n] length_radix_str_1 [of n r] assms(1) by (cases "n = 0") auto
  then show ?thesis
    using assms(4,5) by (simp add: read_number_def takeWhile_radix [OF assms(1-3)] digits_val_radix [OF assms(1,2)]
        Let_def split: option.splits)
qed

section \<open>IPv4\<close>

lemma read_char_Cons [simp]: "read_char c (c # s) = Some ((), s)"
  by (simp add: read_char_def)

lemma is_dig_facts [simp]:
  "\<not> is_dig 10 CHR ''.''" "\<not> is_dig 10 CHR '':''" "\<not> is_dig 16 CHR '':''" "\<not> is_dig 16 CHR '']''"
  "\<not> is_dig 10 CHR '']''" "\<not> is_dig 10 CHR ''%''" "\<not> is_dig 16 CHR ''%''" "\<not> is_dig 10 CHR ''[''"
  by (simp_all add: is_dig_def to_digit_def Let_def)

lemma read_octet_show:
  assumes "stops 10 rest"
  shows "read_octet (show_word (b :: u8) @ rest) = Some (unat b, rest)"
proof -
  have b: "unat b < 256" using unsigned_less [of b, where 'a = nat] by simp
  then have "length (dec (unat b)) \<le> Suc 2" by (intro length_radix_str) simp_all
  then show ?thesis using b assms by (simp add: show_word_def read_number_radix)
qed

lemma read_ipv4_show:
  assumes "stops 10 rest"
  shows "read_ipv4 (show_ipv4 a @ rest) = Some (a, rest)"
proof -
  have s: "stops 10 (CHR ''.'' # x)" for x by (simp add: stops_def)
  have "from_be [ucast (drop_bit 24 a), ucast (drop_bit 16 a), ucast (drop_bit 8 a), ucast a :: u8] = a"
    by (subst to_be_4 [symmetric]) simp
  then show ?thesis
    by (simp add: read_ipv4_def show_ipv4_def read_sep_def read_octet_show s assms)
qed

lemma read_port_show: "stops 10 rest \<Longrightarrow> read_port (CHR '':'' # show_word (p :: u16) @ rest) = Some (unat p, rest)"
  using unsigned_less [of p, where 'a = nat] by (simp add: read_port_def show_word_def read_number_radix)

lemma parse_show_v4: "parse_sock (show_sock (SockV4 a p)) = Some (SockV4 a p)"
proof -
  have "read_ipv4 (show_ipv4 a @ CHR '':'' # show_word p) = Some (a, CHR '':'' # show_word p)"
    by (rule read_ipv4_show) (simp add: stops_def)
  moreover have "read_port (CHR '':'' # show_word p) = Some (unat p, [])"
    using read_port_show [of "[]" p] by (simp add: stops_def)
  ultimately show ?thesis by (simp add: parse_sock_def read_sock_v4_def)
qed

section \<open>IPv6: segments\<close>

lemma segments_list:
  "segments a = [ucast (drop_bit 112 a), ucast (drop_bit 96 a), ucast (drop_bit 80 a), ucast (drop_bit 64 a),
     ucast (drop_bit 48 a), ucast (drop_bit 32 a), ucast (drop_bit 16 a), ucast a]"
  by (simp add: segments_def upt_conv_Cons)

lemma length_segments [simp]: "length (segments a) = 8"
  by (simp add: segments_def)

lemma of_segments_snoc: "of_segments (gs @ [g]) = push_bit 16 (of_segments gs) OR ucast g"
  by (simp add: of_segments_def)

lemma bit_of_segments:
  "bit (of_segments gs) i \<longleftrightarrow> i < 128 \<and> i < 16 * length gs \<and> bit (rev gs ! (i div 16)) (i mod 16)"
proof (induction gs arbitrary: i rule: rev_induct)
  case Nil
  then show ?case by (simp add: of_segments_def)
next
  case (snoc g gs)
  show ?case
  proof (cases "i < 16")
    case True
    then show ?thesis by (auto simp: of_segments_snoc bit_simps)
  next
    case False
    then obtain k where k: "i = 16 + k" by (metis le_Suc_ex not_less)
    have "i div 16 = Suc (k div 16)" "i mod 16 = k mod 16" using k by simp_all
    then show ?thesis
      by (auto simp: of_segments_snoc bit_simps snoc.IH k dest: bit_imp_le_length)
  qed
qed

lemma of_segments_segments [simp]: "of_segments (segments a) = a"
proof (rule bit_word_eqI)
  fix i assume "i < LENGTH(128)"
  then have i: "i < 128" by simp
  then have d: "i div 16 < 8" by simp
  have "8 * 2 = (16::nat)" by simp
  have "rev (segments a) ! (i div 16) = ucast (drop_bit (16 * (i div 16)) a)"
  proof -
    have "7 - (7 - i div 16) = i div 16" using d by simp
    moreover have "[0..<8] ! (7 - i div 16) = 7 - i div 16" using nth_upt [of 0 "7 - i div 16" 8] by simp
    ultimately show ?thesis using d by (simp add: rev_nth segments_def del: upt_rec_numeral)
  qed
  moreover have "16 * (i div 16) + i mod 16 = i" by simp
  ultimately show "bit (of_segments (segments a)) i = bit a i"
    using i by (simp add: bit_of_segments bit_simps)
qed

section \<open>IPv6: the zero run\<close>

text \<open>The chosen run lies inside the segments and is zero throughout.\<close>

lemma zero_span_run:
  assumes "zero_span i longest current gs = (s, n)"
    and "gs = drop i all" and "i \<le> length all"
    and "fst longest + snd longest \<le> i" and "\<forall>j < snd longest. all ! (fst longest + j) = 0"
    and "snd current = 0 \<or> fst current + snd current = i" and "\<forall>j < snd current. all ! (fst current + j) = 0"
  shows "s + n \<le> length all \<and> (\<forall>j < n. all ! (s + j) = 0)"
  using assms
proof (induction i longest current gs rule: zero_span.induct)
  case (1 i longest current)
  then show ?case by auto
next
  case (2 i longest current g gs)
  have i: "i < length all" using "2.prems"(2) by (metis drop_eq_Nil list.distinct(1) not_le)
  have g: "g = all ! i" "gs = drop (Suc i) all"
    using "2.prems"(2) i by (simp_all add: Cons_nth_drop_Suc [symmetric])
  show ?case
  proof (cases "g = 0")
    case False
    then show ?thesis using "2.IH"(2) "2.prems" g i by simp
  next
    case True
    define cur where "cur = (if snd current = 0 then i else fst current, snd current + 1)"
    define lng where "lng = (if snd cur > snd longest then cur else longest)"
    have cur: "fst cur + snd cur = Suc i" "\<forall>j < snd cur. all ! (fst cur + j) = 0"
      using "2.prems"(6,7) True g(1) by (auto simp: cur_def less_Suc_eq)
    have lng: "fst lng + snd lng \<le> Suc i" "\<forall>j < snd lng. all ! (fst lng + j) = 0"
      using "2.prems"(4,5) cur by (auto simp: lng_def)
    have "zero_span i longest current (g # gs) = zero_span (Suc i) lng cur gs"
      using True by (simp add: cur_def lng_def Let_def)
    then have run: "zero_span (Suc i) lng cur gs = (s, n)" using "2.prems"(1) by simp
    from "2.IH"(1) [OF True refl refl refl, folded cur_def, folded lng_def]
    show ?thesis using run g(2) i lng cur by auto
  qed
qed

lemma zero_span_segments:
  assumes "zero_span 0 (0, 0) (0, 0) gs = (s, n)"
  shows "gs = take s gs @ replicate n 0 @ drop (s + n) gs" and "s + n \<le> length gs"
proof -
  have z: "s + n \<le> length gs" "\<forall>j < n. gs ! (s + j) = 0" using zero_span_run [OF assms, of gs] by auto
  have "take n (drop s gs) = replicate n 0" using z by (intro nth_equalityI) auto
  then show "gs = take s gs @ replicate n 0 @ drop (s + n) gs"
    by (metis append_take_drop_id drop_drop add.commute)
  show "s + n \<le> length gs" by (rule z)
qed

section \<open>IPv6: groups\<close>

definition sep_segs :: "u16 list \<Rightarrow> string" where
  "sep_segs gs = concat (map (\<lambda>g. CHR '':'' # show_seg g) gs)"

lemma show_segs_Cons: "show_segs (g # gs) = show_seg g @ sep_segs gs"
proof (induction gs arbitrary: g)
  case (Cons h hs)
  show ?case using Cons [of h] by (simp add: sep_segs_def)
qed (simp add: sep_segs_def)

lemma length_show_seg: "length (show_seg g) \<le> 4"
proof -
  have "unat g < 16 ^ Suc 3" using unsigned_less [of g, where 'a = nat] by simp
  then have "length (radix_str 16 (unat g)) \<le> Suc 3" by (intro length_radix_str) simp_all
  then show ?thesis by (simp add: show_seg_def)
qed

lemma read_group_show: "stops 16 rest \<Longrightarrow> read_group (show_seg g @ rest) = Some (unat g, rest)"
  using length_show_seg [of g] unsigned_less [of g, where 'a = nat]
  by (simp add: show_seg_def read_number_radix)

text \<open>What follows a group is never a dot, so it is not taken for the start of an IPv4 address.\<close>

lemma read_ipv4_no_dot:
  assumes "\<forall>c \<in> set (takeWhile (\<lambda>c. c \<noteq> CHR '':'' \<and> c \<noteq> CHR '']'' \<and> c \<noteq> CHR ''%'') s). c \<noteq> CHR ''.''"
  shows "read_ipv4 s = None"
proof (cases "read_octet s")
  case (Some p)
  then obtain n rest where r: "read_octet s = Some (n, rest)" by (cases p) auto
  then have rest: "rest = dropWhile (is_dig 10) s" by (simp add: read_number_def Let_def split: if_splits)
  have "read_char (CHR ''.'') rest = None"
  proof (cases rest)
    case (Cons c cs)
    have "c \<noteq> CHR ''.''"
    proof
      assume dot: "c = CHR ''.''"
      have "s = takeWhile (is_dig 10) s @ CHR ''.'' # cs" using Cons dot rest by (metis takeWhile_dropWhile_id)
      moreover have "takeWhile (\<lambda>c. c \<noteq> CHR '':'' \<and> c \<noteq> CHR '']'' \<and> c \<noteq> CHR ''%'') (takeWhile (is_dig 10) s @ CHR ''.'' # cs)
          = takeWhile (is_dig 10) s @ takeWhile (\<lambda>c. c \<noteq> CHR '':'' \<and> c \<noteq> CHR '']'' \<and> c \<noteq> CHR ''%'') (CHR ''.'' # cs)"
        by (rule takeWhile_append2) (auto dest!: set_takeWhileD)
      ultimately show False using assms by auto
    qed
    then show ?thesis using Cons by (simp add: read_char_def)
  qed (simp add: read_char_def)
  then show ?thesis by (simp add: read_ipv4_def read_sep_def r)
qed (simp add: read_ipv4_def read_sep_def)

text \<open>What may follow the groups: the end of the address, or a zero compression.\<close>

definition groups_end :: "string \<Rightarrow> bool" where
  "groups_end s \<longleftrightarrow> s = [] \<or> (\<exists>cs. s = CHR '']'' # cs \<or> s = CHR ''%'' # cs \<or> s = CHR '':'' # CHR '':'' # cs)"

lemma read_nothing:
  assumes "c \<in> {CHR '']'', CHR ''%'', CHR '':''}"
  shows "read_number r m z mx (c # cs) = None \<or> is_dig r c" and "read_ipv4 (c # cs) = None" and "read_group (c # cs) = None"
  using assms by (auto simp: read_number_def Let_def read_ipv4_def read_sep_def)

lemma groups_end_stop:
  assumes "groups_end rest"
  shows "read_sep (CHR '':'') i read_ipv4 rest = None" and "read_sep (CHR '':'') i read_group rest = None"
  using assms read_nothing
  by (auto simp: groups_end_def read_sep_def read_char_def read_ipv4_def read_number_def)

lemma show_seg_hex: "c \<in> set (show_seg g) \<Longrightarrow> is_dig 16 c"
  unfolding show_seg_def by (rule radix_str_digits) simp_all

lemma after_group:
  assumes "groups_end rest"
  shows "stops 16 (sep_segs gs @ rest)" and "read_ipv4 (show_seg g @ sep_segs gs @ rest) = None"
proof -
  have c: "sep_segs gs @ rest = [] \<or> (\<exists>c cs. sep_segs gs @ rest = c # cs \<and> c \<in> {CHR '']'', CHR ''%'', CHR '':''})"
    using assms by (cases gs) (auto simp: groups_end_def sep_segs_def)
  then show "stops 16 (sep_segs gs @ rest)" by (auto simp: stops_def)
  have hex: "d \<noteq> CHR '':'' \<and> d \<noteq> CHR '']'' \<and> d \<noteq> CHR ''%'' \<and> d \<noteq> CHR ''.''" if "d \<in> set (show_seg g)" for d
    using show_seg_hex [OF that] by (auto simp: is_dig_def to_digit_def Let_def)
  then have "takeWhile (\<lambda>c. c \<noteq> CHR '':'' \<and> c \<noteq> CHR '']'' \<and> c \<noteq> CHR ''%'') (show_seg g @ sep_segs gs @ rest) = show_seg g"
    using c by (subst takeWhile_append2) auto
  then show "read_ipv4 (show_seg g @ sep_segs gs @ rest) = None"
    by (intro read_ipv4_no_dot) (use hex in auto)
qed

lemma read_groups_seps:
  assumes "groups_end rest" and "0 < i" and "i + length gs \<le> limit"
  shows "read_groups limit i (sep_segs gs @ rest) = (gs, False, rest)"
  using assms(2,3)
proof (induction gs arbitrary: i)
  case Nil
  then show ?case using groups_end_stop [OF assms(1), of i]
    by (subst read_groups.simps) (simp add: sep_segs_def)
next
  case (Cons g gs)
  have s: "sep_segs (g # gs) @ rest = CHR '':'' # show_seg g @ sep_segs gs @ rest" by (simp add: sep_segs_def)
  have "read_sep (CHR '':'') i read_ipv4 (CHR '':'' # show_seg g @ sep_segs gs @ rest) = None"
    using Cons.prems(1) after_group(2) [OF assms(1)] by (simp add: read_sep_def)
  moreover have "read_sep (CHR '':'') i read_group (CHR '':'' # show_seg g @ sep_segs gs @ rest)
      = Some (unat g, sep_segs gs @ rest)"
    using Cons.prems(1) read_group_show [OF after_group(1) [OF assms(1)]] by (simp add: read_sep_def)
  ultimately show ?case
    using Cons.prems Cons.IH [of "Suc i"] unfolding s by (subst read_groups.simps) simp
qed

lemma read_groups_show:
  assumes "groups_end rest" and "length gs \<le> limit"
  shows "read_groups limit 0 (show_segs gs @ rest) = (gs, False, rest)"
proof (cases gs)
  case Nil
  then show ?thesis using groups_end_stop [OF assms(1), of 0]
    by (subst read_groups.simps) simp
next
  case (Cons g hs)
  have s: "show_segs gs @ rest = show_seg g @ sep_segs hs @ rest" by (simp add: Cons show_segs_Cons)
  have "read_sep (CHR '':'') 0 read_ipv4 (show_seg g @ sep_segs hs @ rest) = None"
    using after_group(2) [OF assms(1)] by (simp add: read_sep_def)
  moreover have "read_sep (CHR '':'') 0 read_group (show_seg g @ sep_segs hs @ rest) = Some (unat g, sep_segs hs @ rest)"
    using read_group_show [OF after_group(1) [OF assms(1)]] by (simp add: read_sep_def)
  ultimately show ?thesis
    using assms(2) read_groups_seps [OF assms(1), of "Suc 0" hs limit] unfolding s unfolding Cons
    by (subst read_groups.simps) simp
qed

section \<open>IPv6 and socket addresses\<close>

lemma mapped_segments:
  assumes "is_v4_mapped (segments a)"
  shows "segments a = [0, 0, 0, 0, 0, 0xffff, ucast (drop_bit 16 (ucast a :: u32)), ucast (ucast a :: u32)]"
proof -
  have "ucast (drop_bit 16 (ucast a :: u32)) = (ucast (drop_bit 16 a) :: u16)"
    "ucast (ucast a :: u32) = (ucast a :: u16)"
    by (rule bit_word_eqI; auto simp: bit_simps)+
  then show ?thesis using assms by (simp add: is_v4_mapped_def segments_list)
qed

lemma read_ipv6_mapped:
  assumes "is_v4_mapped (segments a)" and "stops 10 rest"
  shows "read_ipv6 (''::ffff:'' @ show_ipv4 (ucast a) @ rest) = Some (a, rest)"
proof -
  let ?v = "ucast a :: u32"
  have seg: "show_seg 0xffff = ''ffff''" by (simp add: show_seg_def radix_str.simps digit_char_def char_of_eq_iff)
  have head: "read_groups 8 0 (''::ffff:'' @ show_ipv4 ?v @ rest) = ([], False, ''::ffff:'' @ show_ipv4 ?v @ rest)"
    using read_groups_show [of "''::ffff:'' @ show_ipv4 ?v @ rest" "[]" 8] by (simp add: groups_end_def)
  have no: "read_ipv4 (show_seg 0xffff @ CHR '':'' # show_ipv4 ?v @ rest) = None"
    by (rule read_ipv4_no_dot) (simp add: seg)
  have grp: "read_group (show_seg 0xffff @ CHR '':'' # show_ipv4 ?v @ rest) = Some (65535, CHR '':'' # show_ipv4 ?v @ rest)"
    by (subst read_group_show) (simp_all add: stops_def)
  have v4: "read_groups 7 1 (CHR '':'' # show_ipv4 ?v @ rest) = ([ucast (drop_bit 16 ?v), ucast ?v], True, rest)"
    by (subst read_groups.simps) (simp add: read_sep_def read_ipv4_show [OF assms(2)])
  have tail: "read_groups 7 0 (show_seg 0xffff @ CHR '':'' # show_ipv4 ?v @ rest) =
      ([0xffff, ucast (drop_bit 16 ?v), ucast ?v], True, rest)"
    using v4 by (subst read_groups.simps) (simp add: read_sep_def no grp)
  have "of_segments [0, 0, 0, 0, 0, 0xffff, ucast (drop_bit 16 ?v), ucast ?v] = a"
    using mapped_segments [OF assms(1)] of_segments_segments [of a] by simp
  then show ?thesis
    using head tail by (simp add: read_ipv6_def seg numeral_eq_Suc)
qed

lemma read_ipv6_show:
  assumes "rest = [] \<or> rest = CHR '']'' # cs \<or> rest = CHR ''%'' # cs"
  shows "read_ipv6 (show_ipv6 a @ rest) = Some (a, rest)"
proof (cases "is_v4_mapped (segments a)")
  case True
  have "stops 10 rest" using assms by (auto simp: stops_def)
  then show ?thesis using read_ipv6_mapped [OF True, of rest] True by (simp add: show_ipv6_def Let_def)
next
  case False
  have ge: "groups_end rest" using assms by (auto simp: groups_end_def)
  obtain s n where z: "zero_span 0 (0, 0) (0, 0) (segments a) = (s, n)" by fastforce
  note span = zero_span_segments [OF z, unfolded length_segments]
  show ?thesis
  proof (cases "n > 1")
    case True
    let ?hd = "take s (segments a)" and ?tl = "drop (s + n) (segments a)"
    have shown: "show_ipv6 a @ rest = show_segs ?hd @ ''::'' @ show_segs ?tl @ rest"
      using False True z by (simp add: show_ipv6_def Let_def)
    have h: "read_groups 8 0 (show_segs ?hd @ ''::'' @ show_segs ?tl @ rest) = (?hd, False, ''::'' @ show_segs ?tl @ rest)"
      by (rule read_groups_show) (simp_all add: groups_end_def)
    have t: "read_groups (8 - (s + 1)) 0 (show_segs ?tl @ rest) = (?tl, False, rest)"
      by (rule read_groups_show [OF ge]) (use True span(2) in simp)
    have "8 - s - length ?tl = n" "length ?hd = s" using span(2) by simp_all
    then show ?thesis
      unfolding shown using True span h t
      by (simp add: read_ipv6_def span(1) [symmetric])
  next
    case n: False
    have "read_groups 8 0 (show_segs (segments a) @ rest) = (segments a, False, rest)"
      by (rule read_groups_show [OF ge]) simp
    then show ?thesis using False n z by (simp add: show_ipv6_def Let_def read_ipv6_def)
  qed
qed

text \<open>The scope id is printed unless it is zero, the flow info never.\<close>

fun clear_flow :: "sockaddr \<Rightarrow> sockaddr" where
  "clear_flow (SockV4 a p) = SockV4 a p"
| "clear_flow (SockV6 a p f s) = SockV6 a p 0 s"

lemma clear_flow_new [simp]: "clear_flow (sock_new ip p) = sock_new ip p"
  by (cases ip) simp_all

lemma read_scope_show:
  "read_scope (CHR ''%'' # show_word (k :: u32) @ CHR '']'' # cs) = Some (unat k, CHR '']'' # cs)"
  using unsigned_less [of k, where 'a = nat]
  by (simp add: read_scope_def show_word_def read_number_radix stops_def)

lemma parse_show_v6: "parse_sock (show_sock (SockV6 a p f k)) = Some (SockV6 a p 0 k)"
proof -
  let ?rest = "CHR '']'' # CHR '':'' # show_word p"
  have port: "read_port (CHR '':'' # show_word p) = Some (unat p, [])"
    using read_port_show [of "[]" p] by (simp add: stops_def)
  have v4: "read_sock_v4 (CHR ''['' # x) = None" for x
    by (simp add: read_sock_v4_def read_ipv4_def read_sep_def read_number_def Let_def)
  show ?thesis
  proof (cases "k = 0")
    case True
    have "read_ipv6 (show_ipv6 a @ ?rest) = Some (a, ?rest)" by (rule read_ipv6_show) blast
    then show ?thesis using True port v4
      by (simp add: parse_sock_def read_sock_v6_def read_scope_def read_char_def [of "CHR ''%''"])
  next
    case False
    let ?sc = "CHR ''%'' # show_word k @ ?rest"
    have "read_ipv6 (show_ipv6 a @ ?sc) = Some (a, ?sc)" by (rule read_ipv6_show) blast
    then show ?thesis using False port v4
      by (simp add: parse_sock_def read_sock_v6_def read_scope_show)
  qed
qed

lemma parse_show_sock: "parse_sock (show_sock a) = Some (clear_flow a)"
  by (cases a) (simp_all only: parse_show_v4 parse_show_v6 clear_flow.simps)

end
