(* ===== verification/Stun_Codec.thy ===== *)
theory Stun_Codec
  imports Net_Addr
begin

text \<open>
  The shared STUN/TURN codec, \<open>crates/probe-core/src/stun_codec.rs\<close>: the header parser,
  the attribute walker, the XOR address encoding in both directions, the legacy address,
  the error code, and the transaction id.  Every index into a received buffer is checked:
  an access out of range is \<open>Panic\<close>.
\<close>

section \<open>Constants and types\<close>

definition MAGIC_COOKIE :: u32 where "MAGIC_COOKIE = 0x2112A442"

definition MAPPED_ADDRESS :: u16 where "MAPPED_ADDRESS = 0x0001"
definition USERNAME :: u16 where "USERNAME = 0x0006"
definition MESSAGE_INTEGRITY :: u16 where "MESSAGE_INTEGRITY = 0x0008"
definition ERROR_CODE :: u16 where "ERROR_CODE = 0x0009"
definition REALM :: u16 where "REALM = 0x0014"
definition NONCE :: u16 where "NONCE = 0x0015"
definition XOR_PEER_ADDRESS :: u16 where "XOR_PEER_ADDRESS = 0x0012"
definition DATA :: u16 where "DATA = 0x0013"
definition XOR_MAPPED_ADDRESS :: u16 where "XOR_MAPPED_ADDRESS = 0x0020"
definition XOR_RELAYED_ADDRESS :: u16 where "XOR_RELAYED_ADDRESS = 0x0016"
definition REQUESTED_TRANSPORT :: u16 where "REQUESTED_TRANSPORT = 0x0019"
definition LIFETIME :: u16 where "LIFETIME = 0x000D"

lemmas attr_defs =
  MAPPED_ADDRESS_def USERNAME_def MESSAGE_INTEGRITY_def ERROR_CODE_def REALM_def NONCE_def
  XOR_PEER_ADDRESS_def DATA_def XOR_MAPPED_ADDRESS_def XOR_RELAYED_ADDRESS_def
  REQUESTED_TRANSPORT_def LIFETIME_def

datatype codec_error =
  Short nat
| BadCookie u32
| TxIdMismatch
| TruncatedAttr
| BadFamily u8

record header =
  msg_type :: u16
  attrs_len :: u16
  h_txid :: bytes

record attr =
  attr_type :: u16
  attr_value :: bytes

section \<open>Header\<close>

definition parse_header :: "bytes \<Rightarrow> bytes \<Rightarrow> (codec_error, header) res" where
  "parse_header buf expected_txid =
     (if length buf < 20 then Err (Short (length buf))
      else
        bind_res (u16_at buf 0) (\<lambda>mt.
        bind_res (u16_at buf 2) (\<lambda>alen.
        bind_res (u32_at buf 4) (\<lambda>cookie.
        if cookie \<noteq> MAGIC_COOKIE then Err (BadCookie cookie)
        else
          bind_res (slice buf 8 20) (\<lambda>txid.
          if txid \<noteq> expected_txid then Err TxIdMismatch
          else if length buf < 20 + unat alen then Err TruncatedAttr
          else Ok \<lparr>msg_type = mt, attrs_len = alen, h_txid = txid\<rparr>)))))"

section \<open>Attribute walk\<close>

text \<open>\<open>(4 - (n % 4)) % 4\<close>: the padding that follows an \<open>n\<close>-byte value.\<close>

definition pad4 :: "nat \<Rightarrow> nat" where
  "pad4 n = (4 - n mod 4) mod 4"

text \<open>The \<open>while i + 4 <= end\<close> loop of \<open>walk_attrs\<close>, from position \<open>i\<close>.\<close>

function walk_from :: "bytes \<Rightarrow> nat \<Rightarrow> nat \<Rightarrow> attr list \<Rightarrow> (codec_error, attr list) res" where
  "walk_from buf end i out =
     (if i + 4 \<le> end then
        bind_res (u16_at buf i) (\<lambda>ty.
        bind_res (u16_at buf (i + 2)) (\<lambda>alen.
        let val_start = i + 4; val_end = val_start + unat alen in
        if val_end > end then Err TruncatedAttr
        else
          bind_res (slice buf val_start val_end) (\<lambda>v.
          walk_from buf end (val_end + pad4 (unat alen))
            (out @ [\<lparr>attr_type = ty, attr_value = v\<rparr>]))))
      else Ok out)"
  by pat_completeness auto
termination
  by (relation "measure (\<lambda>(buf, end, i, out). end - i)") auto

declare walk_from.simps [simp del]

definition walk_attrs :: "bytes \<Rightarrow> u16 \<Rightarrow> (codec_error, attr list) res" where
  "walk_attrs buf alen = walk_from buf (20 + unat alen) 20 []"

section \<open>Addresses\<close>

text \<open>\<open>(MAGIC_COOKIE >> 16) as u16\<close> and the 16-byte mask of the IPv6 form.\<close>

definition cookie_hi :: u16 where
  "cookie_hi = ucast (drop_bit 16 MAGIC_COOKIE)"

definition xor_mask :: "bytes \<Rightarrow> bytes" where
  "xor_mask txid = to_be 4 MAGIC_COOKIE @ txid"

definition xor_bytes :: "bytes \<Rightarrow> bytes \<Rightarrow> bytes" where
  "xor_bytes xs ys = map2 (\<lambda>x y. x XOR y) xs ys"

definition parse_xor_address :: "bytes \<Rightarrow> bytes \<Rightarrow> (codec_error, sockaddr) res" where
  "parse_xor_address v txid =
     (if length v < 4 then Err TruncatedAttr
      else
        bind_res (index_at v 1) (\<lambda>family.
        bind_res (u16_at v 2) (\<lambda>xport.
        let port = xport XOR cookie_hi in
        if family = 0x01 then
          (if length v < 8 then Err TruncatedAttr
           else bind_res (u32_at v 4) (\<lambda>xaddr.
                Ok (sock_new (V4 (xaddr XOR MAGIC_COOKIE)) port)))
        else if family = 0x02 then
          (if length v < 20 then Err TruncatedAttr
           else bind_res (slice v 4 20) (\<lambda>xaddr.
                Ok (sock_new (V6 (from_be (xor_bytes xaddr (xor_mask txid)))) port)))
        else Err (BadFamily family))))"

definition build_xor_address :: "sockaddr \<Rightarrow> bytes \<Rightarrow> bytes" where
  "build_xor_address addr txid =
     (let xport = sock_port addr XOR cookie_hi in
      case sock_ip addr of
        V4 a \<Rightarrow> [0, 0x01] @ to_be 2 xport @ to_be 4 (a XOR MAGIC_COOKIE)
      | V6 a \<Rightarrow> [0, 0x02] @ to_be 2 xport @ xor_bytes (to_be 16 a) (xor_mask txid))"

definition parse_mapped_address :: "bytes \<Rightarrow> (codec_error, sockaddr) res" where
  "parse_mapped_address v =
     (if length v < 4 then Err TruncatedAttr
      else
        bind_res (index_at v 1) (\<lambda>family.
        bind_res (u16_at v 2) (\<lambda>port.
        if family = 0x01 then
          (if length v < 8 then Err TruncatedAttr
           else bind_res (u32_at v 4) (\<lambda>a. Ok (sock_new (V4 a) port)))
        else if family = 0x02 then
          (if length v < 20 then Err TruncatedAttr
           else bind_res (slice v 4 20) (\<lambda>a. Ok (sock_new (V6 (from_be a)) port)))
        else Err (BadFamily family))))"

section \<open>Error code\<close>

text \<open>
  \<open>String::from_utf8_lossy\<close>: one step consumes a well-formed sequence, or the longest
  prefix of one (at least one byte), which becomes U+FFFD.  \<open>utf8_len\<close> is the length of
  the sequence at the head of the input, \<open>Inl n\<close> when only \<open>n\<close> bytes of it are usable.
\<close>

definition is_cont :: "bytes \<Rightarrow> nat \<Rightarrow> bool" where
  "is_cont bs i \<longleftrightarrow> i < length bs \<and> (bs ! i) AND 192 = 128"

definition byte_in :: "bytes \<Rightarrow> nat \<Rightarrow> u8 \<Rightarrow> u8 \<Rightarrow> bool" where
  "byte_in bs i lo hi \<longleftrightarrow> i < length bs \<and> lo \<le> bs ! i \<and> bs ! i \<le> hi"

definition utf8_len :: "bytes \<Rightarrow> nat + nat" where
  "utf8_len bs =
     (let b = bs ! 0 in
      if b < 0x80 then Inr 1
      else if 0xC2 \<le> b \<and> b \<le> 0xDF then (if is_cont bs 1 then Inr 2 else Inl 1)
      else if 0xE0 \<le> b \<and> b \<le> 0xEF then
        (if (if b = 0xE0 then byte_in bs 1 0xA0 0xBF
             else if b = 0xED then byte_in bs 1 0x80 0x9F else byte_in bs 1 0x80 0xBF)
         then (if is_cont bs 2 then Inr 3 else Inl 2) else Inl 1)
      else if 0xF0 \<le> b \<and> b \<le> 0xF4 then
        (if (if b = 0xF0 then byte_in bs 1 0x90 0xBF
             else if b = 0xF4 then byte_in bs 1 0x80 0x8F else byte_in bs 1 0x80 0xBF)
         then (if is_cont bs 2 then (if is_cont bs 3 then Inr 4 else Inl 3) else Inl 2) else Inl 1)
      else Inl 1)"

lemma utf8_len_pos: "utf8_len bs = Inr n \<Longrightarrow> 0 < n" "utf8_len bs = Inl n \<Longrightarrow> 0 < n"
  by (auto simp: utf8_len_def Let_def split: if_splits)

function utf8_lossy :: "bytes \<Rightarrow> bytes" where
  "utf8_lossy bs =
     (if bs = [] then []
      else (case utf8_len bs of
              Inr n \<Rightarrow> take n bs @ utf8_lossy (drop n bs)
            | Inl n \<Rightarrow> [0xEF, 0xBF, 0xBD] @ utf8_lossy (drop n bs)))"
  by pat_completeness auto
termination
  by (relation "measure length") (auto dest: utf8_len_pos)

declare utf8_lossy.simps [simp del]

definition from_utf8_lossy :: "bytes \<Rightarrow> string" where
  "from_utf8_lossy bs = str_of (utf8_lossy bs)"

record error_code =
  ec_code :: u16
  ec_reason :: string

definition parse_error_code :: "bytes \<Rightarrow> (codec_error, error_code) res" where
  "parse_error_code v =
     (if length v < 4 then Err TruncatedAttr
      else
        bind_res (index_at v 2) (\<lambda>b2.
        bind_res (index_at v 3) (\<lambda>b3.
        let cls = ucast (b2 AND 0x07); number = ucast b3; code = cls * 100 + number in
        bind_res (slice v 4 (length v)) (\<lambda>r.
        Ok \<lparr>ec_code = code, ec_reason = from_utf8_lossy r\<rparr>))))"

section \<open>Transaction id\<close>

text \<open>
  \<open>new_txid\<close> reads the system clock (\<open>None\<close> when it stands before the epoch) and the
  address of a stack slot; both are inputs here.
\<close>

definition new_txid :: "nat option \<Rightarrow> u64 \<Rightarrow> bytes" where
  "new_txid clock stack_addr =
     (let nanos = (case clock of Some t \<Rightarrow> word_of_nat t | None \<Rightarrow> 0) :: u64 in
      to_be 8 nanos @ to_be 4 (ucast stack_addr :: u32))"

lemma length_new_txid [simp]: "length (new_txid t a) = 12"
  by (simp add: new_txid_def Let_def)


section \<open>Lemmas: header\<close>

lemma parse_header_eq:
  "parse_header buf txid =
     (if length buf < 20 then Err (Short (length buf))
      else if from_be (take 4 (drop 4 buf)) \<noteq> MAGIC_COOKIE
        then Err (BadCookie (from_be (take 4 (drop 4 buf))))
      else if take 12 (drop 8 buf) \<noteq> txid then Err TxIdMismatch
      else if length buf < 20 + unat (from_be (take 2 (drop 2 buf)) :: u16) then Err TruncatedAttr
      else Ok \<lparr>msg_type = from_be (take 2 buf), attrs_len = from_be (take 2 (drop 2 buf)),
               h_txid = txid\<rparr>)"
  by (simp add: parse_header_def u16_at_ok u32_at_ok)

lemma parse_header_no_panic: "parse_header buf txid \<noteq> Panic"
  by (simp add: parse_header_eq)

lemma parse_header_OkD:
  assumes "parse_header buf txid = Ok h"
  shows "20 + unat (attrs_len h) \<le> length buf" and "h_txid h = txid" and "length txid = 12"
  using assms by (auto simp: parse_header_eq split: if_splits)

section \<open>Lemmas: attribute walk\<close>

text \<open>The reference decoder consumes the attribute section from its front.\<close>

function decode_attrs :: "bytes \<Rightarrow> (codec_error, attr list) res" where
  "decode_attrs bs =
     (if length bs < 4 then Ok []
      else
        (let ty = from_be (take 2 bs); n = unat (from_be (take 2 (drop 2 bs)) :: u16) in
         if length bs < 4 + n then Err TruncatedAttr
         else bind_res (decode_attrs (drop (4 + n + pad4 n) bs)) (\<lambda>as.
              Ok (\<lparr>attr_type = ty, attr_value = take n (drop 4 bs)\<rparr> # as))))"
  by pat_completeness auto
termination
  by (relation "measure length") auto

declare decode_attrs.simps [simp del]

lemma decode_attrs_no_panic: "decode_attrs bs \<noteq> Panic"
proof (induction bs rule: decode_attrs.induct)
  case (1 bs)
  then show ?case
    by (subst decode_attrs.simps) (auto simp: Let_def res_simps)
qed

text \<open>The index loop of the source computes the reference decoder.\<close>

lemma walk_from_decode:
  assumes "end \<le> length buf"
  shows "walk_from buf end i out =
           bind_res (decode_attrs (drop i (take end buf))) (\<lambda>as. Ok (out @ as))"
  using assms
proof (induction buf "end" i out rule: walk_from.induct)
  case (1 buf "end" i out)
  let ?rest = "drop i (take end buf)"
  show ?case
  proof (cases "i + 4 \<le> end")
    case False
    then have "length ?rest < 4" by simp
    then show ?thesis using False
      by (subst walk_from.simps) (subst decode_attrs.simps, simp)
  next
    case True
    let ?n = "unat (from_be (take 2 (drop (i + 2) buf)) :: u16)"
    have t1: "take 2 ?rest = take 2 (drop i buf)"
      and t2: "take 2 (drop (2 + i) (take end buf)) = take 2 (drop (i + 2) buf)"
      using True by (simp_all add: drop_take min_def add.commute)
    have u1: "u16_at buf i = Ok (from_be (take 2 (drop i buf)))"
      and u2: "u16_at buf (i + 2) = Ok (from_be (take 2 (drop (i + 2) buf)))"
      using True "1.prems" by (simp_all add: u16_at_ok)
    have len: "length ?rest = end - i" using "1.prems" by simp
    show ?thesis
    proof (cases "i + 4 + ?n > end")
      case gt: True
      have "length ?rest < 4 + ?n" using gt len True by linarith
      then show ?thesis using True gt len
        by (subst walk_from.simps) (subst decode_attrs.simps, simp add: u1 u2 t1 t2 Let_def)
    next
      case le: False
      let ?v = "take ?n (drop (i + 4) buf)"
      let ?a = "\<lparr>attr_type = from_be (take 2 (drop i buf)), attr_value = ?v\<rparr>"
      let ?j = "i + 4 + ?n + pad4 ?n"
      have v: "take ?n (drop (4 + i) (take end buf)) = ?v"
        using le by (simp add: drop_take min_def add.commute)
      have d: "4 + ?n + pad4 ?n + i = ?j" by simp
      have ih: "walk_from buf end ?j (out @ [?a]) =
                  bind_res (decode_attrs (drop ?j (take end buf))) (\<lambda>as. Ok ((out @ [?a]) @ as))"
        using "1.IH" [OF True refl refl, of "from_be (take 2 (drop (i + 2) buf))"] le "1.prems" by simp
      have w: "walk_from buf end i out = walk_from buf end ?j (out @ [?a])"
        using True le "1.prems" by (subst walk_from.simps) (simp add: u1 u2 Let_def)
      have "decode_attrs ?rest = bind_res (decode_attrs (drop ?j (take end buf))) (\<lambda>as. Ok (?a # as))"
      proof -
        have "\<not> end - i < 4 + ?n" and "\<not> end - i < 4" using True le by linarith+
        then show ?thesis using len by (subst decode_attrs.simps) (simp add: t1 t2 v d Let_def)
      qed
      then show ?thesis unfolding w ih by (cases "decode_attrs (drop ?j (take end buf))") auto
    qed
  qed
qed

lemma walk_attrs_decode:
  assumes "20 + unat alen \<le> length buf"
  shows "walk_attrs buf alen = decode_attrs (take (unat alen) (drop 20 buf))"
proof -
  have "drop 20 (take (20 + unat alen) buf) = take (unat alen) (drop 20 buf)"
    by (simp add: drop_take)
  with walk_from_decode [OF assms, of 20 "[]"] show ?thesis
    by (cases "decode_attrs (take (unat alen) (drop 20 buf))") (simp_all add: walk_attrs_def)
qed

lemma walk_attrs_no_panic:
  "parse_header buf txid = Ok h \<Longrightarrow> walk_attrs buf (attrs_len h) \<noteq> Panic"
  by (simp add: walk_attrs_decode parse_header_OkD(1) decode_attrs_no_panic)

section \<open>Lemmas: addresses\<close>

lemma length_xor_bytes [simp]: "length (xor_bytes xs ys) = min (length xs) (length ys)"
  by (simp add: xor_bytes_def)

lemma xor_bytes_self_inverse:
  "length xs \<le> length ys \<Longrightarrow> xor_bytes (xor_bytes xs ys) ys = xs"
  by (rule nth_equalityI) (simp_all add: xor_bytes_def xor.assoc)

lemma length_xor_mask [simp]: "length (xor_mask txid) = 4 + length txid"
  by (simp add: xor_mask_def)

definition sock_norm :: "sockaddr \<Rightarrow> sockaddr" where
  "sock_norm a = sock_new (sock_ip a) (sock_port a)"

lemma sock_norm_new [simp]: "sock_norm (sock_new ip p) = sock_new ip p"
  by (simp add: sock_norm_def)

lemma xor_address_roundtrip:
  assumes "length txid = 12"
  shows "parse_xor_address (build_xor_address a txid) txid = Ok (sock_norm a)"
proof (cases "sock_ip a")
  case (V4 x)
  then show ?thesis
    by (simp add: parse_xor_address_def build_xor_address_def Let_def u16_at_ok u32_at_ok
        xor.assoc sock_norm_def)
next
  case (V6 x)
  then show ?thesis using assms
    by (simp add: parse_xor_address_def build_xor_address_def Let_def u16_at_ok
        xor_bytes_self_inverse xor.assoc sock_norm_def)
qed

lemma length_build_xor_address:
  "length txid = 12 \<Longrightarrow>
   length (build_xor_address a txid) = (case sock_ip a of V4 _ \<Rightarrow> 8 | V6 _ \<Rightarrow> 20)"
  by (simp add: build_xor_address_def Let_def split: ipaddr.splits)

lemma parse_xor_address_no_panic: "parse_xor_address v txid \<noteq> Panic"
  by (simp add: parse_xor_address_def Let_def u16_at_ok u32_at_ok)

lemma parse_mapped_address_no_panic: "parse_mapped_address v \<noteq> Panic"
  by (simp add: parse_mapped_address_def u16_at_ok u32_at_ok)

section \<open>Lemmas: error code\<close>

lemma parse_error_code_no_panic: "parse_error_code v \<noteq> Panic"
  by (simp add: parse_error_code_def Let_def)

lemma parse_error_code_short: "length v < 4 \<Longrightarrow> parse_error_code v = Err TruncatedAttr"
  by (simp add: parse_error_code_def)

lemma parse_error_code_ok:
  assumes "4 \<le> length v"
  shows "parse_error_code v =
     Ok \<lparr>ec_code = ucast (v ! 2 AND 7) * 100 + ucast (v ! 3), ec_reason = from_utf8_lossy (drop 4 v)\<rparr>"
  using assms by (simp add: parse_error_code_def Let_def)

lemma unat_ucast_u8: "unat (ucast (w :: u8) :: u16) = unat w"
  using unsigned_less [of w, where 'a = nat]
  by (simp add: unsigned_ucast_eq take_bit_eq_mod)

lemma unat_error_code:
  fixes b c :: u8
  shows "unat (ucast (b AND 7) * 100 + ucast c :: u16) = unat (b AND 7) * 100 + unat c"
proof -
  have b: "unat (b AND 7) \<le> 7"
    using word_and_le1 [of b 7] by (simp add: word_le_nat_alt)
  have c: "unat c < 256" using unsigned_less [of c, where 'a = nat] by simp
  have bu: "unat (ucast (b AND 7) :: u16) = unat (b AND 7)" by (simp add: unat_ucast_u8)
  have cu: "unat (ucast c :: u16) = unat c" by (simp add: unat_ucast_u8)
  have m: "unat (ucast (b AND 7) * 100 :: u16) = unat (b AND 7) * 100"
    using b by (simp add: unat_word_ariths bu)
  show ?thesis using b c by (simp add: unat_word_ariths m bu cu)
qed

text \<open>Every code of the range 0 to 699 has an encoding, and decodes back.\<close>

lemma utf8_lossy_Nil [simp]: "utf8_lossy [] = []"
  by (simp add: utf8_lossy.simps)

lemma utf8_lossy_ascii:
  "\<forall>b \<in> set bs. b < 0x80 \<Longrightarrow> utf8_lossy bs = bs"
proof (induction bs)
  case Nil
  then show ?case by simp
next
  case (Cons b bs)
  then have "utf8_len (b # bs) = Inr 1" by (simp add: utf8_len_def Let_def)
  then show ?case using Cons by (simp add: utf8_lossy.simps [of "b # bs"])
qed

section \<open>Properties\<close>

text \<open>\<open>parse_header\<close> accepts a buffer exactly when it holds a 20-byte header with the magic
  cookie and the expected transaction id and is at least as long as the header announces;
  the result carries the type and length fields it read.\<close>

theorem parse_header_accepts:
  "parse_header buf txid = Ok h \<longleftrightarrow>
     20 \<le> length buf \<and> take 4 (drop 4 buf) = [0x21, 0x12, 0xA4, 0x42] \<and> take 12 (drop 8 buf) = txid
     \<and> 20 + unat (attrs_len h) \<le> length buf
     \<and> h = \<lparr>msg_type = from_be (take 2 buf), attrs_len = from_be (take 2 (drop 2 buf)), h_txid = txid\<rparr>"
proof -
  have len: "length (take 4 (drop 4 buf)) = 4" if "20 \<le> length buf" using that by simp
  have "from_be (take 4 (drop 4 buf)) = MAGIC_COOKIE \<longleftrightarrow> take 4 (drop 4 buf) = [0x21, 0x12, 0xA4, 0x42]"
    if "20 \<le> length buf"
  proof -
    have bytes: "to_be 4 MAGIC_COOKIE = [0x21, 0x12, 0xA4, 0x42]"
      by (simp add: to_be_4 MAGIC_COOKIE_def)
    show ?thesis
      using to_be_from_be [where 'a = 32, OF _ len [OF that]] by (auto simp flip: bytes)
  qed
  then show ?thesis by (auto simp: parse_header_eq)
qed

text \<open>C5: The index loop of \<open>walk_attrs\<close>, on a buffer at least as long as the announced
  attribute section, computes the reference decoder that consumes the section from its
  front; in particular no index or slice is out of range.\<close>

theorem walk_attrs_refines:
  assumes "20 + unat alen \<le> length buf"
  shows "walk_attrs buf alen = decode_attrs (take (unat alen) (drop 20 buf))
       \<and> walk_attrs buf alen \<noteq> Panic"
  using assms by (simp add: walk_attrs_decode decode_attrs_no_panic)

theorem walk_attrs_refines_witness:
  "walk_attrs (replicate 20 0 @ [0, 20, 0, 1, 120, 0, 0, 0]) 8 = decode_attrs [0, 20, 0, 1, 120, 0, 0, 0]"
  using walk_attrs_refines [of 8 "replicate 20 0 @ [0, 20, 0, 1, 120, 0, 0, 0]"] by simp

text \<open>C8: Every address, IPv4 or IPv6, that \<open>build_xor_address\<close> encodes under a 12-byte
  transaction id is decoded by \<open>parse_xor_address\<close> under the same id to the same IP and
  port (flow info and scope are not on the wire).\<close>

theorem xor_address_roundtrip_all:
  assumes "length txid = 12"
  shows "parse_xor_address (build_xor_address a txid) txid = Ok (sock_new (sock_ip a) (sock_port a))"
  using assms by (simp add: xor_address_roundtrip sock_norm_def)

theorem xor_address_roundtrip_all_witness:
  "parse_xor_address (build_xor_address (SockV6 0x20010db8000000000000000000000001 8080 0 0) (replicate 12 0x55))
     (replicate 12 0x55) = Ok (SockV6 0x20010db8000000000000000000000001 8080 0 0)"
  using xor_address_roundtrip_all [of "replicate 12 0x55" "SockV6 0x20010db8000000000000000000000001 8080 0 0"]
  by simp

text \<open>C38: The code of a readable ERROR-CODE is \<open>100 * class + number\<close> without wrap-around, at
  most 955, and does not determine class and number: class 3 with number 101 reads as 401
  just as class 4 with number 1 does, since the number byte is not limited to 99.\<close>

theorem error_code_value:
  "(\<forall>v ec. parse_error_code v = Ok ec \<longrightarrow>
      unat (ec_code ec) = 100 * unat (v ! 2 AND 7) + unat (v ! 3) \<and> unat (ec_code ec) \<le> 955)
   \<and> map_err id (parse_error_code [0, 0, 4, 1]) = parse_error_code [0, 0, 3, 101]"
proof (intro conjI allI impI)
  fix v ec assume ok: "parse_error_code v = Ok ec"
  then have "4 \<le> length v" by (cases "length v < 4") (simp_all add: parse_error_code_short)
  then have ec: "unat (ec_code ec) = 100 * unat (v ! 2 AND 7) + unat (v ! 3)"
    using ok by (simp add: parse_error_code_ok unat_error_code) (metis error_code.select_convs(1) mult.commute unat_error_code)
  then show "unat (ec_code ec) = 100 * unat (v ! 2 AND 7) + unat (v ! 3)" .
  have "unat (v ! 2 AND 7) \<le> 7" using word_and_le1 [of "v ! 2" 7] by (simp add: word_le_nat_alt)
  moreover have "unat (v ! 3) < 256" using unsigned_less [of "v ! 3", where 'a = nat] by simp
  ultimately show "unat (ec_code ec) \<le> 955" using ec by linarith
next
  show "map_err id (parse_error_code [0, 0, 4, 1]) = parse_error_code [0, 0, 3, 101]"
    by (simp add: parse_error_code_ok)
qed

theorem error_code_value_witness:
  "\<exists>ec. parse_error_code [0, 0, 4, 38] = Ok ec \<and> unat (ec_code ec) = 438"
proof -
  obtain ec where ec: "parse_error_code [0, 0, 4, 38] = Ok ec" by (simp add: parse_error_code_ok)
  with error_code_value have "unat (ec_code ec) = 100 * unat ([0, 0, 4, 38 :: u8] ! 2 AND 7) + unat ([0, 0, 4, 38 :: u8] ! 3)"
    by blast
  with ec show ?thesis by simp
qed

end
