(* ===== verification/Stream_Codec.thy ===== *)
theory Stream_Codec
  imports Prelude
begin

text \<open>
  The contract of a self-delimiting byte encoding: decoding the front of a stream gives
  back the value that was written and the bytes behind it.  The attribute encoding
  (\<open>turn_codec.rs\<close>, \<open>append_attr\<close> and \<open>walk_attrs\<close>) and the TCP framing of TURNS
  (\<open>checks/turns_alloc.rs\<close>, \<open>send_framed\<close> and \<open>recv_framed\<close>) both provide it; what
  follows from it for a stream of several values is proved once, here.
\<close>

fun decode_n :: "(bytes \<Rightarrow> ('a \<times> bytes) option) \<Rightarrow> nat \<Rightarrow> bytes \<Rightarrow> ('a list \<times> bytes) option" where
  "decode_n dec 0 bs = Some ([], bs)"
| "decode_n dec (Suc n) bs =
     (case dec bs of
        None \<Rightarrow> None
      | Some (x, rest) \<Rightarrow> map_option (\<lambda>(xs, r). (x # xs, r)) (decode_n dec n rest))"

locale stream_codec =
  fixes enc :: "'a \<Rightarrow> bytes"
    and dec :: "bytes \<Rightarrow> ('a \<times> bytes) option"
    and valid :: "'a \<Rightarrow> bool"
  assumes dec_enc: "valid x \<Longrightarrow> dec (enc x @ rest) = Some (x, rest)"
    and enc_nonempty: "valid x \<Longrightarrow> enc x \<noteq> []"
begin

lemma enc_front_unique:
  assumes "valid x" and "valid y" and "enc x @ r = enc y @ s"
  shows "x = y \<and> r = s"
  using dec_enc [OF assms(1), of r] dec_enc [OF assms(2), of s] unfolding assms(3) by simp

lemma decode_stream:
  "\<forall>x \<in> set xs. valid x \<Longrightarrow> decode_n dec (length xs) (concat (map enc xs) @ rest) = Some (xs, rest)"
  by (induction xs) (simp_all add: dec_enc)

text \<open>A stream determines the values written to it, and how many there were.\<close>

lemma stream_inject:
  assumes "\<forall>x \<in> set xs. valid x" and "\<forall>y \<in> set ys. valid y"
    and "concat (map enc xs) = concat (map enc ys)"
  shows "xs = ys"
  using assms
proof (induction xs arbitrary: ys)
  case Nil
  then show ?case using enc_nonempty by (cases ys) auto
next
  case (Cons x xs)
  show ?case
  proof (cases ys)
    case Nil
    then show ?thesis using Cons.prems enc_nonempty by auto
  next
    case (Cons y zs)
    with Cons.prems have "x = y \<and> concat (map enc xs) = concat (map enc zs)"
      by (intro enc_front_unique) auto
    with Cons Cons.prems Cons.IH [of zs] show ?thesis by auto
  qed
qed

end

end
