(* ===== verification/Turn_Codec.thy ===== *)
theory Turn_Codec
  imports Stun_Codec Stream_Codec
begin

text \<open>
  TURN messages, \<open>crates/probe-core/src/turn_codec.rs\<close>: the header and attribute
  builders, MESSAGE-INTEGRITY, the long-term credential key, the two Allocate requests,
  and the Allocate response parser.

  MD5 and HMAC-SHA1 come from the crates \<open>md-5\<close>, \<open>hmac\<close> and \<open>sha1\<close>; they are the two
  fields of a \<open>crypto\<close> argument.  What the code relies on is that their results have the
  fixed lengths of 16 and 20 bytes (\<open>crypto_sizes\<close>).
\<close>

section \<open>Constants\<close>

definition ALLOCATE_REQUEST :: u16 where "ALLOCATE_REQUEST = 0x0003"
definition ALLOCATE_SUCCESS :: u16 where "ALLOCATE_SUCCESS = 0x0103"
definition ALLOCATE_ERROR :: u16 where "ALLOCATE_ERROR = 0x0113"
definition CREATE_PERMISSION_REQUEST :: u16 where "CREATE_PERMISSION_REQUEST = 0x0008"
definition CREATE_PERMISSION_SUCCESS :: u16 where "CREATE_PERMISSION_SUCCESS = 0x0108"
definition CREATE_PERMISSION_ERROR :: u16 where "CREATE_PERMISSION_ERROR = 0x0118"

text \<open>\<open>17 << 24\<close>.\<close>

definition TRANSPORT_UDP :: u32 where "TRANSPORT_UDP = push_bit 24 17"

lemmas method_defs =
  ALLOCATE_REQUEST_def ALLOCATE_SUCCESS_def ALLOCATE_ERROR_def CREATE_PERMISSION_REQUEST_def
  CREATE_PERMISSION_SUCCESS_def CREATE_PERMISSION_ERROR_def

record crypto =
  md5 :: "bytes \<Rightarrow> bytes"
  hmac_sha1 :: "bytes \<Rightarrow> bytes \<Rightarrow> bytes"  \<comment> \<open>key, then message\<close>

definition crypto_sizes :: "crypto \<Rightarrow> bool" where
  "crypto_sizes c \<longleftrightarrow> (\<forall>m. length (md5 c m) = 16) \<and> (\<forall>k m. length (hmac_sha1 c k m) = 20)"

section \<open>Message building\<close>

definition stun_header :: "u16 \<Rightarrow> bytes \<Rightarrow> bytes" where
  "stun_header meth txid = to_be 2 meth @ to_be 2 (0 :: u16) @ to_be 4 MAGIC_COOKIE @ txid"

definition append_attr :: "bytes \<Rightarrow> u16 \<Rightarrow> bytes \<Rightarrow> bytes" where
  "append_attr msg ty v =
     msg @ to_be 2 ty @ to_be 2 (word_of_nat (length v) :: u16) @ v @ replicate (pad4 (length v)) 0"

text \<open>\<open>msg.len() - 20\<close> underflows, and panics, on a buffer shorter than a header.\<close>

definition set_attrs_length :: "bytes \<Rightarrow> (unit, bytes) res" where
  "set_attrs_length msg =
     (if length msg < 20 then Panic
      else copy_into msg 2 4 (to_be 2 (word_of_nat (length msg - 20) :: u16)))"

definition attach_message_integrity :: "crypto \<Rightarrow> bytes \<Rightarrow> bytes \<Rightarrow> (unit, bytes) res" where
  "attach_message_integrity c msg key =
     (if length msg < 20 then Panic
      else
        bind_res (copy_into msg 2 4 (to_be 2 (word_of_nat (length msg - 20 + 24) :: u16))) (\<lambda>msg'.
        let digest = hmac_sha1 c key msg' in
        Ok (msg' @ to_be 2 MESSAGE_INTEGRITY @ to_be 2 (20 :: u16) @ digest)))"

definition long_term_key :: "crypto \<Rightarrow> string \<Rightarrow> string \<Rightarrow> string \<Rightarrow> bytes" where
  "long_term_key c username realm password =
     md5 c (as_bytes username @ as_bytes '':'' @ as_bytes realm @ as_bytes '':'' @ as_bytes password)"

section \<open>Allocate requests\<close>

definition build_allocate_unauth :: "nat option \<Rightarrow> u64 \<Rightarrow> (unit, bytes \<times> bytes) res" where
  "build_allocate_unauth clock stack_addr =
     (let txid = new_txid clock stack_addr;
          msg = stun_header ALLOCATE_REQUEST txid;
          msg = append_attr msg REQUESTED_TRANSPORT (to_be 4 TRANSPORT_UDP)
      in bind_res (set_attrs_length msg) (\<lambda>msg. Ok (txid, msg)))"

definition build_allocate_authed ::
  "crypto \<Rightarrow> nat option \<Rightarrow> u64 \<Rightarrow> string \<Rightarrow> string \<Rightarrow> bytes \<Rightarrow> bytes \<Rightarrow> (unit, bytes \<times> bytes) res" where
  "build_allocate_authed c clock stack_addr username realm nonce key =
     (let txid = new_txid clock stack_addr;
          msg = stun_header ALLOCATE_REQUEST txid;
          msg = append_attr msg REQUESTED_TRANSPORT (to_be 4 TRANSPORT_UDP);
          msg = append_attr msg USERNAME (as_bytes username);
          msg = append_attr msg REALM (as_bytes realm);
          msg = append_attr msg NONCE nonce
      in bind_res (attach_message_integrity c msg key) (\<lambda>msg. Ok (txid, msg)))"

section \<open>Allocate response\<close>

datatype allocate_outcome =
  AllocSuccess sockaddr u32
| Unauthorized string bytes
| AllocError u16 string

datatype allocate_error =
  AE_Codec codec_error
| AE_WrongType u16
| AE_MissingAttr string

text \<open>The two \<open>for a in &attrs\<close> loops; a later attribute overwrites an earlier one.\<close>

fun alloc_success_attrs ::
  "bytes \<Rightarrow> attr list \<Rightarrow> sockaddr option \<Rightarrow> u32 \<Rightarrow> (codec_error, sockaddr option \<times> u32) res" where
  "alloc_success_attrs txid [] relayed lifetime = Ok (relayed, lifetime)"
| "alloc_success_attrs txid (a # as) relayed lifetime =
     (if attr_type a = XOR_RELAYED_ADDRESS then
        bind_res (parse_xor_address (attr_value a) txid) (\<lambda>r.
          alloc_success_attrs txid as (Some r) lifetime)
      else if attr_type a = LIFETIME \<and> length (attr_value a) \<ge> 4 then
        bind_res (u32_at (attr_value a) 0) (\<lambda>l. alloc_success_attrs txid as relayed l)
      else alloc_success_attrs txid as relayed lifetime)"

record alloc_err_state =
  es_code :: u16
  es_reason :: string
  es_realm :: "string option"
  es_nonce :: "bytes option"

fun alloc_error_attrs :: "attr list \<Rightarrow> alloc_err_state \<Rightarrow> (codec_error, alloc_err_state) res" where
  "alloc_error_attrs [] s = Ok s"
| "alloc_error_attrs (a # as) s =
     (if attr_type a = ERROR_CODE then
        bind_res (parse_error_code (attr_value a)) (\<lambda>ec.
          alloc_error_attrs as (s\<lparr>es_code := ec_code ec, es_reason := ec_reason ec\<rparr>))
      else if attr_type a = REALM then
        alloc_error_attrs as (s\<lparr>es_realm := Some (from_utf8_lossy (attr_value a))\<rparr>)
      else if attr_type a = NONCE then
        alloc_error_attrs as (s\<lparr>es_nonce := Some (attr_value a)\<rparr>)
      else alloc_error_attrs as s)"

definition alloc_err_init :: alloc_err_state where
  "alloc_err_init = \<lparr>es_code = 0, es_reason = '''', es_realm = None, es_nonce = None\<rparr>"

definition parse_allocate_response :: "bytes \<Rightarrow> bytes \<Rightarrow> (allocate_error, allocate_outcome) res" where
  "parse_allocate_response buf txid =
     bind_res (map_err AE_Codec (parse_header buf txid)) (\<lambda>h.
     bind_res (map_err AE_Codec (walk_attrs buf (attrs_len h))) (\<lambda>attrs.
     if msg_type h = ALLOCATE_SUCCESS then
       bind_res (map_err AE_Codec (alloc_success_attrs txid attrs None 0)) (\<lambda>(relayed, lifetime).
       bind_res (ok_or relayed (AE_MissingAttr ''XOR-RELAYED-ADDRESS'')) (\<lambda>r.
       Ok (AllocSuccess r lifetime)))
     else if msg_type h = ALLOCATE_ERROR then
       bind_res (map_err AE_Codec (alloc_error_attrs attrs alloc_err_init)) (\<lambda>s.
       if es_code s = 401 then
         bind_res (ok_or (es_realm s) (AE_MissingAttr ''REALM'')) (\<lambda>realm.
         bind_res (ok_or (es_nonce s) (AE_MissingAttr ''NONCE'')) (\<lambda>nonce.
         Ok (Unauthorized realm nonce)))
       else Ok (AllocError (es_code s) (es_reason s)))
     else Err (AE_WrongType (msg_type h))))"

section \<open>Lemmas: the attribute encoding\<close>

definition enc_attr :: "attr \<Rightarrow> bytes" where
  "enc_attr a = to_be 2 (attr_type a) @ to_be 2 (word_of_nat (length (attr_value a)) :: u16)
     @ attr_value a @ replicate (pad4 (length (attr_value a))) 0"

text \<open>The value fits the 16-bit length field.\<close>

definition attr_fits :: "attr \<Rightarrow> bool" where
  "attr_fits a \<longleftrightarrow> length (attr_value a) < 65536"

definition dec_attr :: "bytes \<Rightarrow> (attr \<times> bytes) option" where
  "dec_attr bs =
     (let n = unat (from_be (take 2 (drop 2 bs)) :: u16) in
      if length bs < 4 + n then None
      else Some (\<lparr>attr_type = from_be (take 2 bs), attr_value = take n (drop 4 bs)\<rparr>,
                 drop (4 + n + pad4 n) bs))"

lemma append_attr_enc: "append_attr msg ty v = msg @ enc_attr \<lparr>attr_type = ty, attr_value = v\<rparr>"
  by (simp add: append_attr_def enc_attr_def)

lemma length_enc_attr:
  "length (enc_attr a) = 4 + length (attr_value a) + pad4 (length (attr_value a))"
  by (simp add: enc_attr_def)

lemma pad4_dvd: "4 dvd n + pad4 n"
proof -
  have "n mod 4 < 4" by simp
  then consider "n mod 4 = 0" | "n mod 4 = 1" | "n mod 4 = 2" | "n mod 4 = 3" by linarith
  then have "(n mod 4 + pad4 n) mod 4 = 0" by cases (simp_all add: pad4_def)
  then show ?thesis by (simp add: mod_add_left_eq dvd_eq_mod_eq_0)
qed

lemma length_enc_attr_dvd: "4 dvd length (enc_attr a)"
  using dvd_add [OF dvd_refl pad4_dvd [of "length (attr_value a)"]]
  by (simp add: length_enc_attr add.assoc)

lemma attr_eta [simp]: "\<lparr>attr_type = attr_type a, attr_value = attr_value a\<rparr> = a"
  by (cases a) simp

lemma unat_len16: "n < 65536 \<Longrightarrow> unat (word_of_nat n :: u16) = n"
  by (simp add: unat_of_nat)

text \<open>What the two big-endian fields in front of a value read as.\<close>

lemma enc_attr_fields:
  assumes "attr_fits a" and "bs = enc_attr a @ rest"
  shows "from_be (take 2 bs) = attr_type a"
    and "unat (from_be (take 2 (drop 2 bs)) :: u16) = length (attr_value a)"
    and "take (length (attr_value a)) (drop 4 bs) = attr_value a"
    and "drop (4 + length (attr_value a) + pad4 (length (attr_value a))) bs = rest"
    and "4 + length (attr_value a) \<le> length bs"
  using assms by (simp_all add: enc_attr_def attr_fits_def unat_len16)

lemma decode_attrs_enc:
  assumes "attr_fits a"
  shows "decode_attrs (enc_attr a @ rest) = bind_res (decode_attrs rest) (\<lambda>as. Ok (a # as))"
proof -
  define bs where "bs = enc_attr a @ rest"
  show ?thesis unfolding bs_def [symmetric]
    using enc_attr_fields [OF assms bs_def]
    by (subst decode_attrs.simps) (simp add: Let_def)
qed

lemma decode_attrs_encs:
  "\<forall>a \<in> set as. attr_fits a \<Longrightarrow> decode_attrs (concat (map enc_attr as)) = Ok as"
  by (induction as) (simp_all add: decode_attrs_enc decode_attrs.simps [of "[]"])

interpretation tlv: stream_codec enc_attr dec_attr attr_fits
proof unfold_locales
  fix a rest assume a: "attr_fits a"
  define bs where "bs = enc_attr a @ rest"
  show "dec_attr (enc_attr a @ rest) = Some (a, rest)" unfolding bs_def [symmetric]
    using enc_attr_fields [OF a bs_def] by (simp add: dec_attr_def Let_def)
next
  fix a show "enc_attr a \<noteq> []" by (simp add: enc_attr_def to_be_2)
qed

section \<open>Lemmas: whole messages\<close>

text \<open>A message with its length field filled in.\<close>

definition message :: "u16 \<Rightarrow> bytes \<Rightarrow> bytes \<Rightarrow> bytes" where
  "message mt txid body =
     to_be 2 mt @ to_be 2 (word_of_nat (length body) :: u16) @ to_be 4 MAGIC_COOKIE @ txid @ body"

lemma length_message [simp]: "length txid = 12 \<Longrightarrow> length (message mt txid body) = 20 + length body"
  by (simp add: message_def)

lemma message_fields:
  assumes "length txid = 12"
  shows "take 2 (message mt txid body) = to_be 2 mt"
    and "take 2 (drop 2 (message mt txid body)) = to_be 2 (word_of_nat (length body) :: u16)"
    and "take 4 (drop 4 (message mt txid body)) = to_be 4 MAGIC_COOKIE"
    and "take 12 (drop 8 (message mt txid body)) = txid"
    and "drop 20 (message mt txid body) = body"
  using assms by (simp_all add: message_def)

lemma parse_header_message:
  assumes "length txid = 12" and "length body < 65536"
  shows "parse_header (message mt txid body) txid =
           Ok \<lparr>msg_type = mt, attrs_len = word_of_nat (length body), h_txid = txid\<rparr>"
proof -
  have "\<not> length (message mt txid body) < 20 + unat (word_of_nat (length body) :: u16)"
    using assms by (simp add: unat_len16)
  then show ?thesis
    unfolding parse_header_eq message_fields [OF assms(1)] using assms by simp
qed

lemma walk_attrs_message:
  assumes "length txid = 12" and "length body < 65536"
  shows "walk_attrs (message mt txid body) (word_of_nat (length body)) = decode_attrs body"
  using assms by (subst walk_attrs_decode) (simp_all add: message_fields unat_len16)

text \<open>Every builder starts from the header with a zero length field.\<close>

lemma stun_header_append:
  "length txid = 12 \<Longrightarrow> length (stun_header mt txid @ body) = 20 + length body"
  by (simp add: stun_header_def)

lemma copy_length_field:
  assumes "length txid = 12"
  shows "copy_into (stun_header mt txid @ body) 2 4 (to_be 2 (w :: u16)) =
           Ok (to_be 2 mt @ to_be 2 w @ to_be 4 MAGIC_COOKIE @ txid @ body)"
  using assms by (simp add: copy_into_def stun_header_def)

lemma set_attrs_length_message:
  assumes "length txid = 12"
  shows "set_attrs_length (stun_header mt txid @ body) = Ok (message mt txid body)"
  using assms
  by (simp add: set_attrs_length_def copy_length_field message_def stun_header_append del: length_append)

lemma set_attrs_length_panics_iff: "set_attrs_length msg = Panic \<longleftrightarrow> length msg < 20"
  by (simp add: set_attrs_length_def copy_into_def)

text \<open>
  MESSAGE-INTEGRITY: the digest covers the bytes before the attribute, whose length field
  already counts it, and the result is the message with the attribute appended.
\<close>

definition mi_input :: "u16 \<Rightarrow> bytes \<Rightarrow> bytes \<Rightarrow> bytes" where
  "mi_input mt txid body =
     to_be 2 mt @ to_be 2 (word_of_nat (length body + 24) :: u16) @ to_be 4 MAGIC_COOKIE @ txid @ body"

definition mi_attr :: "crypto \<Rightarrow> bytes \<Rightarrow> bytes \<Rightarrow> attr" where
  "mi_attr c key input = \<lparr>attr_type = MESSAGE_INTEGRITY, attr_value = hmac_sha1 c key input\<rparr>"

lemma attach_mi_message:
  assumes "length txid = 12" and "crypto_sizes c"
  shows "attach_message_integrity c (stun_header mt txid @ body) key =
           Ok (message mt txid (body @ enc_attr (mi_attr c key (mi_input mt txid body))))"
  using assms
  by (simp add: attach_message_integrity_def copy_length_field mi_attr_def message_def
      crypto_sizes_def enc_attr_def stun_header_append pad4_def mi_input_def add.assoc del: length_append)
    (simp add: mi_input_def)

section \<open>Lemmas: Allocate requests\<close>

definition transport_attr :: attr where
  "transport_attr = \<lparr>attr_type = REQUESTED_TRANSPORT, attr_value = to_be 4 TRANSPORT_UDP\<rparr>"

definition auth_attrs :: "string \<Rightarrow> string \<Rightarrow> bytes \<Rightarrow> attr list" where
  "auth_attrs username realm nonce =
     [\<lparr>attr_type = USERNAME, attr_value = as_bytes username\<rparr>,
      \<lparr>attr_type = REALM, attr_value = as_bytes realm\<rparr>,
      \<lparr>attr_type = NONCE, attr_value = nonce\<rparr>]"

lemma build_allocate_unauth_message:
  "build_allocate_unauth t s =
     Ok (new_txid t s, message ALLOCATE_REQUEST (new_txid t s) (enc_attr transport_attr))"
  by (simp add: build_allocate_unauth_def append_attr_enc set_attrs_length_message transport_attr_def Let_def)

lemma build_allocate_authed_message:
  assumes "crypto_sizes c"
  shows "build_allocate_authed c t s u r n key =
     (let txid = new_txid t s; body = concat (map enc_attr (transport_attr # auth_attrs u r n))
      in Ok (txid, message ALLOCATE_REQUEST txid
           (body @ enc_attr (mi_attr c key (mi_input ALLOCATE_REQUEST txid body)))))"
  using assms
  by (simp add: build_allocate_authed_def append_attr_enc attach_mi_message transport_attr_def
      auth_attrs_def Let_def)

lemma pad4_le: "pad4 n \<le> 3"
proof -
  have "(4 - n mod 4) mod 4 < 4" by (rule mod_less_divisor) simp
  then show ?thesis by (simp add: pad4_def)
qed

lemma mi_attr_fits [simp]: "crypto_sizes c \<Longrightarrow> attr_fits (mi_attr c k m)"
  by (simp add: attr_fits_def mi_attr_def crypto_sizes_def)

lemma length_mi_attr: "crypto_sizes c \<Longrightarrow> length (enc_attr (mi_attr c k m)) = 24"
  by (simp add: length_enc_attr mi_attr_def crypto_sizes_def pad4_def)

lemma length_transport_attr: "length (enc_attr transport_attr) = 8"
  by (simp add: length_enc_attr transport_attr_def pad4_def)

text \<open>A message whose last attribute is MESSAGE-INTEGRITY, as the receiver checks it.\<close>

lemma message_mi_prefix:
  assumes "length txid = 12" and "length v = 20"
  shows "take (length (message mt txid (body @ enc_attr \<lparr>attr_type = ty, attr_value = v\<rparr>)) - 24)
           (message mt txid (body @ enc_attr \<lparr>attr_type = ty, attr_value = v\<rparr>))
         = mi_input mt txid body"
  using assms by (simp add: message_def mi_input_def length_enc_attr pad4_def)

text \<open>A message that ends in its MESSAGE-INTEGRITY, and how a receiver reads it.\<close>

definition mi_message :: "crypto \<Rightarrow> u16 \<Rightarrow> bytes \<Rightarrow> bytes \<Rightarrow> bytes \<Rightarrow> bytes" where
  "mi_message c mt txid body key = message mt txid (body @ enc_attr (mi_attr c key (mi_input mt txid body)))"

lemma mi_message_received:
  assumes "length txid = 12" and "crypto_sizes c" and "\<forall>a \<in> set as. attr_fits a"
    and "length (concat (map enc_attr as)) + 24 < 65536"
    and "msg = mi_message c mt txid (concat (map enc_attr as)) key"
  shows "\<exists>h. parse_header msg txid = Ok h \<and> msg_type h = mt \<and>
           walk_attrs msg (attrs_len h) =
             Ok (as @ [\<lparr>attr_type = MESSAGE_INTEGRITY, attr_value = hmac_sha1 c key (take (length msg - 24) msg)\<rparr>])"
proof -
  define mi where "mi = mi_attr c key (mi_input mt txid (concat (map enc_attr as)))"
  let ?as = "as @ [mi]"
  have bound: "length (concat (map enc_attr ?as)) < 65536"
    using assms(4) length_mi_attr [OF assms(2)] by (simp add: mi_def)
  have fits: "\<forall>a \<in> set ?as. attr_fits a" using assms(2,3) by (auto simp: mi_def)
  have m: "msg = message mt txid (concat (map enc_attr ?as))"
    by (simp add: assms(5) mi_message_def mi_def)
  have len20: "length (hmac_sha1 c key (mi_input mt txid (concat (map enc_attr as)))) = 20"
    using assms(2) by (simp add: crypto_sizes_def)
  have "take (length msg - 24) msg = mi_input mt txid (concat (map enc_attr as))"
    unfolding assms(5) mi_message_def mi_attr_def by (rule message_mi_prefix [OF assms(1) len20])
  then have mi: "mi = \<lparr>attr_type = MESSAGE_INTEGRITY, attr_value = hmac_sha1 c key (take (length msg - 24) msg)\<rparr>"
    by (simp add: mi_def mi_attr_def)
  show ?thesis
    unfolding mi [symmetric]
    by (intro exI conjI, unfold m, rule parse_header_message [OF assms(1) bound])
      (simp_all only: header.simps walk_attrs_message [OF assms(1) bound] decode_attrs_encs [OF fits])
qed

section \<open>Lemmas: Allocate response\<close>

lemma alloc_success_attrs_no_panic: "alloc_success_attrs txid as r l \<noteq> Panic"
  by (induction txid as r l rule: alloc_success_attrs.induct)
    (auto simp: res_simps parse_xor_address_no_panic u32_at_ok)

lemma alloc_error_attrs_no_panic: "alloc_error_attrs as s \<noteq> Panic"
  by (induction as s rule: alloc_error_attrs.induct)
    (auto simp: res_simps parse_error_code_no_panic)

lemma parse_allocate_response_no_panic: "parse_allocate_response buf txid \<noteq> Panic"
  unfolding parse_allocate_response_def
  by (auto simp: res_simps parse_header_no_panic walk_attrs_no_panic alloc_success_attrs_no_panic
      alloc_error_attrs_no_panic split: if_splits prod.splits)

text \<open>A response message with fitting attributes reaches the attribute loops unchanged.\<close>

lemma parse_allocate_response_message:
  assumes "length txid = 12" and "\<forall>a \<in> set as. attr_fits a"
    and "length (concat (map enc_attr as)) < 65536"
  shows "parse_allocate_response (message mt txid (concat (map enc_attr as))) txid =
     (if mt = ALLOCATE_SUCCESS then
        bind_res (map_err AE_Codec (alloc_success_attrs txid as None 0)) (\<lambda>(relayed, lifetime).
        bind_res (ok_or relayed (AE_MissingAttr ''XOR-RELAYED-ADDRESS'')) (\<lambda>r.
        Ok (AllocSuccess r lifetime)))
      else if mt = ALLOCATE_ERROR then
        bind_res (map_err AE_Codec (alloc_error_attrs as alloc_err_init)) (\<lambda>s.
        if es_code s = 401 then
          bind_res (ok_or (es_realm s) (AE_MissingAttr ''REALM'')) (\<lambda>realm.
          bind_res (ok_or (es_nonce s) (AE_MissingAttr ''NONCE'')) (\<lambda>nonce.
          Ok (Unauthorized realm nonce)))
        else Ok (AllocError (es_code s) (es_reason s)))
      else Err (AE_WrongType mt))"
  using assms
  by (simp add: parse_allocate_response_def parse_header_message walk_attrs_message decode_attrs_encs)

text \<open>The attribute loops keep the last value of each kind.\<close>

definition relayed_values :: "attr list \<Rightarrow> bytes list" where
  "relayed_values as = map attr_value (filter (\<lambda>a. attr_type a = XOR_RELAYED_ADDRESS) as)"

definition lifetime_values :: "attr list \<Rightarrow> bytes list" where
  "lifetime_values as =
     map attr_value (filter (\<lambda>a. attr_type a = LIFETIME \<and> 4 \<le> length (attr_value a)) as)"

definition last_or :: "'a \<Rightarrow> 'a list \<Rightarrow> 'a" where
  "last_or d xs = (if xs = [] then d else last xs)"

lemma last_or_simps [simp]: "last_or d [] = d" "last_or d (x # xs) = last_or x xs"
  by (simp_all add: last_or_def)

lemma alloc_success_attrs_spec:
  "alloc_success_attrs txid as r l = Ok (r', l') \<longleftrightarrow>
     (\<exists>addrs. map (\<lambda>v. parse_xor_address v txid) (relayed_values as) = map Ok addrs
        \<and> r' = last_or r (map Some addrs))
     \<and> l' = last_or l (map (\<lambda>v. from_be (take 4 v)) (lifetime_values as))"
proof (induction txid as r l rule: alloc_success_attrs.induct)
  case (1 txid r l)
  then show ?case by (auto simp: relayed_values_def lifetime_values_def)
next
  case (2 txid a as r l)
  have ne: "XOR_RELAYED_ADDRESS \<noteq> LIFETIME" by (simp add: attr_defs)
  consider "attr_type a = XOR_RELAYED_ADDRESS"
    | "attr_type a = LIFETIME" "4 \<le> length (attr_value a)"
    | "attr_type a \<noteq> XOR_RELAYED_ADDRESS" "\<not> (attr_type a = LIFETIME \<and> 4 \<le> length (attr_value a))"
    by blast
  then show ?case
  proof cases
    case 1
    then show ?thesis using "2.IH"(1) ne
      by (cases "parse_xor_address (attr_value a) txid")
        (auto simp: relayed_values_def lifetime_values_def Cons_eq_map_conv map_eq_Cons_conv)
  next
    case 2
    then show ?thesis using "2.IH"(2) ne
      by (auto simp: relayed_values_def lifetime_values_def u32_at_ok)
  next
    case 3
    then show ?thesis using "2.IH"(3) by (auto simp: relayed_values_def lifetime_values_def)
  qed
qed


definition values_of :: "u16 \<Rightarrow> attr list \<Rightarrow> bytes list" where
  "values_of ty as = map attr_value (filter (\<lambda>a. attr_type a = ty) as)"

lemma alloc_error_attrs_spec:
  "alloc_error_attrs as s = Ok s' \<longleftrightarrow>
     (\<exists>ecs. map parse_error_code (values_of ERROR_CODE as) = map Ok ecs
        \<and> s' = \<lparr>es_code = last_or (es_code s) (map ec_code ecs),
               es_reason = last_or (es_reason s) (map ec_reason ecs),
               es_realm = last_or (es_realm s) (map (\<lambda>v. Some (from_utf8_lossy v)) (values_of REALM as)),
               es_nonce = last_or (es_nonce s) (map Some (values_of NONCE as))\<rparr>)"
proof (induction as s rule: alloc_error_attrs.induct)
  case (1 s)
  then show ?case by (auto simp: values_of_def)
next
  case (2 a as s)
  have ne: "ERROR_CODE \<noteq> REALM" "ERROR_CODE \<noteq> NONCE" "REALM \<noteq> NONCE" by (simp_all add: attr_defs)
  consider "attr_type a = ERROR_CODE" | "attr_type a = REALM" | "attr_type a = NONCE"
    | "attr_type a \<noteq> ERROR_CODE" "attr_type a \<noteq> REALM" "attr_type a \<noteq> NONCE"
    by blast
  then show ?case
  proof cases
    case 1
    then show ?thesis using "2.IH"(1) ne
      by (cases "parse_error_code (attr_value a)") (auto simp: values_of_def map_eq_Cons_conv Cons_eq_map_conv)
  next
    case 2
    then show ?thesis using "2.IH"(2) ne by (simp add: values_of_def)
  next
    case 3
    then show ?thesis using "2.IH"(3) ne by (simp add: values_of_def)
  next
    case 4
    then show ?thesis using "2.IH"(4) by (simp add: values_of_def)
  qed
qed

text \<open>The attributes a server sends with a challenge, and with a grant.\<close>

definition challenge_attrs :: "bytes \<Rightarrow> bytes \<Rightarrow> bytes \<Rightarrow> attr list" where
  "challenge_attrs reason realm nonce =
     [\<lparr>attr_type = ERROR_CODE, attr_value = [0, 0, 4, 1] @ reason\<rparr>,
      \<lparr>attr_type = REALM, attr_value = realm\<rparr>,
      \<lparr>attr_type = NONCE, attr_value = nonce\<rparr>]"

definition grant_attrs :: "sockaddr \<Rightarrow> u32 \<Rightarrow> bytes \<Rightarrow> attr list" where
  "grant_attrs relayed lifetime txid =
     [\<lparr>attr_type = XOR_RELAYED_ADDRESS, attr_value = build_xor_address relayed txid\<rparr>,
      \<lparr>attr_type = LIFETIME, attr_value = to_be 4 lifetime\<rparr>]"

lemma alloc_error_attrs_challenge:
  "alloc_error_attrs (challenge_attrs reason realm nonce) s =
     Ok \<lparr>es_code = 401, es_reason = from_utf8_lossy reason,
        es_realm = Some (from_utf8_lossy realm), es_nonce = Some nonce\<rparr>"
proof -
  have "parse_error_code ([0, 0, 4, 1] @ reason) =
          Ok \<lparr>ec_code = 401, ec_reason = from_utf8_lossy reason\<rparr>"
    by (subst parse_error_code_ok) simp_all
  then show ?thesis by (simp add: challenge_attrs_def attr_defs)
qed

lemma alloc_success_attrs_grant:
  "length txid = 12 \<Longrightarrow>
   alloc_success_attrs txid (grant_attrs relayed lifetime txid) r l =
     Ok (Some (sock_norm relayed), lifetime)"
  by (simp add: grant_attrs_def attr_defs xor_address_roundtrip u32_at_ok)

lemma pad4_mult: "pad4 4 = 0" "pad4 20 = 0"
  by (simp_all add: pad4_def)

text \<open>What a receiver reads from the authenticated request.\<close>

lemma build_allocate_authed_received:
  assumes "crypto_sizes c" and "length u + length r + length n \<le> 65482"
    and "build_allocate_authed c t s u r n key = Ok (txid, msg)"
  shows "\<exists>h. parse_header msg txid = Ok h \<and> msg_type h = ALLOCATE_REQUEST \<and>
           walk_attrs msg (attrs_len h) =
             Ok (transport_attr # auth_attrs u r n @
                 [\<lparr>attr_type = MESSAGE_INTEGRITY,
                   attr_value = hmac_sha1 c key (take (length msg - 24) msg)\<rparr>])"
proof -
  let ?as = "transport_attr # auth_attrs u r n"
  have txid: "length txid = 12" and msg: "msg = mi_message c ALLOCATE_REQUEST txid (concat (map enc_attr ?as)) key"
    using assms(3) by (auto simp: build_allocate_authed_message [OF assms(1)] Let_def mi_message_def)
  have "pad4 (length u) + (pad4 (length r) + pad4 (length n)) \<le> 9"
    using pad4_le [of "length u"] pad4_le [of "length r"] pad4_le [of "length n"] by linarith
  then have bound: "length (concat (map enc_attr ?as)) + 24 < 65536"
    using assms(2) pad4_mult by (simp add: auth_attrs_def length_enc_attr transport_attr_def)
  have fits: "\<forall>a \<in> set ?as. attr_fits a"
    using assms(2) by (auto simp: auth_attrs_def attr_fits_def transport_attr_def)
  from mi_message_received [OF txid assms(1) fits bound msg] show ?thesis by simp
qed

text \<open>What the client reads from a challenge and from a grant.\<close>

lemma parse_challenge:
  assumes "length txid = 12" and "length (concat (map enc_attr (challenge_attrs reason realm nonce))) < 65536"
    and "\<forall>b \<in> set realm. b < 0x80"
  shows "parse_allocate_response
           (message ALLOCATE_ERROR txid (concat (map enc_attr (challenge_attrs reason realm nonce)))) txid
         = Ok (Unauthorized (str_of realm) nonce)"
proof -
  have fits: "\<forall>a \<in> set (challenge_attrs reason realm nonce). attr_fits a"
    using assms(2) by (auto simp: challenge_attrs_def attr_fits_def length_enc_attr)
  show ?thesis
    unfolding parse_allocate_response_message [OF assms(1) fits assms(2)]
    using assms(3)
    by (simp add: alloc_error_attrs_challenge method_defs from_utf8_lossy_def utf8_lossy_ascii)
qed

lemma parse_grant:
  assumes "length txid = 12"
  shows "parse_allocate_response
           (message ALLOCATE_SUCCESS txid (concat (map enc_attr (grant_attrs relayed lifetime txid)))) txid
         = Ok (AllocSuccess (sock_norm relayed) lifetime)"
proof -
  have len: "length (build_xor_address relayed txid) \<le> 20"
    using length_build_xor_address [OF assms, of relayed] by (simp split: ipaddr.splits)
  then have "length (concat (map enc_attr (grant_attrs relayed lifetime txid))) < 65536"
    using pad4_le [of "length (build_xor_address relayed txid)"]
    by (simp add: grant_attrs_def length_enc_attr pad4_mult)
  moreover have "\<forall>a \<in> set (grant_attrs relayed lifetime txid). attr_fits a"
    using len by (simp add: grant_attrs_def attr_fits_def)
  ultimately show ?thesis
    using assms by (simp add: parse_allocate_response_message alloc_success_attrs_grant)
qed

section \<open>Properties\<close>

text \<open>C11: Any list of attributes whose values fit the 16-bit length field, and which
  together fit the header's length field, appended one by one with \<open>append_attr\<close> to a
  fresh header and finished with \<open>set_attrs_length\<close>, is read back unchanged by
  \<open>parse_header\<close> and \<open>walk_attrs\<close>.\<close>

theorem message_roundtrip:
  assumes "length txid = 12" and "\<forall>a \<in> set as. attr_fits a"
    and "length (concat (map enc_attr as)) < 65536"
  shows "\<exists>msg h. set_attrs_length
             (foldl (\<lambda>m a. append_attr m (attr_type a) (attr_value a)) (stun_header mt txid) as) = Ok msg
           \<and> parse_header msg txid = Ok h \<and> msg_type h = mt
           \<and> walk_attrs msg (attrs_len h) = Ok as"
proof -
  have fold: "foldl (\<lambda>m a. append_attr m (attr_type a) (attr_value a)) m as = m @ concat (map enc_attr as)"
    for m by (induction as arbitrary: m) (simp_all add: append_attr_enc)
  show ?thesis
    using assms
    by (simp add: fold set_attrs_length_message parse_header_message walk_attrs_message decode_attrs_encs)
qed

theorem message_roundtrip_witness:
  "\<exists>msg h. set_attrs_length (foldl (\<lambda>m a. append_attr m (attr_type a) (attr_value a))
              (stun_header 0x0101 (replicate 12 7))
              [\<lparr>attr_type = REALM, attr_value = [1, 2, 3]\<rparr>, \<lparr>attr_type = NONCE, attr_value = []\<rparr>]) = Ok msg
           \<and> parse_header msg (replicate 12 7) = Ok h \<and> msg_type h = 0x0101
           \<and> walk_attrs msg (attrs_len h) =
               Ok [\<lparr>attr_type = REALM, attr_value = [1, 2, 3]\<rparr>, \<lparr>attr_type = NONCE, attr_value = []\<rparr>]"
  by (rule message_roundtrip) (simp_all add: attr_fits_def length_enc_attr pad4_def)

text \<open>C6: The long-term credential exchange.  A 401 challenge carrying an ASCII realm and a
  nonce is parsed to exactly that realm and nonce, and the request the client then builds
  is read back by a receiver as REQUESTED-TRANSPORT, USERNAME, the same REALM and NONCE,
  and a last attribute MESSAGE-INTEGRITY equal to the HMAC, under the client's key, of all
  bytes that precede it.  The credentials may be as long as the length field allows.\<close>

theorem allocate_auth_dance:
  assumes "crypto_sizes c" and "length txid1 = 12"
    and "length (concat (map enc_attr (challenge_attrs reason realm nonce))) < 65536"
    and "\<forall>b \<in> set realm. b < 0x80"
    and "length user + length realm + length nonce \<le> 65482"
  shows "parse_allocate_response
           (message ALLOCATE_ERROR txid1 (concat (map enc_attr (challenge_attrs reason realm nonce)))) txid1
         = Ok (Unauthorized (str_of realm) nonce)
       \<and> (\<exists>txid msg h.
            build_allocate_authed c t s user (str_of realm) nonce
              (long_term_key c user (str_of realm) pass) = Ok (txid, msg)
            \<and> parse_header msg txid = Ok h \<and> msg_type h = ALLOCATE_REQUEST
            \<and> walk_attrs msg (attrs_len h) =
                Ok [\<lparr>attr_type = REQUESTED_TRANSPORT, attr_value = to_be 4 TRANSPORT_UDP\<rparr>,
                    \<lparr>attr_type = USERNAME, attr_value = as_bytes user\<rparr>,
                    \<lparr>attr_type = REALM, attr_value = realm\<rparr>,
                    \<lparr>attr_type = NONCE, attr_value = nonce\<rparr>,
                    \<lparr>attr_type = MESSAGE_INTEGRITY,
                     attr_value = hmac_sha1 c (long_term_key c user (str_of realm) pass)
                       (take (length msg - 24) msg)\<rparr>])"
proof
  show "parse_allocate_response
          (message ALLOCATE_ERROR txid1 (concat (map enc_attr (challenge_attrs reason realm nonce)))) txid1
        = Ok (Unauthorized (str_of realm) nonce)"
    by (rule parse_challenge [OF assms(2,3,4)])
next
  let ?key = "long_term_key c user (str_of realm) pass"
  obtain txid msg where m: "build_allocate_authed c t s user (str_of realm) nonce ?key = Ok (txid, msg)"
    by (simp add: build_allocate_authed_message [OF assms(1)] Let_def)
  have "length user + length (str_of realm) + length nonce \<le> 65482" using assms(5) by simp
  from build_allocate_authed_received [OF assms(1) this m]
  obtain h where h: "parse_header msg txid = Ok h" "msg_type h = ALLOCATE_REQUEST"
    and w: "walk_attrs msg (attrs_len h) =
             Ok (transport_attr # auth_attrs user (str_of realm) nonce @
                 [\<lparr>attr_type = MESSAGE_INTEGRITY,
                   attr_value = hmac_sha1 c ?key (take (length msg - 24) msg)\<rparr>])"
    by blast
  show "\<exists>txid msg h.
            build_allocate_authed c t s user (str_of realm) nonce ?key = Ok (txid, msg)
            \<and> parse_header msg txid = Ok h \<and> msg_type h = ALLOCATE_REQUEST
            \<and> walk_attrs msg (attrs_len h) =
                Ok [\<lparr>attr_type = REQUESTED_TRANSPORT, attr_value = to_be 4 TRANSPORT_UDP\<rparr>,
                    \<lparr>attr_type = USERNAME, attr_value = as_bytes user\<rparr>,
                    \<lparr>attr_type = REALM, attr_value = realm\<rparr>,
                    \<lparr>attr_type = NONCE, attr_value = nonce\<rparr>,
                    \<lparr>attr_type = MESSAGE_INTEGRITY,
                     attr_value = hmac_sha1 c ?key (take (length msg - 24) msg)\<rparr>]"
    using m h w by - (rule exI [of _ txid], rule exI [of _ msg], rule exI [of _ h],
        simp add: transport_attr_def auth_attrs_def)
qed

text \<open>A concrete pair of functions with the right result lengths, for the witnesses.\<close>

definition zero_crypto :: crypto where
  "zero_crypto = \<lparr>md5 = (\<lambda>_. replicate 16 0), hmac_sha1 = (\<lambda>_ _. replicate 20 0)\<rparr>"

lemma zero_crypto_sizes [simp]: "crypto_sizes zero_crypto"
  by (simp add: crypto_sizes_def zero_crypto_def)

theorem allocate_auth_dance_witness:
  "parse_allocate_response
     (message ALLOCATE_ERROR (replicate 12 7) (concat (map enc_attr (challenge_attrs [] [101] [110])))) (replicate 12 7)
   = Ok (Unauthorized (str_of [101]) [110])"
  by (rule allocate_auth_dance [of zero_crypto "replicate 12 7" "[]" "[101]" "[110]" "''u''" None 0 "''p''",
        THEN conjunct1])
    (simp_all add: challenge_attrs_def length_enc_attr pad4_def)

text \<open>A success response that carries the relayed address in XOR form and a lifetime is
  parsed to exactly that address and lifetime, for IPv4 and IPv6.\<close>

theorem allocate_success_roundtrip:
  assumes "length txid = 12"
  shows "parse_allocate_response
           (message ALLOCATE_SUCCESS txid (concat (map enc_attr (grant_attrs relayed lifetime txid)))) txid
         = Ok (AllocSuccess (sock_new (sock_ip relayed) (sock_port relayed)) lifetime)"
  using parse_grant [OF assms] by (simp add: sock_norm_def)

theorem allocate_success_roundtrip_witness:
  "parse_allocate_response (message ALLOCATE_SUCCESS (replicate 12 9)
      (concat (map enc_attr (grant_attrs (SockV4 0xCB007102 49152) 600 (replicate 12 9))))) (replicate 12 9)
   = Ok (AllocSuccess (SockV4 0xCB007102 49152) 600)"
  using allocate_success_roundtrip [of "replicate 12 9" "SockV4 0xCB007102 49152" 600] by simp

text \<open>C29: What an Allocate error response means: with every ERROR-CODE attribute readable, the
  last one counts; the outcome is \<open>Unauthorized\<close> exactly for code 401 with both a REALM and
  a NONCE (the last of each), a missing-attribute error for code 401 without them, and
  \<open>Error\<close> with code and reason for any other code.\<close>

theorem allocate_error_outcome:
  assumes "length txid = 12" and "\<forall>a \<in> set as. attr_fits a"
    and "length (concat (map enc_attr as)) < 65536"
    and "map parse_error_code (values_of ERROR_CODE as) = map Ok ecs"
  shows "parse_allocate_response (message ALLOCATE_ERROR txid (concat (map enc_attr as))) txid =
     (if last_or 0 (map ec_code ecs) = 401 then
        (if values_of REALM as = [] then Err (AE_MissingAttr ''REALM'')
         else if values_of NONCE as = [] then Err (AE_MissingAttr ''NONCE'')
         else Ok (Unauthorized (from_utf8_lossy (last (values_of REALM as))) (last (values_of NONCE as))))
      else Ok (AllocError (last_or 0 (map ec_code ecs)) (last_or '''' (map ec_reason ecs))))"
proof -
  define s where "s = \<lparr>es_code = last_or 0 (map ec_code ecs), es_reason = last_or '''' (map ec_reason ecs),
      es_realm = last_or None (map (\<lambda>v. Some (from_utf8_lossy v)) (values_of REALM as)),
      es_nonce = last_or None (map Some (values_of NONCE as))\<rparr>"
  have loop: "alloc_error_attrs as alloc_err_init = Ok s"
    using assms(4) by (auto simp: alloc_error_attrs_spec alloc_err_init_def s_def)
  show ?thesis
    unfolding parse_allocate_response_message [OF assms(1-3)] loop
    by (simp add: s_def method_defs last_or_def last_map)
qed

theorem allocate_error_outcome_witness:
  "parse_allocate_response (message ALLOCATE_ERROR (replicate 12 0)
     (concat (map enc_attr [\<lparr>attr_type = ERROR_CODE, attr_value = [0, 0, 4, 3]\<rparr>]))) (replicate 12 0)
   = Ok (AllocError 403 '''')"
proof -
  have v: "values_of ERROR_CODE [\<lparr>attr_type = ERROR_CODE, attr_value = [0, 0, 4, 3]\<rparr>] = [[0, 0, 4, 3]]"
    by (simp add: values_of_def)
  have p: "parse_error_code [0, 0, 4, 3] = Ok \<lparr>ec_code = 403, ec_reason = ''''\<rparr>"
    by (subst parse_error_code_ok) (simp_all add: from_utf8_lossy_def str_of_def)
  show ?thesis
    using allocate_error_outcome [of "replicate 12 0" "[\<lparr>attr_type = ERROR_CODE, attr_value = [0, 0, 4, 3]\<rparr>]"
        "[\<lparr>ec_code = 403, ec_reason = ''''\<rparr>]"]
    by (simp add: v p attr_fits_def length_enc_attr pad4_def)
qed

text \<open>What an Allocate success response means: it is accepted exactly when every
  XOR-RELAYED-ADDRESS in it is readable and there is at least one; the last one is the
  relayed address, and the lifetime is the last LIFETIME of at least four bytes, or 0.\<close>

theorem allocate_success_outcome:
  assumes "length txid = 12" and "\<forall>a \<in> set as. attr_fits a"
    and "length (concat (map enc_attr as)) < 65536"
  shows "parse_allocate_response (message ALLOCATE_SUCCESS txid (concat (map enc_attr as))) txid =
           Ok (AllocSuccess r l) \<longleftrightarrow>
         (\<exists>addrs. map (\<lambda>v. parse_xor_address v txid) (relayed_values as) = map Ok addrs
            \<and> addrs \<noteq> [] \<and> r = last addrs)
         \<and> l = last_or 0 (map (\<lambda>v. from_be (take 4 v)) (lifetime_values as))"
proof -
  have "parse_allocate_response (message ALLOCATE_SUCCESS txid (concat (map enc_attr as))) txid =
          Ok (AllocSuccess r l) \<longleftrightarrow> alloc_success_attrs txid as None 0 = Ok (Some r, l)"
    unfolding parse_allocate_response_message [OF assms]
    by (auto simp: res_simps split: prod.splits)
  also have "\<dots> \<longleftrightarrow> (\<exists>addrs. map (\<lambda>v. parse_xor_address v txid) (relayed_values as) = map Ok addrs
            \<and> Some r = last_or None (map Some addrs))
         \<and> l = last_or 0 (map (\<lambda>v. from_be (take 4 v)) (lifetime_values as))"
    by (simp add: alloc_success_attrs_spec)
  finally show ?thesis by (auto simp: last_or_def last_map)
qed

theorem allocate_success_outcome_witness:
  "parse_allocate_response (message ALLOCATE_SUCCESS (replicate 12 0) (concat (map enc_attr []))) (replicate 12 0)
   \<noteq> Ok (AllocSuccess (SockV4 0 0) 0)"
  using allocate_success_outcome [of "replicate 12 0" "[]" "SockV4 0 0" 0] by (simp add: relayed_values_def)

text \<open>The length field of an attribute is the value's length modulo 65536, so a value of
  65536 bytes or more is declared shorter than it is.\<close>

theorem append_attr_length_wraps:
  assumes "length msg = 20"
  shows "unat (from_be (take 2 (drop 22 (append_attr msg ty v))) :: u16) = length v mod 65536"
  using assms by (simp add: append_attr_def unat_of_nat)

theorem append_attr_length_wraps_witness:
  "unat (from_be (take 2 (drop 22 (append_attr (replicate 20 0) USERNAME (replicate 65540 0)))) :: u16) = 4"
  using append_attr_length_wraps [of "replicate 20 0" USERNAME "replicate 65540 0"] by simp

end
