(* ===== verification/Probe_Result.thy ===== *)
theory Probe_Result
  imports Prelude
begin

text \<open>
  Outcomes of checks, \<open>crates/probe-core/src/result.rs\<close>.  The optional detail is a
  \<open>serde_json::Value\<close>, a value of the usual JSON shape; the checks only build it.
\<close>

datatype check_status = Pass | Warn | Fail | Skip

definition is_failure :: "check_status \<Rightarrow> bool" where
  "is_failure s \<longleftrightarrow> s = Fail"

text \<open>Numbers in a detail are unsigned integers, or a quotient (see \<open>Turn_Echo\<close>).\<close>

datatype json =
  JNull
| JBool bool
| JNum nat
| JRatio nat nat
| JStr string
| JArr "json list"
| JObj "(string \<times> json) list"

record check_result =
  r_id :: string
  r_name :: string
  r_status :: check_status
  r_latency_ms :: u64
  r_summary :: string
  r_detail :: "json option"

definition pass_result :: "string \<Rightarrow> string \<Rightarrow> u64 \<Rightarrow> string \<Rightarrow> check_result" where
  "pass_result i n ms s =
     \<lparr>r_id = i, r_name = n, r_status = Pass, r_latency_ms = ms, r_summary = s, r_detail = None\<rparr>"

definition fail_result :: "string \<Rightarrow> string \<Rightarrow> u64 \<Rightarrow> string \<Rightarrow> check_result" where
  "fail_result i n ms s =
     \<lparr>r_id = i, r_name = n, r_status = Fail, r_latency_ms = ms, r_summary = s, r_detail = None\<rparr>"

definition warn_result :: "string \<Rightarrow> string \<Rightarrow> u64 \<Rightarrow> string \<Rightarrow> check_result" where
  "warn_result i n ms s =
     \<lparr>r_id = i, r_name = n, r_status = Warn, r_latency_ms = ms, r_summary = s, r_detail = None\<rparr>"

definition skip_result :: "string \<Rightarrow> string \<Rightarrow> string \<Rightarrow> check_result" where
  "skip_result i n s =
     \<lparr>r_id = i, r_name = n, r_status = Skip, r_latency_ms = 0, r_summary = s, r_detail = None\<rparr>"

definition with_detail :: "check_result \<Rightarrow> json \<Rightarrow> check_result" where
  "with_detail r d = r\<lparr>r_detail := Some d\<rparr>"

lemma result_sel [simp]:
  "r_status (pass_result i n ms s) = Pass" "r_status (fail_result i n ms s) = Fail"
  "r_status (warn_result i n ms s) = Warn" "r_status (skip_result i n s) = Skip"
  "r_id (pass_result i n ms s) = i" "r_id (fail_result i n ms s) = i"
  "r_id (warn_result i n ms s) = i" "r_id (skip_result i n s) = i"
  "r_name (pass_result i n ms s) = n" "r_name (fail_result i n ms s) = n"
  "r_name (warn_result i n ms s) = n" "r_name (skip_result i n s) = n"
  by (simp_all add: pass_result_def fail_result_def warn_result_def skip_result_def)

lemma with_detail_sel [simp]:
  "r_status (with_detail r d) = r_status r" "r_id (with_detail r d) = r_id r"
  "r_name (with_detail r d) = r_name r" "r_detail (with_detail r d) = Some d"
  "r_summary (with_detail r d) = r_summary r" "r_latency_ms (with_detail r d) = r_latency_ms r"
  by (simp_all add: with_detail_def)

lemma result_summary [simp]:
  "r_summary (pass_result i n ms s) = s" "r_summary (fail_result i n ms s) = s"
  "r_summary (warn_result i n ms s) = s" "r_summary (skip_result i n s) = s"
  by (simp_all add: pass_result_def fail_result_def warn_result_def skip_result_def)

end
