(* ===== verification/Probe_Ctx.thy ===== *)
theory Probe_Ctx
  imports Net_Addr Probe_Result
begin

text \<open>
  The context shared by the checks, \<open>crates/probe-core/src/check.rs\<close>, and the outside
  world the checks talk to.

  The world is a record of everything a check can observe, handed from call to call: the
  clock and how far it moves before each reading, the seeds of transaction ids, the
  outcome of each socket call, and for every socket the datagrams that will arrive on it
  with their arrival times; for connections, how long they take and how they end, the outcomes
  of writes and the bytes that will arrive.  All of it is arbitrary, so a theorem about every world is a
  theorem about every server, network and scheduler.  What a check does to the world is
  appended to \<open>w_log\<close>.  Times are nanoseconds.
\<close>

section \<open>The context\<close>

record turn_session =
  ts_socket :: nat
  ts_server :: sockaddr
  ts_relayed :: sockaddr
  ts_realm :: string
  ts_nonce :: bytes
  ts_key :: bytes
  ts_username :: string

record probe_ctx =
  default_timeout :: nat
  ctx_host :: "string option"
  ctx_port :: "u16 option"
  resolved_ips :: "ipaddr list"
  turn_user :: "string option"
  turn_pass :: "string option"
  echo_count :: u32
  ctx_session :: "turn_session option"
  scratch :: "string \<rightharpoonup> string"

abbreviation secs :: "nat \<Rightarrow> nat" where "secs n \<equiv> n * 1000000000"
abbreviation millis :: "nat \<Rightarrow> nat" where "millis n \<equiv> n * 1000000"

definition ctx_new :: probe_ctx where
  "ctx_new =
     \<lparr>default_timeout = secs 5, ctx_host = None, ctx_port = None, resolved_ips = [],
      turn_user = None, turn_pass = None, echo_count = 10, ctx_session = None,
      scratch = Map.empty\<rparr>"

section \<open>The world\<close>

type_synonym io_error = string

datatype effect =
  Bound nat sockaddr
| Sent nat bytes sockaddr
| Slept nat
| Dialed sockaddr
| Secured string
| Wrote bytes
| Upgraded string "string option"
| Shook sockaddr

record world =
  w_now :: nat
  w_ticks :: "nat list"
  w_seeds :: "(nat option \<times> u64) list"
  w_binds :: "io_error option list"
  w_sends :: "io_error option list"
  w_inbox :: "nat \<Rightarrow> (nat \<times> (io_error + bytes \<times> sockaddr)) list"
  w_socks :: nat
  w_lookup :: "string \<Rightarrow> nat \<times> (io_error + sockaddr list)"
  w_ifaddrs :: "io_error + (string \<times> ipaddr) list"
  w_dials :: "sockaddr \<Rightarrow> nat \<times> io_error option"
  w_tls :: "string \<Rightarrow> nat \<times> io_error option"
  w_writes :: "io_error option list"
  w_stream :: "(nat \<times> (io_error + bytes)) list"
  w_ws :: "string \<Rightarrow> string option \<Rightarrow> nat \<times> (io_error + u16)"
  w_ws_close :: nat
  w_dtls :: "sockaddr \<Rightarrow> nat \<times> (io_error + bytes list \<times> string)"
  w_log :: "effect list"

text \<open>\<open>Instant::now()\<close>.\<close>

definition instant_now :: "world \<Rightarrow> nat \<times> world" where
  "instant_now w =
     (case w_ticks w of
        [] \<Rightarrow> (w_now w, w)
      | d # ds \<Rightarrow> (w_now w + d, w\<lparr>w_now := w_now w + d, w_ticks := ds\<rparr>))"

text \<open>\<open>started.elapsed().as_millis() as u64\<close>.\<close>

definition elapsed_ms :: "nat \<Rightarrow> world \<Rightarrow> u64 \<times> world" where
  "elapsed_ms started w =
     (let (t, w') = instant_now w in (word_of_nat ((t - started) div 1000000), w'))"

definition next_seed :: "world \<Rightarrow> (nat option \<times> u64) \<times> world" where
  "next_seed w = (case w_seeds w of [] \<Rightarrow> ((None, 0), w) | s # ss \<Rightarrow> (s, w\<lparr>w_seeds := ss\<rparr>))"

text \<open>
  \<open>UdpSocket::bind\<close> and \<open>send_to\<close>: the next scripted outcome, success when the script has
  run out.  A datagram that was sent is logged.
\<close>

definition udp_bind :: "sockaddr \<Rightarrow> world \<Rightarrow> (io_error + nat) \<times> world" where
  "udp_bind local w =
     (let (r, w') = (case w_binds w of [] \<Rightarrow> (None, w) | b # bs \<Rightarrow> (b, w\<lparr>w_binds := bs\<rparr>)) in
      case r of
        Some e \<Rightarrow> (Inl e, w')
      | None \<Rightarrow> (Inr (w_socks w'),
                w'\<lparr>w_socks := w_socks w' + 1, w_log := w_log w' @ [Bound (w_socks w') local]\<rparr>))"

definition udp_send :: "nat \<Rightarrow> bytes \<Rightarrow> sockaddr \<Rightarrow> world \<Rightarrow> io_error option \<times> world" where
  "udp_send sock msg dest w =
     (let (r, w') = (case w_sends w of [] \<Rightarrow> (None, w) | b # bs \<Rightarrow> (b, w\<lparr>w_sends := bs\<rparr>)) in
      case r of
        Some e \<Rightarrow> (Some e, w')
      | None \<Rightarrow> (None, w'\<lparr>w_log := w_log w' @ [Sent sock msg dest]\<rparr>))"

datatype recv_result = RecvOk bytes sockaddr | RecvErr io_error | RecvTimeout

text \<open>
  \<open>timeout(d, sock.recv_from(&mut buf))\<close> with a 1500-byte buffer: the first datagram in the
  socket's queue if it arrives within \<open>d\<close>, cut to the buffer; otherwise \<open>d\<close> has passed and
  the queue is unchanged.
\<close>

definition udp_recv :: "nat \<Rightarrow> nat \<Rightarrow> world \<Rightarrow> recv_result \<times> world" where
  "udp_recv sock d w =
     (case w_inbox w sock of
        [] \<Rightarrow> (RecvTimeout, w\<lparr>w_now := w_now w + d\<rparr>)
      | (t, r) # rest \<Rightarrow>
          if t \<le> w_now w + d then
            ((case r of Inl e \<Rightarrow> RecvErr e | Inr (msg, from) \<Rightarrow> RecvOk (take 1500 msg) from),
             w\<lparr>w_now := max (w_now w) t, w_inbox := (w_inbox w)(sock := rest)\<rparr>)
          else (RecvTimeout, w\<lparr>w_now := w_now w + d\<rparr>))"

definition sleep_for :: "nat \<Rightarrow> world \<Rightarrow> world" where
  "sleep_for d w = w\<lparr>w_now := w_now w + d, w_log := w_log w @ [Slept d]\<rparr>"

definition lookup_host :: "string \<Rightarrow> world \<Rightarrow> (io_error + sockaddr list) \<times> world" where
  "lookup_host query w =
     (let (d, r) = w_lookup w query in (r, w\<lparr>w_now := w_now w + d\<rparr>))"

text \<open>\<open>"0.0.0.0:0"\<close> or \<open>"[::]:0"\<close>, by the family of the peer.\<close>

definition local_bind_for :: "ipaddr \<Rightarrow> sockaddr" where
  "local_bind_for ip = (case ip of V4 _ \<Rightarrow> SockV4 0 0 | V6 _ \<Rightarrow> SockV6 0 0 0 0)"

definition recv_timeout_of :: "probe_ctx \<Rightarrow> nat" where
  "recv_timeout_of ctx = (if default_timeout ctx = 0 then secs 5 else default_timeout ctx)"

text \<open>The checks over TLS and HTTP wait ten seconds at least.\<close>

definition long_timeout_of :: "probe_ctx \<Rightarrow> nat" where
  "long_timeout_of ctx = (if default_timeout ctx = 0 then secs 10 else max (default_timeout ctx) (secs 10))"

section \<open>Formatting\<close>

text \<open>\<open>{:?}\<close> of a \<open>Duration\<close>: seconds, ms, us or ns with the fraction's digits.\<close>

fun frac_digits :: "nat \<Rightarrow> nat \<Rightarrow> string" where
  "frac_digits frac divisor =
     (if frac = 0 \<or> divisor = 0 then ''''
      else digit_char (frac div divisor) # frac_digits (frac mod divisor) (divisor div 10))"

declare frac_digits.simps [simp del]

definition fmt_decimal :: "nat \<Rightarrow> nat \<Rightarrow> nat \<Rightarrow> string \<Rightarrow> string" where
  "fmt_decimal whole frac divisor suffix =
     (let ds = frac_digits frac divisor in
      dec whole @ (if ds = '''' then '''' else ''.'' @ ds) @ suffix)"

definition show_duration :: "nat \<Rightarrow> string" where
  "show_duration d =
     (let s = d div 1000000000; n = d mod 1000000000 in
      if s > 0 then fmt_decimal s n 100000000 ''s''
      else if n \<ge> 1000000 then fmt_decimal (n div 1000000) (n mod 1000000) 100000 ''ms''
      else if n \<ge> 1000 then fmt_decimal (n div 1000) (n mod 1000) 100 [CHR 0xC2, CHR 0xB5, CHR ''s'']
      else fmt_decimal n 0 1 ''ns'')"

section \<open>Lemmas: what the world operations change\<close>

definition later :: "world \<Rightarrow> world \<Rightarrow> bool" where
  "later w w' \<longleftrightarrow> w_now w \<le> w_now w' \<and> (\<exists>es. w_log w' = w_log w @ es) \<and> w_socks w \<le> w_socks w'"

lemma later_refl [simp]: "later w w"
  by (simp add: later_def)

lemma later_trans [trans]: "later w w' \<Longrightarrow> later w' w'' \<Longrightarrow> later w w''"
  by (fastforce simp: later_def)

text \<open>One fact per operation: the clock, the log and the socket counter.\<close>

lemma instant_now_step:
  "instant_now w = (t, w') \<Longrightarrow>
     t = w_now w' \<and> w_now w \<le> w_now w' \<and> w_log w' = w_log w \<and> w_socks w' = w_socks w"
  by (auto simp: instant_now_def split: list.splits)

lemma elapsed_ms_step:
  "elapsed_ms s w = (ms, w') \<Longrightarrow> w_now w \<le> w_now w' \<and> w_log w' = w_log w \<and> w_socks w' = w_socks w"
  by (auto simp: elapsed_ms_def dest: instant_now_step split: prod.splits)

lemma next_seed_step:
  "next_seed w = (s, w') \<Longrightarrow> w_now w' = w_now w \<and> w_log w' = w_log w \<and> w_socks w' = w_socks w"
  by (auto simp: next_seed_def split: list.splits)

lemma udp_bind_step:
  "udp_bind a w = (r, w') \<Longrightarrow>
     w_now w' = w_now w
     \<and> (case r of Inl _ \<Rightarrow> w_log w' = w_log w \<and> w_socks w' = w_socks w
         | Inr s \<Rightarrow> s = w_socks w \<and> w_log w' = w_log w @ [Bound s a] \<and> w_socks w' = w_socks w + 1)"
  by (auto simp: udp_bind_def split: list.splits option.splits)

lemma udp_send_step:
  "udp_send s m d w = (r, w') \<Longrightarrow>
     w_now w' = w_now w \<and> w_socks w' = w_socks w
     \<and> w_log w' = w_log w @ (if r = None then [Sent s m d] else [])"
  by (auto simp: udp_send_def split: list.splits option.splits)

lemma udp_recv_step:
  "udp_recv s d w = (r, w') \<Longrightarrow> w_now w \<le> w_now w' \<and> w_log w' = w_log w \<and> w_socks w' = w_socks w"
  by (auto simp: udp_recv_def split: list.splits if_splits)

lemma sleep_for_step [simp]:
  "w_now (sleep_for d w) = w_now w + d" "w_log (sleep_for d w) = w_log w @ [Slept d]"
  "w_socks (sleep_for d w) = w_socks w"
  by (simp_all add: sleep_for_def)

lemma lookup_host_step:
  "lookup_host q w = (r, w') \<Longrightarrow> w_now w \<le> w_now w' \<and> w_log w' = w_log w \<and> w_socks w' = w_socks w"
  by (auto simp: lookup_host_def split: prod.splits)

lemmas world_steps = instant_now_step elapsed_ms_step next_seed_step udp_bind_step udp_send_step
  udp_recv_step lookup_host_step

text \<open>What a socket receives is what is in its queue.\<close>

lemma instant_now_inbox: "instant_now w = (t, w') \<Longrightarrow> w_inbox w' = w_inbox w"
  by (auto simp: instant_now_def split: list.splits)

lemma elapsed_ms_inbox: "elapsed_ms s w = (ms, w') \<Longrightarrow> w_inbox w' = w_inbox w"
  by (auto simp: elapsed_ms_def dest: instant_now_inbox split: prod.splits)

lemma next_seed_inbox: "next_seed w = (s, w') \<Longrightarrow> w_inbox w' = w_inbox w"
  by (auto simp: next_seed_def split: list.splits)

lemma udp_bind_inbox: "udp_bind a w = (r, w') \<Longrightarrow> w_inbox w' = w_inbox w"
  by (auto simp: udp_bind_def split: list.splits option.splits)

lemma udp_send_inbox: "udp_send s m d w = (r, w') \<Longrightarrow> w_inbox w' = w_inbox w"
  by (auto simp: udp_send_def split: list.splits option.splits)

lemma udp_recv_inbox:
  "udp_recv s d w = (RecvOk m from, w') \<Longrightarrow>
     \<exists>t msg rest. w_inbox w s = (t, Inr (msg, from)) # rest \<and> m = take 1500 msg
       \<and> w_inbox w' = (w_inbox w)(s := rest)"
  by (auto simp: udp_recv_def split: list.splits if_splits sum.splits)

text \<open>A world in which nothing arrives and every call succeeds, the base of examples.\<close>

definition quiet_world :: world where
  "quiet_world =
     \<lparr>w_now = 0, w_ticks = [], w_seeds = [], w_binds = [], w_sends = [], w_inbox = (\<lambda>_. []),
      w_socks = 0, w_lookup = (\<lambda>_. (0, Inr [])), w_ifaddrs = Inr [],
      w_dials = (\<lambda>_. (0, None)), w_tls = (\<lambda>_. (0, None)), w_writes = [], w_stream = [],
      w_ws = (\<lambda>_ _. (0, Inr 101)), w_ws_close = 0, w_dtls = (\<lambda>_. (0, Inr ([], ''Unsupported''))), w_log = []\<rparr>"

lemmas world_eval =
  instant_now_def elapsed_ms_def next_seed_def udp_bind_def udp_send_def udp_recv_def lookup_host_def
  quiet_world_def ctx_new_def

end
