(* ===== verification/Pipeline.thy ===== *)
theory Pipeline
  imports Probe_Ctx
begin

text \<open>
  The pipeline runner, the report and its verdict, \<open>crates/probe-core/src/pipeline.rs\<close>, and
  the \<open>Check\<close> trait of \<open>check.rs\<close>.  A check's \<open>run\<close> maps the context and the world to its
  result and the new context and world; \<open>Panic\<close> is a panic of the task.

  \<open>check_contract\<close> is what the runner and the callers of a pipeline rely on in a check;
  every check of the program interprets it in its own theory.  \<open>probe_suite\<close> is a list of
  such checks.
\<close>

section \<open>The Check trait\<close>

type_synonym run_outcome = "(unit, check_result \<times> probe_ctx \<times> world) res"

record check =
  c_id :: string
  c_name :: string
  c_requires :: "string list"
  c_run :: "probe_ctx \<Rightarrow> world \<Rightarrow> run_outcome"

section \<open>Report and verdict\<close>

datatype verdict = Healthy | Warnings | Failed

fun exit_code :: "verdict \<Rightarrow> int" where
  "exit_code Healthy = 0"
| "exit_code Failed = 1"
| "exit_code Warnings = 2"

record report =
  results :: "check_result list"
  total_ms :: u64

text \<open>The loop of \<open>Report::verdict\<close>: an early return at the first failure.\<close>

fun verdict_loop :: "check_result list \<Rightarrow> bool \<Rightarrow> verdict" where
  "verdict_loop [] any_warn = (if any_warn then Warnings else Healthy)"
| "verdict_loop (r # rs) any_warn =
     (case r_status r of
        Fail \<Rightarrow> Failed
      | Warn \<Rightarrow> verdict_loop rs True
      | _ \<Rightarrow> verdict_loop rs any_warn)"

definition report_verdict :: "report \<Rightarrow> verdict" where
  "report_verdict rep = verdict_loop (results rep) False"

fun counts_loop :: "check_result list \<Rightarrow> nat \<times> nat \<times> nat \<times> nat \<Rightarrow> nat \<times> nat \<times> nat \<times> nat" where
  "counts_loop [] acc = acc"
| "counts_loop (r # rs) (p, w, f, s) =
     counts_loop rs (case r_status r of
        Pass \<Rightarrow> (p + 1, w, f, s)
      | Warn \<Rightarrow> (p, w + 1, f, s)
      | Fail \<Rightarrow> (p, w, f + 1, s)
      | Skip \<Rightarrow> (p, w, f, s + 1))"

definition report_counts :: "report \<Rightarrow> nat \<times> nat \<times> nat \<times> nat" where
  "report_counts rep = counts_loop (results rep) (0, 0, 0, 0)"

section \<open>The runner\<close>

fun join :: "string \<Rightarrow> string list \<Rightarrow> string" where
  "join sep [] = ''''"
| "join sep [x] = x"
| "join sep (x # xs) = x @ sep @ join sep xs"

definition pipeline_new :: "check list" where
  "pipeline_new = []"

definition pipeline_push :: "check list \<Rightarrow> check \<Rightarrow> check list" where
  "pipeline_push checks c = checks @ [c]"

definition run_one :: "string set \<Rightarrow> check \<Rightarrow> probe_ctx \<Rightarrow> world \<Rightarrow> run_outcome" where
  "run_one passed c ctx w =
     (let missing = filter (\<lambda>i. i \<notin> passed) (c_requires c) in
      if missing = [] then c_run c ctx w
      else Ok (skip_result (c_id c) (c_name c)
                 (''prerequisite not satisfied: '' @ join '', '' missing), ctx, w))"

fun run_checks ::
  "check list \<Rightarrow> string set \<Rightarrow> probe_ctx \<Rightarrow> world \<Rightarrow> (unit, check_result list \<times> probe_ctx \<times> world) res" where
  "run_checks [] passed ctx w = Ok ([], ctx, w)"
| "run_checks (c # cs) passed ctx w =
     bind_res (run_one passed c ctx w) (\<lambda>(r, ctx', w').
     bind_res (run_checks cs (if r_status r = Pass then insert (c_id c) passed else passed) ctx' w')
       (\<lambda>(rs, ctx'', w''). Ok (r # rs, ctx'', w'')))"

definition pipeline_run ::
  "check list \<Rightarrow> probe_ctx \<Rightarrow> world \<Rightarrow> (unit, report \<times> probe_ctx \<times> world) res" where
  "pipeline_run cs ctx w =
     (let (started, w) = instant_now w in
      bind_res (run_checks cs {} ctx w) (\<lambda>(rs, ctx, w).
      let (ms, w) = elapsed_ms started w in
      Ok (\<lparr>results = rs, total_ms = ms\<rparr>, ctx, w)))"

section \<open>Severity order\<close>

instantiation verdict :: linorder
begin

definition less_eq_verdict :: "verdict \<Rightarrow> verdict \<Rightarrow> bool" where
  "less_eq_verdict a b \<longleftrightarrow> a = Healthy \<or> b = Failed \<or> a = b"

definition less_verdict :: "verdict \<Rightarrow> verdict \<Rightarrow> bool" where
  "less_verdict a b \<longleftrightarrow> a \<noteq> b \<and> (a = Healthy \<or> b = Failed)"

instance
proof
  fix a b c :: verdict
  show "a < b \<longleftrightarrow> a \<le> b \<and> \<not> b \<le> a" "a \<le> a" "a \<le> b \<or> b \<le> a"
    by (cases a; cases b; simp add: less_eq_verdict_def less_verdict_def)+
  show "a \<le> b \<Longrightarrow> b \<le> c \<Longrightarrow> a \<le> c" "a \<le> b \<Longrightarrow> b \<le> a \<Longrightarrow> a = b"
    by (cases a; cases b; cases c; simp add: less_eq_verdict_def)+
qed

end

fun severity :: "check_status \<Rightarrow> verdict" where
  "severity Fail = Failed"
| "severity Warn = Warnings"
| "severity _ = Healthy"

lemma verdict_least [simp]: "Healthy \<le> v" "v \<le> Failed"
  by (simp_all add: less_eq_verdict_def)

lemma verdict_max [simp]:
  "max Failed v = Failed" "max v Failed = Failed" "max Healthy v = v" "max v Healthy = v" for v :: verdict
  by (auto simp: max_def less_eq_verdict_def)

text \<open>The verdict is the worst severity.\<close>

lemma verdict_loop_max:
  "verdict_loop rs any_warn =
     fold max (map (severity \<circ> r_status) rs) (if any_warn then Warnings else Healthy)"
proof (induction rs arbitrary: any_warn)
  case Nil
  then show ?case by simp
next
  case (Cons r rs)
  have f: "fold max xs Failed = Failed" for xs by (induction xs) simp_all
  show ?case by (cases "r_status r") (simp_all add: Cons.IH f)
qed

lemma fold_max_append: "fold max (xs @ ys) a = max (fold max xs a) (fold max ys a)" for a :: verdict
proof -
  have "fold max ys (max a b) = max (fold max ys a) b" for a b :: verdict
    by (induction ys arbitrary: a b) (simp_all add: max.assoc max.commute max.left_commute)
  moreover have "max (fold max xs a) a = fold max xs a"
    by (induction xs arbitrary: a) (simp, metis (no_types, lifting) fold_simps(2) max.assoc max.commute max.idem calculation)
  ultimately show ?thesis by (metis fold_append comp_apply max.commute)
qed

lemma fold_max_init: "a \<le> fold max xs a" for a :: verdict
proof (induction xs arbitrary: a)
  case (Cons x xs)
  have "a \<le> max x a" by simp
  then show ?case using Cons [of "max x a"] by (simp del: verdict_max)
qed simp

lemma fold_max_ge: "x \<in> set xs \<Longrightarrow> x \<le> fold max xs a" for a :: verdict
proof (induction xs arbitrary: a)
  case (Cons y xs)
  have "y \<le> max y a" by simp
  then have "y \<le> fold max xs (max y a)" using fold_max_init order_trans by blast
  then show ?case using Cons by auto
qed simp

lemma counts_loop_spec:
  "counts_loop rs (p, w, f, s) =
     (p + length (filter (\<lambda>r. r_status r = Pass) rs), w + length (filter (\<lambda>r. r_status r = Warn) rs),
      f + length (filter (\<lambda>r. r_status r = Fail) rs), s + length (filter (\<lambda>r. r_status r = Skip) rs))"
  by (induction rs arbitrary: p w f s) (auto split: check_status.splits)

section \<open>Lemmas: the runner\<close>

lemma run_checks_length:
  "run_checks cs passed ctx w = Ok (rs, ctx', w') \<Longrightarrow> length rs = length cs"
  by (induction cs passed ctx w arbitrary: rs ctx' w' rule: run_checks.induct)
    (fastforce simp: res_simps split: prod.splits)+

text \<open>
  One step in the middle of a run: the prefix has run from the start, the check at the
  position sees the ids that passed before it, and the rest continues.
\<close>

definition passed_after :: "string set \<Rightarrow> check list \<Rightarrow> check_result list \<Rightarrow> string set" where
  "passed_after passed cs rs = passed \<union> {c_id c | c r. (c, r) \<in> set (zip cs rs) \<and> r_status r = Pass}"

lemma passed_after_Cons [simp]:
  "passed_after passed (c # cs) (r # rs) =
     passed_after (if r_status r = Pass then insert (c_id c) passed else passed) cs rs"
  by (auto simp: passed_after_def)

lemma passed_after_Nil [simp]: "passed_after passed [] rs = passed"
  by (simp add: passed_after_def)

lemma run_checks_append:
  "run_checks (cs @ ds) passed ctx w =
     bind_res (run_checks cs passed ctx w) (\<lambda>(rs, ctx', w').
     bind_res (run_checks ds (passed_after passed cs rs) ctx' w') (\<lambda>(ss, ctx'', w'').
     Ok (rs @ ss, ctx'', w'')))"
proof (induction cs arbitrary: passed ctx w)
  case Nil
  show ?case by (cases "run_checks ds passed ctx w") auto
next
  case (Cons c cs)
  show ?case
    by (cases "run_one passed c ctx w") (auto simp: Cons.IH bind_res_assoc case_prod_beta)
qed

lemma run_checks_nth:
  assumes "run_checks cs passed ctx w = Ok (rs, ctx', w')" and "i < length cs"
  shows "\<exists>c1 w1 c2 w2. run_checks (take i cs) passed ctx w = Ok (take i rs, c1, w1)
           \<and> run_one (passed_after passed (take i cs) (take i rs)) (cs ! i) c1 w1 = Ok (rs ! i, c2, w2)"
proof -
  have "run_checks (take i cs @ cs ! i # drop (Suc i) cs) passed ctx w = Ok (rs, ctx', w')"
    using assms by (simp add: id_take_nth_drop [symmetric])
  then obtain rs1 c1 w1 r c2 w2 rs2
    where 1: "run_checks (take i cs) passed ctx w = Ok (rs1, c1, w1)"
      and 2: "run_one (passed_after passed (take i cs) rs1) (cs ! i) c1 w1 = Ok (r, c2, w2)"
      and rs: "rs = rs1 @ r # rs2"
    by (auto simp: run_checks_append res_simps split: prod.splits)
  have "length rs1 = i" using run_checks_length [OF 1] assms(2) by simp
  with 1 2 rs show ?thesis by auto
qed

lemma passed_after_take:
  assumes "length rs = length cs"
  shows "passed_after {} (take i cs) (take i rs) =
           {c_id (cs ! j) | j. j < i \<and> j < length cs \<and> r_status (rs ! j) = Pass}"
proof -
  have "(c, r) \<in> set (zip (take i cs) (take i rs)) \<longleftrightarrow>
          (\<exists>j. j < i \<and> j < length cs \<and> c = cs ! j \<and> r = rs ! j)" for c r
    using assms by (auto simp: in_set_conv_nth)
  then show ?thesis by (auto simp: passed_after_def)
qed

text \<open>A check whose prerequisites are not all met is skipped and not run.\<close>

lemma run_one_skip:
  "q \<in> set (c_requires c) \<Longrightarrow> q \<notin> passed \<Longrightarrow>
   run_one passed c ctx w =
     Ok (skip_result (c_id c) (c_name c) (''prerequisite not satisfied: '' @
           join '', '' (filter (\<lambda>i. i \<notin> passed) (c_requires c))), ctx, w)"
  by (auto simp: run_one_def Let_def filter_empty_conv)

lemma run_one_run:
  "set (c_requires c) \<subseteq> passed \<Longrightarrow> run_one passed c ctx w = c_run c ctx w"
  by (auto simp: run_one_def Let_def filter_empty_conv subset_iff)

section \<open>The contract of a check\<close>

text \<open>The part of the context that the command line sets and no check changes.\<close>

definition ctx_config where
  "ctx_config ctx =
     (default_timeout ctx, ctx_host ctx, ctx_port ctx, turn_user ctx, turn_pass ctx, echo_count ctx)"

locale check_contract =
  fixes c :: check
  assumes run_total: "\<exists>r ctx' w'. c_run c ctx w = Ok (r, ctx', w')"
    and run_ids: "c_run c ctx w = Ok (r, ctx', w') \<Longrightarrow> r_id r = c_id c \<and> r_name r = c_name c"
    and run_later: "c_run c ctx w = Ok (r, ctx', w') \<Longrightarrow> later w w'"
    and run_config: "c_run c ctx w = Ok (r, ctx', w') \<Longrightarrow> ctx_config ctx' = ctx_config ctx"
begin

lemma run_one_total: "\<exists>r ctx' w'. run_one passed c ctx w = Ok (r, ctx', w')"
  using run_total by (auto simp: run_one_def Let_def)

lemma run_one_keeps:
  assumes "run_one passed c ctx w = Ok (r, ctx', w')"
  shows "r_id r = c_id c" "r_name r = c_name c" "later w w'" "ctx_config ctx' = ctx_config ctx"
  using assms run_ids run_later run_config
  by (auto simp: run_one_def Let_def split: if_splits)

end

locale probe_suite =
  fixes cs :: "check list"
  assumes contract: "c \<in> set cs \<Longrightarrow> check_contract c"
begin

lemma suite_runs:
  assumes "set ds \<subseteq> set cs"
  shows "\<exists>rs ctx' w'. run_checks ds passed ctx w = Ok (rs, ctx', w')
           \<and> map r_id rs = map c_id ds \<and> map r_name rs = map c_name ds
           \<and> later w w' \<and> ctx_config ctx' = ctx_config ctx"
  using assms
proof (induction ds arbitrary: passed ctx w)
  case Nil
  then show ?case by simp
next
  case (Cons d ds)
  have d: "check_contract d" using Cons.prems contract by simp
  obtain r c1 w1 where 1: "run_one passed d ctx w = Ok (r, c1, w1)"
    using check_contract.run_one_total [OF d] by blast
  obtain rs c2 w2 where 2: "run_checks ds (if r_status r = Pass then insert (c_id d) passed else passed) c1 w1 = Ok (rs, c2, w2)"
    "map r_id rs = map c_id ds" "map r_name rs = map c_name ds" "later w1 w2" "ctx_config c2 = ctx_config c1"
    using Cons by force
  show ?case
    using 1 2 check_contract.run_one_keeps [OF d 1] by (auto intro: later_trans)
qed

text \<open>A pipeline of such checks ends with one result per check, in order, and changes no configuration.\<close>

lemma pipeline_ends:
  "\<exists>rep ctx' w'. pipeline_run cs ctx w = Ok (rep, ctx', w')
     \<and> map r_id (results rep) = map c_id cs \<and> map r_name (results rep) = map c_name cs
     \<and> later w w' \<and> ctx_config ctx' = ctx_config ctx"
proof -
  obtain t w1 where 1: "instant_now w = (t, w1)" by fastforce
  obtain rs ctx' w2 where 2: "run_checks cs {} ctx w1 = Ok (rs, ctx', w2)"
      "map r_id rs = map c_id cs" "map r_name rs = map c_name cs" "later w1 w2" "ctx_config ctx' = ctx_config ctx"
    using suite_runs [of cs "{}" ctx w1] by blast
  obtain ms w3 where 3: "elapsed_ms t w2 = (ms, w3)" by fastforce
  have "later w w3" using instant_now_step [OF 1] 2(4) elapsed_ms_step [OF 3] by (auto simp: later_def)
  then show ?thesis using 1 2 3 by (simp add: pipeline_run_def)
qed

end

section \<open>Properties\<close>

text \<open>C4: A check that is not reported as skipped ran with every prerequisite met: each id it
  requires belongs to an earlier check of the pipeline whose result is Pass.\<close>

theorem prerequisites_passed:
  assumes "run_checks cs {} ctx w = Ok (rs, ctx', w')" and "i < length cs"
    and "r_status (rs ! i) \<noteq> Skip" and "q \<in> set (c_requires (cs ! i))"
  shows "\<exists>j < i. c_id (cs ! j) = q \<and> r_status (rs ! j) = Pass"
proof (rule ccontr)
  assume no: "\<not> ?thesis"
  have len: "length rs = length cs" by (rule run_checks_length [OF assms(1)])
  obtain c1 w1 c2 w2 where r:
    "run_one (passed_after {} (take i cs) (take i rs)) (cs ! i) c1 w1 = Ok (rs ! i, c2, w2)"
    using run_checks_nth [OF assms(1,2)] by blast
  have "q \<notin> passed_after {} (take i cs) (take i rs)"
    unfolding passed_after_take [OF len] using no assms(2) by auto
  from run_one_skip [OF assms(4) this, of c1 w1] r have "r_status (rs ! i) = Skip" by auto
  with assms(3) show False ..
qed

text \<open>A check all of whose prerequisites passed earlier is run, on the context and the world
  the checks before it left; one with a prerequisite that did not pass is recorded as Skip,
  and leaves context and world untouched.\<close>

theorem runner_step:
  assumes "run_checks (cs @ [c]) {} ctx w = Ok (rs @ [r], ctx2, w2)"
  shows "\<exists>ctx1 w1. run_checks cs {} ctx w = Ok (rs, ctx1, w1)
     \<and> (if \<forall>q \<in> set (c_requires c). \<exists>j < length cs. c_id (cs ! j) = q \<and> r_status (rs ! j) = Pass
        then c_run c ctx1 w1 = Ok (r, ctx2, w2)
        else r_status r = Skip \<and> r_id r = c_id c \<and> ctx2 = ctx1 \<and> w2 = w1)"
proof -
  obtain rs' ctx1 w1 r' where 1: "run_checks cs {} ctx w = Ok (rs', ctx1, w1)"
    and 2: "run_one (passed_after {} cs rs') c ctx1 w1 = Ok (r', ctx2, w2)" and "rs' @ [r'] = rs @ [r]"
    using assms by (auto simp: run_checks_append res_simps split: prod.splits)
  then have eq: "rs' = rs" "r' = r" by simp_all
  have len: "length rs = length cs" using run_checks_length [OF 1] eq by simp
  have passed: "passed_after {} cs rs = {c_id (cs ! j) | j. j < length cs \<and> r_status (rs ! j) = Pass}"
    using passed_after_take [OF len, of "length cs"] len by simp
  let ?met = "\<forall>q \<in> set (c_requires c). \<exists>j < length cs. c_id (cs ! j) = q \<and> r_status (rs ! j) = Pass"
  show ?thesis
  proof (cases ?met)
    case True
    then have "set (c_requires c) \<subseteq> passed_after {} cs rs" unfolding passed by auto
    with 2 eq have "c_run c ctx1 w1 = Ok (r, ctx2, w2)" by (simp add: run_one_run)
    with True 1 eq show ?thesis by auto
  next
    case False
    then obtain q where "q \<in> set (c_requires c)" "q \<notin> passed_after {} cs rs" unfolding passed by auto
    from run_one_skip [OF this, of ctx1 w1] 2 eq
    have "r_status r = Skip \<and> r_id r = c_id c \<and> ctx2 = ctx1 \<and> w2 = w1" by auto
    with False 1 eq show ?thesis by auto
  qed
qed

text \<open>C10: The verdict is the worst severity of the results (Pass and Skip count as healthy), and the
  counts are the numbers of results of each status.  The verdict is Failed exactly when a result failed, Warnings
  exactly when none failed and one warned, else Healthy; the exit code is 1, 2 or 0 accordingly.\<close>

theorem verdict_is_worst:
  "report_verdict rep = fold max (map (severity \<circ> r_status) (results rep)) Healthy
   \<and> (\<exists>p w f s. report_counts rep = (p, w, f, s)
        \<and> p = length (filter (\<lambda>r. r_status r = Pass) (results rep))
        \<and> w = length (filter (\<lambda>r. r_status r = Warn) (results rep))
        \<and> f = length (filter (\<lambda>r. r_status r = Fail) (results rep))
        \<and> s = length (filter (\<lambda>r. r_status r = Skip) (results rep))
        \<and> p + w + f + s = length (results rep)
        \<and> (report_verdict rep, exit_code (report_verdict rep)) =
            (if 0 < f then (Failed, 1) else if 0 < w then (Warnings, 2) else (Healthy, 0)))"
proof -
  have v: "report_verdict rep = fold max (map (severity \<circ> r_status) (results rep)) Healthy"
    by (simp add: report_verdict_def verdict_loop_max)
  have loop: "verdict_loop rs b = (if 0 < length (filter (\<lambda>r. r_status r = Fail) rs) then Failed
      else if b \<or> 0 < length (filter (\<lambda>r. r_status r = Warn) rs) then Warnings else Healthy)" for rs b
    by (induction rs arbitrary: b) (auto split: check_status.splits)
  have sum: "length (filter (\<lambda>r. r_status r = Pass) rs) + length (filter (\<lambda>r. r_status r = Warn) rs)
      + length (filter (\<lambda>r. r_status r = Fail) rs) + length (filter (\<lambda>r. r_status r = Skip) rs) = length rs" for rs
    by (induction rs) (auto split: check_status.splits intro: check_status.exhaust)
  have "report_verdict rep = (if 0 < length (filter (\<lambda>r. r_status r = Fail) (results rep)) then Failed
      else if 0 < length (filter (\<lambda>r. r_status r = Warn) (results rep)) then Warnings else Healthy)"
    by (simp only: report_verdict_def loop simp_thms)
  then show ?thesis using sum [of "results rep"] unfolding v [symmetric]
    by (simp add: report_counts_def counts_loop_spec)
qed

text \<open>Two small checks, the second needing the first.\<close>

definition example_check :: "string \<Rightarrow> string list \<Rightarrow> check" where
  "example_check i req =
     \<lparr>c_id = i, c_name = i, c_requires = req, c_run = (\<lambda>ctx w. Ok (pass_result i i 0 '''', ctx, w))\<rparr>"

lemma example_check_runs:
  "run_checks [example_check ''a'' [], example_check ''b'' [''a'']] {} ctx w =
     Ok ([pass_result ''a'' ''a'' 0 '''', pass_result ''b'' ''b'' 0 ''''], ctx, w)"
  by (simp add: example_check_def run_one_def Let_def)

theorem prerequisites_passed_witness:
  "\<exists>j < 1. c_id ([example_check ''a'' [], example_check ''b'' [''a'']] ! j) = ''a''
     \<and> r_status ([pass_result ''a'' ''a'' 0 '''', pass_result ''b'' ''b'' 0 ''''] ! j) = Pass"
  using prerequisites_passed [OF example_check_runs, of 1 "''a''"] by (simp add: example_check_def)

theorem runner_step_witness:
  "c_run (example_check ''b'' [''a'']) ctx_new quiet_world = Ok (pass_result ''b'' ''b'' 0 '''', ctx_new, quiet_world)"
proof -
  have "run_checks ([example_check ''a'' []] @ [example_check ''b'' [''a'']]) {} ctx_new quiet_world =
     Ok ([pass_result ''a'' ''a'' 0 ''''] @ [pass_result ''b'' ''b'' 0 ''''], ctx_new, quiet_world)"
    using example_check_runs [of ctx_new quiet_world] by simp
  from runner_step [OF this] show ?thesis by (simp add: example_check_def run_one_def)
qed

end
