(* ===== verification/Dns_Check.thy ===== *)
theory Dns_Check
  imports Pipeline
begin

text \<open>
  The DNS check, \<open>crates/probe-core/src/checks/dns.rs\<close>: it resolves the host through the
  system resolver (\<open>w_lookup\<close> of the world) and records the addresses, without
  duplicates and in the order of their first appearance.
\<close>

section \<open>The check\<close>

definition dns_id :: string where "dns_id = ''dns''"
definition dns_name :: string where "dns_name = ''DNS resolution''"

text \<open>The arrow in the summaries, in UTF-8.\<close>

definition arrow :: string where "arrow = [CHR 0xE2, CHR 0x86, CHR 0x92]"

fun dedup_ips :: "sockaddr list \<Rightarrow> ipaddr set \<Rightarrow> ipaddr list \<Rightarrow> ipaddr list" where
  "dedup_ips [] seen ips = ips"
| "dedup_ips (sa # sas) seen ips =
     (let ip = sock_ip sa in
      if ip \<notin> seen then dedup_ips sas (insert ip seen) (ips @ [ip])
      else dedup_ips sas seen ips)"

definition dns_run :: "probe_ctx \<Rightarrow> world \<Rightarrow> run_outcome" where
  "dns_run ctx w =
     (case ctx_host ctx of
        None \<Rightarrow> Ok (skip_result dns_id dns_name ''no host supplied'', ctx, w)
      | Some host \<Rightarrow>
          (let port = (case ctx_port ctx of Some p \<Rightarrow> p | None \<Rightarrow> 0);
               query = host @ '':'' @ show_word port;
               (started, w) = instant_now w;
               (looked, w) = lookup_host query w
           in case looked of
                Inl e \<Rightarrow>
                  (let (ms, w) = elapsed_ms started w in
                   Ok (fail_result dns_id dns_name ms (host @ '' did not resolve: '' @ e), ctx, w))
              | Inr sas \<Rightarrow>
                  (let ips = dedup_ips sas {} [];
                       (ms, w) = elapsed_ms started w
                   in if ips = [] then
                        Ok (fail_result dns_id dns_name ms (host @ '' resolved to zero addresses''), ctx, w)
                      else
                        (let summary =
                               (if length ips = 1
                                then host @ '' '' @ arrow @ '' '' @ show_ip (ips ! 0) @ '' ('' @ show_word ms @ '' ms)''
                                else host @ '' '' @ arrow @ '' '' @ show_ip (ips ! 0) @ '' (+'' @ dec (length ips - 1)
                                       @ '' more, '' @ show_word ms @ '' ms)'')
                         in Ok (with_detail (pass_result dns_id dns_name ms summary)
                                  (JObj [(''host'', JStr host), (''addresses'', JArr (map (JStr \<circ> show_ip) ips))]),
                                ctx\<lparr>resolved_ips := ips\<rparr>, w)))))"

definition dns_check :: check where
  "dns_check = \<lparr>c_id = dns_id, c_name = dns_name, c_requires = [], c_run = dns_run\<rparr>"

section \<open>Lemmas\<close>

lemma dedup_ips_spec:
  "dedup_ips sas seen ips = ips @ dedup_ips sas seen []"
  "distinct (dedup_ips sas seen [])"
  "set (dedup_ips sas seen []) = sock_ip ` set sas - seen"
proof -
  have acc: "dedup_ips sas seen ips = ips @ dedup_ips sas seen []" for sas seen ips
  proof (induction sas arbitrary: seen ips)
    case (Cons sa sas)
    show ?case
      using Cons.IH [of "insert (sock_ip sa) seen" "ips @ [sock_ip sa]"]
        Cons.IH [of "insert (sock_ip sa) seen" "[sock_ip sa]"] Cons.IH [of seen ips]
      by (simp add: Let_def)
  qed simp
  then show "dedup_ips sas seen ips = ips @ dedup_ips sas seen []" .
  have "distinct (dedup_ips sas seen []) \<and> set (dedup_ips sas seen []) = sock_ip ` set sas - seen"
  proof (induction sas arbitrary: seen)
    case (Cons sa sas)
    show ?case
      using Cons.IH [of "insert (sock_ip sa) seen"] Cons.IH [of seen]
        acc [of sas "insert (sock_ip sa) seen" "[sock_ip sa]"]
      by (auto simp: Let_def)
  qed simp
  then show "distinct (dedup_ips sas seen [])" "set (dedup_ips sas seen []) = sock_ip ` set sas - seen"
    by simp_all
qed

lemma dedup_ips_hd: "dedup_ips (sa # sas) {} [] = sock_ip sa # dedup_ips sas {sock_ip sa} []"
  using dedup_ips_spec(1) [of sas "{sock_ip sa}" "[sock_ip sa]"] by (simp add: Let_def)

lemma dns_run_total: "\<exists>r ctx' w'. dns_run ctx w = Ok (r, ctx', w')"
  by (auto simp: dns_run_def Let_def split: option.splits sum.splits prod.splits)

lemma dns_run_keeps:
  assumes "dns_run ctx w = Ok (r, ctx', w')"
  shows "r_id r = dns_id" "r_name r = dns_name" "later w w'" "ctx_config ctx' = ctx_config ctx"
    "w_log w' = w_log w"
  using assms
  by (auto simp: dns_run_def Let_def ctx_config_def later_def
      split: option.splits sum.splits prod.splits if_splits dest!: world_steps)

interpretation dns: check_contract dns_check
proof unfold_locales
  fix ctx w r ctx' w'
  show "\<exists>r ctx' w'. c_run dns_check ctx w = Ok (r, ctx', w')"
    using dns_run_total by (simp add: dns_check_def)
  assume "c_run dns_check ctx w = Ok (r, ctx', w')"
  then have run: "dns_run ctx w = Ok (r, ctx', w')" by (simp add: dns_check_def)
  show "r_id r = c_id dns_check \<and> r_name r = c_name dns_check"
    using dns_run_keeps [OF run] by (simp add: dns_check_def)
  show "later w w'" "ctx_config ctx' = ctx_config ctx" using dns_run_keeps [OF run] by simp_all
qed

section \<open>Properties\<close>

text \<open>C32: A passed DNS check leaves in the context exactly the addresses the resolver returned,
  each once, at least one, the resolver's first one first; in every other outcome the
  context is unchanged.\<close>

theorem dns_resolves:
  assumes "dns_run ctx w = Ok (r, ctx', w')"
  shows "if r_status r = Pass
         then \<exists>host sas. ctx_host ctx = Some host
                \<and> snd (w_lookup w (host @ '':'' @ show_word (case ctx_port ctx of Some p \<Rightarrow> p | None \<Rightarrow> 0))) = Inr sas
                \<and> sas \<noteq> [] \<and> distinct (resolved_ips ctx') \<and> set (resolved_ips ctx') = sock_ip ` set sas
                \<and> hd (resolved_ips ctx') = sock_ip (hd sas) \<and> ctx' = ctx\<lparr>resolved_ips := resolved_ips ctx'\<rparr>
         else ctx' = ctx"
proof (cases "r_status r = Pass")
  case True
  obtain host where host: "ctx_host ctx = Some host"
    using assms True by (auto simp: dns_run_def split: option.splits)
  let ?q = "host @ '':'' @ show_word (case ctx_port ctx of Some p \<Rightarrow> p | None \<Rightarrow> 0)"
  obtain t w1 where t: "instant_now w = (t, w1)" by fastforce
  have lw: "w_lookup w1 = w_lookup w" using t by (auto simp: instant_now_def split: list.splits)
  obtain sas where sas: "snd (w_lookup w ?q) = Inr sas" "dedup_ips sas {} [] \<noteq> []"
    and ctx': "ctx' = ctx\<lparr>resolved_ips := dedup_ips sas {} []\<rparr>"
    using assms True host t lw
    by (auto simp: dns_run_def Let_def lookup_host_def split: sum.splits prod.splits if_splits)
  from sas(2) obtain sa rest where "sas = sa # rest" by (cases sas) auto
  with sas ctx' host True show ?thesis
    using dedup_ips_spec(2,3) [of sas "{}"] by (auto simp: dedup_ips_hd simp del: dedup_ips.simps)
next
  case False
  then show ?thesis
    using assms
    by (auto simp: dns_run_def Let_def split: option.splits sum.splits prod.splits if_splits)
qed

theorem dns_resolves_witness:
  "\<exists>r ctx' w'. dns_run (ctx_new\<lparr>ctx_host := Some ''h''\<rparr>)
       (quiet_world\<lparr>w_lookup := (\<lambda>_. (7, Inr [SockV4 1 0, SockV4 1 0, SockV4 2 0]))\<rparr>) = Ok (r, ctx', w')
     \<and> distinct (resolved_ips ctx') \<and> set (resolved_ips ctx') = {V4 1, V4 2}"
proof -
  let ?ctx = "ctx_new\<lparr>ctx_host := Some ''h''\<rparr>"
  let ?w = "quiet_world\<lparr>w_lookup := (\<lambda>_. (7, Inr [SockV4 1 0, SockV4 1 0, SockV4 2 0]))\<rparr>"
  obtain r ctx' w' where run: "dns_run ?ctx ?w = Ok (r, ctx', w')" using dns_run_total by blast
  then have "r_status r = Pass" by (auto simp: dns_run_def world_eval Let_def)
  then show ?thesis using run dns_resolves [OF run] by (auto simp: world_eval)
qed

end
