(* ===== verification/Stun_Check.thy ===== *)
theory Stun_Check
  imports Dns_Check Turn_Codec
begin

text \<open>
  The STUN binding check, \<open>crates/probe-core/src/checks/stun.rs\<close>: the Binding request, the
  response parser (the first mapped-address attribute counts), and the exchange with the
  server over a fresh UDP socket.  The reflexive address goes into the context as text.
\<close>

section \<open>The request and the response\<close>

definition stun_id :: string where "stun_id = ''stun.binding''"
definition stun_name :: string where "stun_name = ''STUN binding''"

definition BINDING_REQUEST :: u16 where "BINDING_REQUEST = 0x0001"
definition BINDING_SUCCESS :: u16 where "BINDING_SUCCESS = 0x0101"

definition build_binding_request :: "nat option \<Rightarrow> u64 \<Rightarrow> bytes \<times> bytes" where
  "build_binding_request clock stack_addr =
     (let txid = new_txid clock stack_addr in
      (txid, to_be 2 BINDING_REQUEST @ to_be 2 (0 :: u16) @ to_be 4 MAGIC_COOKIE @ txid))"

datatype binding_error =
  BE_Codec codec_error
| BE_WrongType u16
| NoMappedAddress

text \<open>The loop over the attributes returns at the first address attribute.\<close>

fun first_mapped :: "bytes \<Rightarrow> attr list \<Rightarrow> (binding_error, sockaddr) res" where
  "first_mapped txid [] = Err NoMappedAddress"
| "first_mapped txid (a # as) =
     (if attr_type a = XOR_MAPPED_ADDRESS then map_err BE_Codec (parse_xor_address (attr_value a) txid)
      else if attr_type a = MAPPED_ADDRESS then map_err BE_Codec (parse_mapped_address (attr_value a))
      else first_mapped txid as)"

definition parse_binding_response :: "bytes \<Rightarrow> bytes \<Rightarrow> (binding_error, sockaddr) res" where
  "parse_binding_response buf txid =
     bind_res (map_err BE_Codec (parse_header buf txid)) (\<lambda>h.
     if msg_type h \<noteq> BINDING_SUCCESS then Err (BE_WrongType (msg_type h))
     else
       bind_res (map_err BE_Codec (walk_attrs buf (attrs_len h))) (\<lambda>attrs.
       first_mapped txid attrs))"

section \<open>Error texts\<close>

text \<open>\<open>{:08x}\<close>, \<open>{:04x}\<close>, \<open>{:02x}\<close>: lower-case hex, padded with zeros.\<close>

definition hex_pad :: "nat \<Rightarrow> nat \<Rightarrow> string" where
  "hex_pad width n = (let h = radix_str 16 n in replicate (width - length h) (CHR ''0'') @ h)"

fun show_codec_error :: "codec_error \<Rightarrow> string" where
  "show_codec_error (Short n) = ''message shorter than 20-byte header ('' @ dec n @ '' bytes)''"
| "show_codec_error (BadCookie c) = ''magic cookie mismatch: 0x'' @ hex_pad 8 (unat c)"
| "show_codec_error TxIdMismatch = ''transaction id mismatch''"
| "show_codec_error TruncatedAttr = ''attribute body shorter than declared length''"
| "show_codec_error (BadFamily f) = ''unknown address family 0x'' @ hex_pad 2 (unat f)"

fun show_binding_error :: "binding_error \<Rightarrow> string" where
  "show_binding_error (BE_Codec e) = show_codec_error e"
| "show_binding_error (BE_WrongType t) =
     ''message type 0x'' @ hex_pad 4 (unat t) @ '' is not a binding success''"
| "show_binding_error NoMappedAddress = ''no mapped-address attribute in response''"

fun show_allocate_error :: "allocate_error \<Rightarrow> string" where
  "show_allocate_error (AE_Codec e) = show_codec_error e"
| "show_allocate_error (AE_WrongType t) = ''unexpected message type 0x'' @ hex_pad 4 (unat t)"
| "show_allocate_error (AE_MissingAttr a) = ''missing required attribute '' @ a"

section \<open>The check\<close>

text \<open>Every failure of a check reads the clock for its latency.\<close>

definition fail_now :: "string \<Rightarrow> string \<Rightarrow> nat \<Rightarrow> string \<Rightarrow> probe_ctx \<Rightarrow> world \<Rightarrow> run_outcome" where
  "fail_now i n started msg ctx w =
     (let (ms, w) = elapsed_ms started w in Ok (fail_result i n ms msg, ctx, w))"

abbreviation stun_fail :: "nat \<Rightarrow> string \<Rightarrow> probe_ctx \<Rightarrow> world \<Rightarrow> run_outcome" where
  "stun_fail \<equiv> fail_now stun_id stun_name"

definition stun_run :: "probe_ctx \<Rightarrow> world \<Rightarrow> run_outcome" where
  "stun_run ctx w =
     (case ctx_port ctx of
        None \<Rightarrow> Ok (skip_result stun_id stun_name ''no port supplied'', ctx, w)
      | Some port \<Rightarrow>
     (case resolved_ips ctx of
        [] \<Rightarrow> Ok (skip_result stun_id stun_name ''no resolved IP'', ctx, w)
      | ip # _ \<Rightarrow>
     (let server = sock_new ip port;
          (started, w) = instant_now w;
          ((clock, stack_addr), w) = next_seed w;
          (txid, request) = build_binding_request clock stack_addr;
          (bound, w) = udp_bind (local_bind_for ip) w
      in case bound of
           Inl e \<Rightarrow> stun_fail started (''local UDP bind failed: '' @ e) ctx w
         | Inr sock \<Rightarrow>
     (let (sent, w) = udp_send sock request server w
      in case sent of
           Some e \<Rightarrow> stun_fail started (''send to '' @ show_sock server @ '' failed: '' @ e) ctx w
         | None \<Rightarrow>
     (let recv_timeout = recv_timeout_of ctx;
          (got, w) = udp_recv sock recv_timeout w
      in case got of
           RecvErr e \<Rightarrow> stun_fail started (''recv failed: '' @ e) ctx w
         | RecvTimeout \<Rightarrow>
             stun_fail started (''no response from '' @ show_sock server @ '' in '' @ show_duration recv_timeout) ctx w
         | RecvOk buf from \<Rightarrow>
     (let (ms, w) = elapsed_ms started w
      in case parse_binding_response buf txid of
           Ok srflx \<Rightarrow>
             Ok (with_detail
                   (pass_result stun_id stun_name ms
                      (''srflx '' @ show_sock srflx @ '' ('' @ show_word ms @ '' ms)''))
                   (JObj [(''server'', JStr (show_sock server)), (''srflx'', JStr (show_sock srflx))]),
                 ctx\<lparr>scratch := (scratch ctx)(''srflx'' \<mapsto> show_sock srflx)\<rparr>, w)
         | Err e \<Rightarrow> Ok (fail_result stun_id stun_name ms (''bad response: '' @ show_binding_error e), ctx, w)
         | Panic \<Rightarrow> Panic))))))"

definition stun_check :: check where
  "stun_check = \<lparr>c_id = stun_id, c_name = stun_name, c_requires = [dns_id], c_run = stun_run\<rparr>"

section \<open>Lemmas\<close>

lemma build_binding_request_message:
  "build_binding_request t s = (new_txid t s, message BINDING_REQUEST (new_txid t s) [])"
  by (simp add: build_binding_request_def message_def Let_def)

lemma first_mapped_no_panic: "first_mapped txid as \<noteq> Panic"
  by (induction as) (auto simp: res_simps parse_xor_address_no_panic parse_mapped_address_no_panic)

lemma parse_binding_response_no_panic: "parse_binding_response buf txid \<noteq> Panic"
  unfolding parse_binding_response_def
  by (auto simp: res_simps parse_header_no_panic walk_attrs_no_panic first_mapped_no_panic split: if_splits)

text \<open>The first address attribute decides.\<close>

definition is_mapped :: "attr \<Rightarrow> bool" where
  "is_mapped a \<longleftrightarrow> attr_type a = XOR_MAPPED_ADDRESS \<or> attr_type a = MAPPED_ADDRESS"

lemma first_mapped_find:
  "first_mapped txid as =
     (case find is_mapped as of
        None \<Rightarrow> Err NoMappedAddress
      | Some a \<Rightarrow> map_err BE_Codec
          (if attr_type a = XOR_MAPPED_ADDRESS then parse_xor_address (attr_value a) txid
           else parse_mapped_address (attr_value a)))"
  by (induction as) (auto simp: is_mapped_def)

lemma fail_now_total: "\<exists>r ctx' w'. fail_now i n s m ctx w = Ok (r, ctx', w')"
  by (auto simp: fail_now_def split: prod.splits)

lemma fail_now_Ok:
  "fail_now i n s m ctx w = Ok (r, ctx', w') \<Longrightarrow>
     ctx' = ctx \<and> r_status r = Fail \<and> r_id r = i \<and> r_name r = n \<and> r_summary r = m
     \<and> w_now w \<le> w_now w' \<and> w_log w' = w_log w \<and> w_socks w' = w_socks w"
  by (auto simp: fail_now_def dest!: elapsed_ms_step split: prod.splits)

lemma stun_run_total: "\<exists>r ctx' w'. stun_run ctx w = Ok (r, ctx', w')"
  using fail_now_total
  by (auto simp: stun_run_def Let_def parse_binding_response_no_panic
      split: option.splits list.splits sum.splits prod.splits recv_result.splits res.splits)

lemma stun_run_cases:
  assumes "stun_run ctx w = Ok (r, ctx', w')"
  shows "r_id r = stun_id \<and> r_name r = stun_name \<and> later w w'
    \<and> (if r_status r = Pass
       then \<exists>srflx. ctx' = ctx\<lparr>scratch := (scratch ctx)(''srflx'' \<mapsto> show_sock srflx)\<rparr>
       else ctx' = ctx)"
  using assms
  by (auto simp: stun_run_def Let_def later_def
      split: option.splits list.splits sum.splits prod.splits recv_result.splits res.splits
      dest!: world_steps fail_now_Ok)

lemma stun_run_config:
  assumes "stun_run ctx w = Ok (r, ctx', w')"
  shows "ctx_config ctx' = ctx_config ctx"
  using stun_run_cases [OF assms] by (auto simp: ctx_config_def split: if_splits)

interpretation stun: check_contract stun_check
proof unfold_locales
  fix ctx w r ctx' w'
  show "\<exists>r ctx' w'. c_run stun_check ctx w = Ok (r, ctx', w')"
    using stun_run_total by (simp add: stun_check_def)
  assume "c_run stun_check ctx w = Ok (r, ctx', w')"
  then have run: "stun_run ctx w = Ok (r, ctx', w')" by (simp add: stun_check_def)
  show "r_id r = c_id stun_check \<and> r_name r = c_name stun_check"
    using stun_run_cases [OF run] by (simp add: stun_check_def)
  show "later w w'" using stun_run_cases [OF run] by simp
  show "ctx_config ctx' = ctx_config ctx" by (rule stun_run_config [OF run])
qed

lemma parse_binding_response_first:
  assumes "length txid = 12"
    and "as = pre @ \<lparr>attr_type = XOR_MAPPED_ADDRESS, attr_value = build_xor_address srflx txid\<rparr> # post"
    and "\<forall>a \<in> set pre. attr_type a \<notin> {XOR_MAPPED_ADDRESS, MAPPED_ADDRESS}"
    and "\<forall>a \<in> set as. attr_fits a" and "length (concat (map enc_attr as)) < 65536"
  shows "parse_binding_response (message BINDING_SUCCESS txid (concat (map enc_attr as))) txid =
           Ok (sock_norm srflx)"
proof -
  have "first_mapped txid as = Ok (sock_norm srflx)"
    unfolding assms(2) using assms(3)
    by (induction pre) (auto simp: xor_address_roundtrip [OF assms(1)])
  then show ?thesis
    using assms(1,4,5)
    by (simp add: parse_binding_response_def parse_header_message walk_attrs_message decode_attrs_encs)
qed

text \<open>An example: a server that answers 192.0.2.1:1234 to transaction id 0.\<close>

definition example_txid :: bytes where "example_txid = replicate 12 0"

definition example_binding_reply :: bytes where
  "example_binding_reply = message BINDING_SUCCESS example_txid
     (concat (map enc_attr [\<lparr>attr_type = XOR_MAPPED_ADDRESS,
                            attr_value = build_xor_address (SockV4 0xC0000201 1234) example_txid\<rparr>]))"

lemma example_binding_reply_parses:
  "parse_binding_response example_binding_reply example_txid = Ok (SockV4 0xC0000201 1234)"
  using parse_binding_response_first [of example_txid _ "[]" "SockV4 0xC0000201 1234" "[]", OF _ refl]
  by (simp add: example_binding_reply_def example_txid_def attr_fits_def length_enc_attr
      length_build_xor_address pad4_def sock_norm_def)

lemma length_example_binding_reply: "length example_binding_reply = 32"
  by (simp add: example_binding_reply_def example_txid_def length_enc_attr length_build_xor_address pad4_def)

lemma new_txid_example: "new_txid None 0 = example_txid"
  by (simp add: new_txid_def example_txid_def to_be_def upt_conv_Cons replicate_eq_replicate numeral_eq_Suc)

definition example_ctx :: probe_ctx where
  "example_ctx = ctx_new\<lparr>ctx_host := Some ''h'', ctx_port := Some 3478, resolved_ips := [V4 1]\<rparr>"

definition example_world :: world where
  "example_world = quiet_world\<lparr>w_inbox := (\<lambda>_. [(5, Inr (example_binding_reply, SockV4 1 3478))])\<rparr>"

lemma example_stun_pass: "\<exists>r ctx' w'. stun_run example_ctx example_world = Ok (r, ctx', w') \<and> r_status r = Pass"
proof -
  have "take 1500 example_binding_reply = example_binding_reply"
    using length_example_binding_reply by simp
  then show ?thesis
    by (simp add: stun_run_def example_ctx_def example_world_def world_eval Let_def new_txid_example
        build_binding_request_def example_binding_reply_parses recv_timeout_of_def)
qed

text \<open>
  The run, by how far it got: no socket; a socket but the request was not sent; the request was sent, and then a
  result that passes only on the address in the first datagram.
\<close>

definition stun_asked :: "probe_ctx \<Rightarrow> world \<Rightarrow> check_result \<Rightarrow> probe_ctx \<Rightarrow> world \<Rightarrow> bool" where
  "stun_asked ctx w r ctx' w' \<longleftrightarrow>
     (\<exists>ip ips port clock stack_addr txid request.
        resolved_ips ctx = ip # ips \<and> ctx_port ctx = Some port
        \<and> build_binding_request clock stack_addr = (txid, request)
        \<and> w_log w' = w_log w @ [Bound (w_socks w) (local_bind_for ip), Sent (w_socks w) request (sock_new ip port)]
        \<and> w_socks w' = w_socks w + 1 \<and> (\<forall>s. s \<noteq> w_socks w \<longrightarrow> w_inbox w' s = w_inbox w s)
        \<and> (r_status r = Pass \<longrightarrow> (\<exists>t msg from rest srflx. w_inbox w (w_socks w) = (t, Inr (msg, from)) # rest
             \<and> parse_binding_response (take 1500 msg) txid = Ok srflx
             \<and> ctx' = ctx\<lparr>scratch := (scratch ctx)(''srflx'' \<mapsto> show_sock srflx)\<rparr>)))"

lemma udp_recv_others: "udp_recv s d w = (r, w') \<Longrightarrow> s' \<noteq> s \<Longrightarrow> w_inbox w' s' = w_inbox w s'"
  by (auto simp: udp_recv_def split: list.splits if_splits)

lemma fail_now_inbox: "fail_now i n st m ctx w = Ok (r, ctx', w') \<Longrightarrow> w_inbox w' = w_inbox w"
  by (auto simp: fail_now_def dest!: elapsed_ms_inbox split: prod.splits)

lemma stun_run_stages:
  assumes "stun_run ctx w = Ok (r, ctx', w')"
  shows "r_status r \<noteq> Pass \<and> w_inbox w' = w_inbox w \<and> w_log w' = w_log w \<and> w_socks w' = w_socks w
    \<or> r_status r \<noteq> Pass \<and> w_inbox w' = w_inbox w \<and> w_socks w' = w_socks w + 1
        \<and> (\<exists>ip ips. resolved_ips ctx = ip # ips \<and> w_log w' = w_log w @ [Bound (w_socks w) (local_bind_for ip)])
    \<or> stun_asked ctx w r ctx' w'"
proof (cases "ctx_port ctx = None \<or> resolved_ips ctx = []")
  case True
  then show ?thesis using assms by (auto simp: stun_run_def skip_result_def split: option.splits list.splits)
next
  case False
  then obtain port ip ips where p: "ctx_port ctx = Some port" and i: "resolved_ips ctx = ip # ips"
    by (auto simp: neq_Nil_conv)
  obtain t0 w1 where 1: "instant_now w = (t0, w1)" by fastforce
  obtain cl st w2 where 2: "next_seed w1 = ((cl, st), w2)" by (metis surj_pair)
  obtain txid request where b: "build_binding_request cl st = (txid, request)" by fastforce
  obtain bound w3 where 3: "udp_bind (local_bind_for ip) w2 = (bound, w3)" by fastforce
  obtain sent w4 where 4: "udp_send (w_socks w) request (sock_new ip port) w3 = (sent, w4)" by fastforce
  obtain got w5 where 5: "udp_recv (w_socks w) (recv_timeout_of ctx) w4 = (got, w5)" by fastforce
  note steps = instant_now_step [OF 1] next_seed_step [OF 2] udp_bind_step [OF 3] udp_send_step [OF 4] udp_recv_step [OF 5]
  have in4: "w_inbox w3 = w_inbox w" "w_inbox w4 = w_inbox w"
    using instant_now_inbox [OF 1] next_seed_inbox [OF 2] udp_bind_inbox [OF 3] udp_send_inbox [OF 4] by simp_all
  note run = assms [unfolded stun_run_def, simplified p i option.case list.case Let_def 1 2 b 3 prod.case]
  consider (none) e where "bound = Inl e" | (unsent) e where "bound = Inr (w_socks w)" "sent = Some e"
    | (asked) "bound = Inr (w_socks w)" "sent = None" using steps by (cases bound; cases sent) auto
  then show ?thesis
  proof cases
    case none
    then show ?thesis using run steps in4 by (auto dest: fail_now_Ok fail_now_inbox)
  next
    case unsent
    then show ?thesis using run steps in4 4 i by (auto dest: fail_now_Ok fail_now_inbox)
  next
    case asked
    have fin: "w_log w' = w_log w5 \<and> w_socks w' = w_socks w5 \<and> w_inbox w' = w_inbox w5"
      using run 4 asked 5
      by (auto split: recv_result.splits res.splits prod.splits
          dest: fail_now_Ok fail_now_inbox elapsed_ms_step elapsed_ms_inbox)
    have "\<exists>t msg from rest srflx. w_inbox w (w_socks w) = (t, Inr (msg, from)) # rest
        \<and> parse_binding_response (take 1500 msg) txid = Ok srflx
        \<and> ctx' = ctx\<lparr>scratch := (scratch ctx)(''srflx'' \<mapsto> show_sock srflx)\<rparr>" if pass: "r_status r = Pass"
    proof -
      obtain buf src where g: "got = RecvOk buf src" using run 4 asked 5 pass by (cases got) (auto dest: fail_now_Ok)
      obtain srflx where o: "parse_binding_response buf txid = Ok srflx"
        "ctx' = ctx\<lparr>scratch := (scratch ctx)(''srflx'' \<mapsto> show_sock srflx)\<rparr>"
        using run 4 asked 5 g pass by (auto split: res.splits prod.splits)
      from udp_recv_inbox [OF 5 [unfolded g]] o in4 show ?thesis by auto
    qed
    moreover have "w_log w' = w_log w @ [Bound (w_socks w) (local_bind_for ip), Sent (w_socks w) request (sock_new ip port)]"
      "w_socks w' = w_socks w + 1" "\<forall>s. s \<noteq> w_socks w \<longrightarrow> w_inbox w' s = w_inbox w s"
      using steps asked fin in4 udp_recv_others [OF 5] by auto
    ultimately have "stun_asked ctx w r ctx' w'" unfolding stun_asked_def using p i b by blast
    then show ?thesis by blast
  qed
qed

text \<open>What a passed check sent, received and recorded.\<close>

lemma stun_run_pass:
  assumes "stun_run ctx w = Ok (r, ctx', w')"
  shows "if r_status r = Pass
    then \<exists>ip ips port clock stack_addr txid request t msg from rest srflx.
        resolved_ips ctx = ip # ips \<and> ctx_port ctx = Some port
        \<and> build_binding_request clock stack_addr = (txid, request)
        \<and> w_log w' = w_log w @ [Bound (w_socks w) (local_bind_for ip), Sent (w_socks w) request (sock_new ip port)]
        \<and> w_inbox w (w_socks w) = (t, Inr (msg, from)) # rest
        \<and> parse_binding_response (take 1500 msg) txid = Ok srflx
        \<and> ctx' = ctx\<lparr>scratch := (scratch ctx)(''srflx'' \<mapsto> show_sock srflx)\<rparr>
    else ctx' = ctx"
proof (cases "r_status r = Pass")
  case False
  then show ?thesis using stun_run_cases [OF assms] by simp
next
  case True
  then have "stun_asked ctx w r ctx' w'" using stun_run_stages [OF assms] by blast
  then show ?thesis using True unfolding stun_asked_def by (simp only: if_P simp_thms) blast
qed

section \<open>Properties\<close>

text \<open>A Binding success response is read as the address in its first address attribute: any
  attributes that are no address may precede it and anything may follow, and an
  XOR-MAPPED-ADDRESS in that place gives back the address the server encoded.\<close>

theorem binding_response_roundtrip:
  assumes "length txid = 12"
    and "as = pre @ \<lparr>attr_type = XOR_MAPPED_ADDRESS, attr_value = build_xor_address srflx txid\<rparr> # post"
    and "\<forall>a \<in> set pre. attr_type a \<notin> {XOR_MAPPED_ADDRESS, MAPPED_ADDRESS}"
    and "\<forall>a \<in> set as. attr_fits a" and "length (concat (map enc_attr as)) < 65536"
  shows "parse_binding_response (message BINDING_SUCCESS txid (concat (map enc_attr as))) txid =
           Ok (sock_new (sock_ip srflx) (sock_port srflx))"
  using parse_binding_response_first [OF assms] by (simp add: sock_norm_def)

theorem binding_response_roundtrip_witness:
  "parse_binding_response (message BINDING_SUCCESS (replicate 12 1)
     (concat (map enc_attr [\<lparr>attr_type = XOR_MAPPED_ADDRESS,
                            attr_value = build_xor_address (SockV4 0xC0000201 1234) (replicate 12 1)\<rparr>])))
     (replicate 12 1) = Ok (SockV4 0xC0000201 1234)"
  using binding_response_roundtrip [of "replicate 12 1" _ "[]" "SockV4 0xC0000201 1234" "[]", OF _ refl]
  by (simp add: attr_fits_def length_enc_attr length_build_xor_address pad4_def)

text \<open>C27: A passed STUN check sent exactly one datagram, the Binding request, from a fresh socket
  of the server's address family to the first resolved address; the first datagram that
  arrived on that socket, cut to 1500 bytes, parsed under the request's transaction id,
  and the address it carried is what the context now holds as \<open>srflx\<close>.  A check that did
  not pass leaves the context unchanged.\<close>

theorem stun_pass_means:
  assumes "stun_run ctx w = Ok (r, ctx', w')"
  shows "if r_status r = Pass
    then \<exists>ip ips port clock stack_addr txid request t msg from rest srflx.
        resolved_ips ctx = ip # ips \<and> ctx_port ctx = Some port
        \<and> build_binding_request clock stack_addr = (txid, request)
        \<and> w_log w' = w_log w @ [Bound (w_socks w) (local_bind_for ip), Sent (w_socks w) request (sock_new ip port)]
        \<and> w_inbox w (w_socks w) = (t, Inr (msg, from)) # rest
        \<and> parse_binding_response (take 1500 msg) txid = Ok srflx
        \<and> ctx' = ctx\<lparr>scratch := (scratch ctx)(''srflx'' \<mapsto> show_sock srflx)\<rparr>
    else ctx' = ctx"
  by (rule stun_run_pass [OF assms])

theorem stun_pass_means_witness:
  "\<exists>r ctx' w' txid srflx. stun_run example_ctx example_world = Ok (r, ctx', w')
     \<and> parse_binding_response example_binding_reply txid = Ok srflx
     \<and> ctx' = example_ctx\<lparr>scratch := (scratch example_ctx)(''srflx'' \<mapsto> show_sock srflx)\<rparr>"
proof -
  obtain r ctx' w' where run: "stun_run example_ctx example_world = Ok (r, ctx', w')"
    and "r_status r = Pass" using example_stun_pass by blast
  then obtain clock stack_addr txid request srflx
    where b: "build_binding_request clock stack_addr = (txid, request)"
      and p: "parse_binding_response (take 1500 example_binding_reply) txid = Ok srflx"
      and c: "ctx' = example_ctx\<lparr>scratch := (scratch example_ctx)(''srflx'' \<mapsto> show_sock srflx)\<rparr>"
    using stun_pass_means [OF run] by (auto simp: example_world_def)
  have t: "take 1500 example_binding_reply = example_binding_reply"
    using length_example_binding_reply by simp
  show ?thesis using run p c by (auto simp: t)
qed

end
