(* ===== verification/Turn_Alloc.thy ===== *)
theory Turn_Alloc
  imports Stun_Check
begin

text \<open>
  The TURN allocation check over UDP, \<open>crates/probe-core/src/checks/turn_alloc.rs\<close>: an
  unauthenticated Allocate, whose 401 answer carries realm and nonce, and then, when
  credentials were given, the authenticated Allocate.  Only an authenticated grant is
  recorded as a session in the context.
\<close>

section \<open>The check\<close>

definition turn_alloc_id :: string where "turn_alloc_id = ''turn.alloc.udp''"
definition turn_alloc_name :: string where "turn_alloc_name = ''TURN allocation (UDP)''"

text \<open>The long dash in the summaries, in UTF-8.\<close>

definition dash :: string where "dash = [CHR 0xE2, CHR 0x80, CHR 0x94]"

abbreviation alloc_fail :: "nat \<Rightarrow> string \<Rightarrow> probe_ctx \<Rightarrow> world \<Rightarrow> run_outcome" where
  "alloc_fail \<equiv> fail_now turn_alloc_id turn_alloc_name"

text \<open>Round 2: the authenticated request and its answer.\<close>

definition turn_alloc_round2 ::
  "crypto \<Rightarrow> nat \<Rightarrow> nat \<Rightarrow> sockaddr \<Rightarrow> string \<Rightarrow> bytes \<Rightarrow> string \<Rightarrow> string \<Rightarrow> probe_ctx \<Rightarrow> world \<Rightarrow> run_outcome"
where
  "turn_alloc_round2 c started sock server realm nonce user pass ctx w =
     (let key = long_term_key c user realm pass;
          ((clock, stack_addr), w) = next_seed w
      in bind_res (build_allocate_authed c clock stack_addr user realm nonce key) (\<lambda>(txid2, req2).
     (let (sent, w) = udp_send sock req2 server w
      in case sent of
           Some e \<Rightarrow> alloc_fail started (''send (authed) to '' @ show_sock server @ '' failed: '' @ e) ctx w
         | None \<Rightarrow>
     (let (got, w) = udp_recv sock (recv_timeout_of ctx) w
      in case got of
           RecvErr e \<Rightarrow> alloc_fail started (''recv (authed) failed: '' @ e) ctx w
         | RecvTimeout \<Rightarrow>
             alloc_fail started (''no authed Allocate response in '' @ show_duration (recv_timeout_of ctx)) ctx w
         | RecvOk buf src \<Rightarrow>
     (case parse_allocate_response buf txid2 of
        Panic \<Rightarrow> Panic
      | Err e \<Rightarrow> alloc_fail started (''malformed authed Allocate response: '' @ show_allocate_error e) ctx w
      | Ok outcome2 \<Rightarrow>
     (let (ms, w) = elapsed_ms started w
      in case outcome2 of
           AllocSuccess relayed lifetime \<Rightarrow>
             Ok (with_detail
                   (pass_result turn_alloc_id turn_alloc_name ms
                      (''relay '' @ show_sock relayed @ '' (lifetime '' @ show_word lifetime @ ''s, ''
                         @ show_word ms @ '' ms)''))
                   (JObj [(''server'', JStr (show_sock server)), (''relayed'', JStr (show_sock relayed)),
                          (''lifetime_s'', JNum (unat lifetime)), (''realm'', JStr realm),
                          (''auth'', JStr ''long-term'')]),
                 ctx\<lparr>scratch := (scratch ctx)(''relayed'' \<mapsto> show_sock relayed),
                     ctx_session := Some \<lparr>ts_socket = sock, ts_server = server, ts_relayed = relayed,
                       ts_realm = realm, ts_nonce = nonce, ts_key = key, ts_username = user\<rparr>\<rparr>, w)
         | Unauthorized _ _ \<Rightarrow>
             Ok (fail_result turn_alloc_id turn_alloc_name ms
                   ''server rejected long-term credentials (401 after auth)'', ctx, w)
         | AllocError code reason \<Rightarrow>
             Ok (fail_result turn_alloc_id turn_alloc_name ms
                   (''allocate rejected: '' @ show_word code @ '' '' @ reason), ctx, w)))))))"

text \<open>After the first answer: anonymous grant, error, or challenge.\<close>

definition turn_alloc_challenged ::
  "crypto \<Rightarrow> nat \<Rightarrow> nat \<Rightarrow> sockaddr \<Rightarrow> allocate_outcome \<Rightarrow> probe_ctx \<Rightarrow> world \<Rightarrow> run_outcome"
where
  "turn_alloc_challenged c started sock server outcome1 ctx w =
     (case outcome1 of
        AllocSuccess relayed _ \<Rightarrow>
          (let (ms, w) = elapsed_ms started w
           in Ok (with_detail
                    (pass_result turn_alloc_id turn_alloc_name ms
                       (''relay '' @ show_sock relayed @ '' (anonymous alloc, '' @ show_word ms @ '' ms)''))
                    (JObj [(''server'', JStr (show_sock server)), (''relayed'', JStr (show_sock relayed)),
                           (''auth'', JStr ''none'')]),
                  ctx\<lparr>scratch := (scratch ctx)(''relayed'' \<mapsto> show_sock relayed)\<rparr>, w))
      | AllocError code reason \<Rightarrow>
          (let (ms, w) = elapsed_ms started w
           in Ok (fail_result turn_alloc_id turn_alloc_name ms
                    (''server returned '' @ show_word code @ '' '' @ reason), ctx, w))
      | Unauthorized realm nonce \<Rightarrow>
          (case (turn_user ctx, turn_pass ctx) of
             (Some user, Some pass) \<Rightarrow> turn_alloc_round2 c started sock server realm nonce user pass ctx w
           | _ \<Rightarrow>
               (let (ms, w) = elapsed_ms started w
                in Ok (with_detail
                         (warn_result turn_alloc_id turn_alloc_name ms
                            (''auth challenge from realm '' @ [CHR 34] @ realm @ [CHR 34] @ '' '' @ dash
                               @ '' no --user/--pass supplied''))
                         (JObj [(''server'', JStr (show_sock server)), (''realm'', JStr realm),
                                (''auth'', JStr ''challenge-only'')]), ctx, w))))"

text \<open>Round 1: the unauthenticated request and its answer.\<close>

definition turn_alloc_round1 :: "crypto \<Rightarrow> nat \<Rightarrow> nat \<Rightarrow> sockaddr \<Rightarrow> probe_ctx \<Rightarrow> world \<Rightarrow> run_outcome" where
  "turn_alloc_round1 c started sock server ctx w =
     (let ((clock, stack_addr), w) = next_seed w
      in bind_res (build_allocate_unauth clock stack_addr) (\<lambda>(txid1, req1).
     (let (sent, w) = udp_send sock req1 server w
      in case sent of
           Some e \<Rightarrow> alloc_fail started (''send (unauth) to '' @ show_sock server @ '' failed: '' @ e) ctx w
         | None \<Rightarrow>
     (let (got, w) = udp_recv sock (recv_timeout_of ctx) w
      in case got of
           RecvErr e \<Rightarrow> alloc_fail started (''recv (unauth) failed: '' @ e) ctx w
         | RecvTimeout \<Rightarrow>
             alloc_fail started (''no Allocate response from '' @ show_sock server @ '' in ''
               @ show_duration (recv_timeout_of ctx)) ctx w
         | RecvOk buf src \<Rightarrow>
     (case parse_allocate_response buf txid1 of
        Panic \<Rightarrow> Panic
      | Err e \<Rightarrow> alloc_fail started (''malformed Allocate response: '' @ show_allocate_error e) ctx w
      | Ok outcome1 \<Rightarrow> turn_alloc_challenged c started sock server outcome1 ctx w)))))"

definition turn_alloc_run :: "crypto \<Rightarrow> probe_ctx \<Rightarrow> world \<Rightarrow> run_outcome" where
  "turn_alloc_run c ctx w =
     (case ctx_port ctx of
        None \<Rightarrow> Ok (skip_result turn_alloc_id turn_alloc_name ''no port supplied'', ctx, w)
      | Some port \<Rightarrow>
     (case resolved_ips ctx of
        [] \<Rightarrow> Ok (skip_result turn_alloc_id turn_alloc_name ''no resolved IP'', ctx, w)
      | ip # _ \<Rightarrow>
     (let server = sock_new ip port;
          (started, w) = instant_now w;
          (bound, w) = udp_bind (local_bind_for ip) w
      in case bound of
           Inl e \<Rightarrow> alloc_fail started (''local UDP bind failed: '' @ e) ctx w
         | Inr sock \<Rightarrow> turn_alloc_round1 c started sock server ctx w)))"

definition turn_alloc_check :: "crypto \<Rightarrow> check" where
  "turn_alloc_check c =
     \<lparr>c_id = turn_alloc_id, c_name = turn_alloc_name, c_requires = [dns_id], c_run = turn_alloc_run c\<rparr>"

section \<open>Lemmas\<close>

lemma attach_mi_total: "20 \<le> length msg \<Longrightarrow> \<exists>m. attach_message_integrity c msg key = Ok m"
  by (simp add: attach_message_integrity_def copy_into_def Let_def)

lemma build_allocate_authed_total:
  "\<exists>msg. build_allocate_authed c t s u r n key = Ok (new_txid t s, msg)"
proof -
  have "20 \<le> length (append_attr (append_attr (append_attr (append_attr
      (stun_header ALLOCATE_REQUEST (new_txid t s)) REQUESTED_TRANSPORT (to_be 4 TRANSPORT_UDP))
      USERNAME (as_bytes u)) REALM (as_bytes r)) NONCE n)"
    by (simp add: append_attr_def stun_header_def)
  from attach_mi_total [OF this, of c key] show ?thesis
    by (auto simp: build_allocate_authed_def Let_def)
qed

lemma turn_alloc_round2_total: "\<exists>r ctx' w'. turn_alloc_round2 c st sock sv rl nc us pw ctx w = Ok (r, ctx', w')"
proof -
  obtain cl sa w1 where 1: "next_seed w = ((cl, sa), w1)" by (metis surj_pair)
  obtain msg where "build_allocate_authed c cl sa us rl nc (long_term_key c us rl pw) = Ok (new_txid cl sa, msg)"
    using build_allocate_authed_total by blast
  with 1 show ?thesis
    using fail_now_total
    by (auto simp: turn_alloc_round2_def Let_def parse_allocate_response_no_panic
        split: option.splits prod.splits recv_result.splits res.splits allocate_outcome.splits)
qed

lemma turn_alloc_challenged_total: "\<exists>r ctx' w'. turn_alloc_challenged c st sock sv o1 ctx w = Ok (r, ctx', w')"
  using turn_alloc_round2_total
  by (auto simp: turn_alloc_challenged_def Let_def split: option.splits prod.splits allocate_outcome.splits)

lemma turn_alloc_round1_total: "\<exists>r ctx' w'. turn_alloc_round1 c st sock sv ctx w = Ok (r, ctx', w')"
  using fail_now_total turn_alloc_challenged_total
  by (auto simp: turn_alloc_round1_def Let_def parse_allocate_response_no_panic build_allocate_unauth_message
      split: option.splits prod.splits recv_result.splits res.splits)

lemma turn_alloc_run_total: "\<exists>r ctx' w'. turn_alloc_run c ctx w = Ok (r, ctx', w')"
  using fail_now_total turn_alloc_round1_total
  by (auto simp: turn_alloc_run_def Let_def split: option.splits list.splits sum.splits prod.splits)

text \<open>What round 2 does: at most one datagram, the authenticated request; a session when it passes.\<close>

lemma turn_alloc_round2_cases:
  assumes "turn_alloc_round2 c st sock sv rl nc us pw ctx w = Ok (r, ctx', w')"
  shows "r_id r = turn_alloc_id \<and> r_name r = turn_alloc_name \<and> later w w' \<and> r_status r \<in> {Pass, Fail}
    \<and> (\<exists>cl sa txid req. build_allocate_authed c cl sa us rl nc (long_term_key c us rl pw) = Ok (txid, req)
        \<and> (w_log w' = w_log w \<and> r_status r = Fail \<or> w_log w' = w_log w @ [Sent sock req sv]))
    \<and> (if r_status r = Pass
       then \<exists>relayed. ctx' = ctx\<lparr>scratch := (scratch ctx)(''relayed'' \<mapsto> show_sock relayed),
              ctx_session := Some \<lparr>ts_socket = sock, ts_server = sv, ts_relayed = relayed, ts_realm = rl,
                ts_nonce = nc, ts_key = long_term_key c us rl pw, ts_username = us\<rparr>\<rparr>
       else ctx' = ctx)"
proof -
  obtain cl sa w1 where 1: "next_seed w = ((cl, sa), w1)" by (metis surj_pair)
  obtain msg where m: "build_allocate_authed c cl sa us rl nc (long_term_key c us rl pw) = Ok (new_txid cl sa, msg)"
    using build_allocate_authed_total by blast
  obtain sent w2 where 2: "udp_send sock msg sv w1 = (sent, w2)" by fastforce
  note steps = next_seed_step [OF 1] udp_send_step [OF 2]
  note run = assms [unfolded turn_alloc_round2_def, simplified Let_def 1 2 m prod.case bind_res.simps]
  show ?thesis
  proof (cases sent)
    case (Some e)
    then show ?thesis using run steps m by (auto simp: later_def dest!: fail_now_Ok) blast+
  next
    case n: None
    obtain got w3 where 3: "udp_recv sock (recv_timeout_of ctx) w2 = (got, w3)" by fastforce
    have lg: "w_log w3 = w_log w @ [Sent sock msg sv]" "w_now w \<le> w_now w3" "w_socks w3 = w_socks w"
      using steps n udp_recv_step [OF 3] by auto
    have "r_id r = turn_alloc_id \<and> r_name r = turn_alloc_name \<and> r_status r \<in> {Pass, Fail}
        \<and> w_log w' = w_log w3 \<and> w_now w3 \<le> w_now w' \<and> w_socks w' = w_socks w3
        \<and> (if r_status r = Pass
           then \<exists>relayed. ctx' = ctx\<lparr>scratch := (scratch ctx)(''relayed'' \<mapsto> show_sock relayed),
                  ctx_session := Some \<lparr>ts_socket = sock, ts_server = sv, ts_relayed = relayed, ts_realm = rl,
                    ts_nonce = nc, ts_key = long_term_key c us rl pw, ts_username = us\<rparr>\<rparr>
           else ctx' = ctx)"
      using run n 3
      by (auto split: recv_result.splits res.splits allocate_outcome.splits prod.splits
          dest!: elapsed_ms_step fail_now_Ok)
    then show ?thesis using m lg unfolding later_def by auto
  qed
qed

text \<open>A passed round 2 rests on the next datagram of the socket, a grant.\<close>

lemma turn_alloc_round2_pass:
  assumes "turn_alloc_round2 c st sock sv rl nc us pw ctx w = Ok (r, ctx', w')" and "r_status r = Pass"
  shows "\<exists>cl sa tx req t msg src rest relayed lifetime.
      build_allocate_authed c cl sa us rl nc (long_term_key c us rl pw) = Ok (tx, req) \<and> w_log w' = w_log w @ [Sent sock req sv]
    \<and> w_inbox w sock = (t, Inr (msg, src)) # rest \<and> parse_allocate_response (take 1500 msg) tx = Ok (AllocSuccess relayed lifetime)
    \<and> ctx' = ctx\<lparr>scratch := (scratch ctx)(''relayed'' \<mapsto> show_sock relayed),
           ctx_session := Some \<lparr>ts_socket = sock, ts_server = sv, ts_relayed = relayed, ts_realm = rl,
             ts_nonce = nc, ts_key = long_term_key c us rl pw, ts_username = us\<rparr>\<rparr>"
proof -
  obtain cl sa w1 where 1: "next_seed w = ((cl, sa), w1)" by (metis surj_pair)
  obtain tx req where m: "build_allocate_authed c cl sa us rl nc (long_term_key c us rl pw) = Ok (tx, req)"
    using build_allocate_authed_total by blast
  obtain sent w2 where 2: "udp_send sock req sv w1 = (sent, w2)" by fastforce
  obtain got w3 where 3: "udp_recv sock (recv_timeout_of ctx) w2 = (got, w3)" by fastforce
  note run = assms(1) [unfolded turn_alloc_round2_def, simplified Let_def 1 2 m prod.case bind_res.simps]
  have n: "sent = None" using run assms(2) by (cases sent) (auto dest!: fail_now_Ok)
  then obtain buf src where g: "got = RecvOk buf src" using run 3 assms(2) by (cases got) (auto dest!: fail_now_Ok)
  obtain relayed lifetime where o: "parse_allocate_response buf tx = Ok (AllocSuccess relayed lifetime)"
    using run n 3 g assms(2) by (auto dest!: fail_now_Ok split: res.splits allocate_outcome.splits prod.splits)
  obtain ms w4 where 4: "elapsed_ms st w3 = (ms, w4)" by fastforce
  have "w_inbox w2 = w_inbox w" using next_seed_inbox [OF 1] udp_send_inbox [OF 2] by simp
  with udp_recv_inbox [OF 3 [unfolded g]] obtain t msg rest where
    b: "w_inbox w sock = (t, Inr (msg, src)) # rest" "buf = take 1500 msg" by auto
  have "w' = w4" and "ctx' = ctx\<lparr>scratch := (scratch ctx)(''relayed'' \<mapsto> show_sock relayed),
           ctx_session := Some \<lparr>ts_socket = sock, ts_server = sv, ts_relayed = relayed, ts_realm = rl,
             ts_nonce = nc, ts_key = long_term_key c us rl pw, ts_username = us\<rparr>\<rparr>"
    using run n 3 g o 4 by auto
  moreover have "w_log w4 = w_log w @ [Sent sock req sv]"
    using next_seed_step [OF 1] udp_send_step [OF 2] udp_recv_step [OF 3] elapsed_ms_step [OF 4] n by simp
  ultimately show ?thesis using m o b by blast
qed

lemma turn_alloc_challenged_cases:
  assumes "turn_alloc_challenged c st sock sv o1 ctx w = Ok (r, ctx', w')"
  shows "r_id r = turn_alloc_id \<and> r_name r = turn_alloc_name \<and> later w w' \<and> r_status r \<noteq> Skip
    \<and> (case o1 of
         AllocSuccess relayed _ \<Rightarrow> r_status r = Pass \<and> w_log w' = w_log w
           \<and> ctx' = ctx\<lparr>scratch := (scratch ctx)(''relayed'' \<mapsto> show_sock relayed)\<rparr>
       | AllocError _ _ \<Rightarrow> r_status r = Fail \<and> w_log w' = w_log w \<and> ctx' = ctx
       | Unauthorized realm nonce \<Rightarrow>
           (case (turn_user ctx, turn_pass ctx) of
              (Some user, Some pass) \<Rightarrow> turn_alloc_round2 c st sock sv realm nonce user pass ctx w = Ok (r, ctx', w')
            | _ \<Rightarrow> r_status r = Warn \<and> w_log w' = w_log w \<and> ctx' = ctx))"
  using assms
  by (auto simp: turn_alloc_challenged_def Let_def later_def
      split: option.splits prod.splits allocate_outcome.splits
      dest!: elapsed_ms_step dest: turn_alloc_round2_cases [unfolded later_def])

text \<open>The effects of the first round: binding a socket, and an unauthenticated Allocate to the server.\<close>

definition first_round_effect :: "probe_ctx \<Rightarrow> effect \<Rightarrow> bool" where
  "first_round_effect ctx e =
     (case e of
        Bound _ _ \<Rightarrow> True
      | Sent _ m d \<Rightarrow>
          (\<exists>ip ips port. resolved_ips ctx = ip # ips \<and> ctx_port ctx = Some port \<and> d = sock_new ip port)
          \<and> (\<exists>cl sa tx. build_allocate_unauth cl sa = Ok (tx, m))
      | _ \<Rightarrow> False)"

lemma first_round_effect_Bound [simp]: "first_round_effect ctx (Bound s a)"
  by (simp add: first_round_effect_def)

lemma first_round_effect_Sent:
  "resolved_ips ctx = ip # ips \<Longrightarrow> ctx_port ctx = Some port \<Longrightarrow> build_allocate_unauth cl sa = Ok (tx, m) \<Longrightarrow>
   first_round_effect ctx (Sent s m (sock_new ip port))"
  by (auto simp: first_round_effect_def)

text \<open>Binding the socket: nothing was done, or round 1 runs on a fresh socket.\<close>

lemma turn_alloc_run_start:
  assumes "turn_alloc_run c ctx w = Ok (r, ctx', w')"
  shows "(r_id r = turn_alloc_id \<and> r_name r = turn_alloc_name \<and> later w w' \<and> ctx' = ctx \<and> r_status r \<in> {Skip, Fail}
          \<and> w_log w' = w_log w)
    \<or> (\<exists>ip ips port started w1. resolved_ips ctx = ip # ips \<and> ctx_port ctx = Some port
         \<and> later w w1 \<and> w_log w1 = w_log w @ [Bound (w_socks w) (local_bind_for ip)] \<and> w_inbox w1 = w_inbox w
         \<and> turn_alloc_round1 c started (w_socks w) (sock_new ip port) ctx w1 = Ok (r, ctx', w'))"
proof (cases "ctx_port ctx = None \<or> resolved_ips ctx = []")
  case True
  then show ?thesis using assms by (auto simp: turn_alloc_run_def split: option.splits list.splits)
next
  case False
  then obtain port ip ips where p: "ctx_port ctx = Some port" and i: "resolved_ips ctx = ip # ips"
    by (auto simp: neq_Nil_conv)
  obtain t0 w1 where 1: "instant_now w = (t0, w1)" by fastforce
  obtain bound w2 where 2: "udp_bind (local_bind_for ip) w1 = (bound, w2)" by fastforce
  note steps = instant_now_step [OF 1] udp_bind_step [OF 2]
  have "w_inbox w2 = w_inbox w" using instant_now_inbox [OF 1] udp_bind_inbox [OF 2] by simp
  then show ?thesis using assms p i 1 2 steps
    by (cases bound) (auto simp: turn_alloc_run_def later_def dest!: fail_now_Ok)
qed

text \<open>Round 1: it fails before an outcome is known, or decides on the outcome.\<close>

lemma turn_alloc_round1_cases:
  assumes "turn_alloc_round1 c st sock sv ctx w = Ok (r, ctx', w')"
  shows "\<exists>cl sa txid1 req1. build_allocate_unauth cl sa = Ok (txid1, req1)
    \<and> (r_id r = turn_alloc_id \<and> r_name r = turn_alloc_name \<and> later w w' \<and> ctx' = ctx \<and> r_status r = Fail
         \<and> (w_log w' = w_log w \<or> w_log w' = w_log w @ [Sent sock req1 sv])
      \<or> (\<exists>t msg src rest outcome1 w1. later w w1 \<and> w_log w1 = w_log w @ [Sent sock req1 sv]
         \<and> w_inbox w sock = (t, Inr (msg, src)) # rest \<and> w_inbox w1 sock = rest
         \<and> parse_allocate_response (take 1500 msg) txid1 = Ok outcome1
         \<and> turn_alloc_challenged c st sock sv outcome1 ctx w1 = Ok (r, ctx', w')))"
proof -
  obtain cl sa w1 where 1: "next_seed w = ((cl, sa), w1)" by (metis surj_pair)
  obtain txid req where u: "build_allocate_unauth cl sa = Ok (txid, req)" by (simp add: build_allocate_unauth_message)
  obtain sent w2 where 2: "udp_send sock req sv w1 = (sent, w2)" by fastforce
  obtain got w3 where 3: "udp_recv sock (recv_timeout_of ctx) w2 = (got, w3)" by fastforce
  note steps = next_seed_step [OF 1] udp_send_step [OF 2] udp_recv_step [OF 3]
  note run = assms [unfolded turn_alloc_round1_def, simplified Let_def 1 u 2 prod.case bind_res.simps]
  show ?thesis
  proof (cases "sent = None \<and> (\<exists>buf src o1. got = RecvOk buf src \<and> parse_allocate_response buf txid = Ok o1)")
    case True
    then obtain buf src o1 where g: "sent = None" "got = RecvOk buf src"
      and o1: "parse_allocate_response buf txid = Ok o1" by blast
    then have ch: "turn_alloc_challenged c st sock sv o1 ctx w3 = Ok (r, ctx', w')" using run 3 by simp
    have "w_inbox w2 = w_inbox w" using next_seed_inbox [OF 1] udp_send_inbox [OF 2] by simp
    with udp_recv_inbox [OF 3 [unfolded g(2)]] obtain t msg rest where
      "w_inbox w sock = (t, Inr (msg, src)) # rest" "buf = take 1500 msg" "w_inbox w3 sock = rest" by auto
    moreover have "later w w3" "w_log w3 = w_log w @ [Sent sock req sv]" using steps g by (auto simp: later_def)
    ultimately show ?thesis using u ch o1 by blast
  next
    case False
    have "r_id r = turn_alloc_id \<and> r_name r = turn_alloc_name \<and> later w w' \<and> ctx' = ctx \<and> r_status r = Fail
        \<and> (w_log w' = w_log w \<or> w_log w' = w_log w @ [Sent sock req sv])"
    proof (cases sent)
      case (Some e)
      then show ?thesis using run steps by (auto simp: later_def dest!: fail_now_Ok)
    next
      case None
      then show ?thesis using run steps 3 False
        by (auto simp: later_def split: recv_result.splits res.splits dest!: fail_now_Ok)
    qed
    then show ?thesis using u by blast
  qed
qed

text \<open>The whole check either ends before an outcome is known, or decides on the first outcome.\<close>

lemma turn_alloc_run_cases:
  assumes "turn_alloc_run c ctx w = Ok (r, ctx', w')"
  shows "(r_id r = turn_alloc_id \<and> r_name r = turn_alloc_name \<and> later w w' \<and> ctx' = ctx
          \<and> r_status r \<in> {Skip, Fail}
          \<and> (\<exists>es. w_log w' = w_log w @ es \<and> (\<forall>e \<in> set es. first_round_effect ctx e)))
    \<or> (\<exists>ip ips port sock started outcome1 txid1 req1 w1.
         resolved_ips ctx = ip # ips \<and> ctx_port ctx = Some port \<and> sock = w_socks w
         \<and> later w w1
         \<and> w_log w1 = w_log w @ [Bound sock (local_bind_for ip), Sent sock req1 (sock_new ip port)]
         \<and> (\<exists>cl sa. build_allocate_unauth cl sa = Ok (txid1, req1))
         \<and> (\<exists>t msg src rest. w_inbox w sock = (t, Inr (msg, src)) # rest \<and> w_inbox w1 sock = rest
              \<and> parse_allocate_response (take 1500 msg) txid1 = Ok outcome1)
         \<and> turn_alloc_challenged c started sock (sock_new ip port) outcome1 ctx w1 = Ok (r, ctx', w'))"
  using turn_alloc_run_start [OF assms]
proof (elim disjE exE conjE)
  fix ip ips port started w1
  assume i: "resolved_ips ctx = ip # ips" "ctx_port ctx = Some port"
    and w1: "later w w1" "w_log w1 = w_log w @ [Bound (w_socks w) (local_bind_for ip)]" "w_inbox w1 = w_inbox w"
    and r1: "turn_alloc_round1 c started (w_socks w) (sock_new ip port) ctx w1 = Ok (r, ctx', w')"
  from turn_alloc_round1_cases [OF r1] show ?thesis
  proof (elim exE conjE disjE)
    fix cl sa txid1 req1 t msg src rest outcome1 w2
    assume "build_allocate_unauth cl sa = Ok (txid1, req1)" "later w1 w2" "w_log w2 = w_log w1 @ [Sent (w_socks w) req1 (sock_new ip port)]"
      "w_inbox w1 (w_socks w) = (t, Inr (msg, src)) # rest" "w_inbox w2 (w_socks w) = rest"
      "parse_allocate_response (take 1500 msg) txid1 = Ok outcome1"
      "turn_alloc_challenged c started (w_socks w) (sock_new ip port) outcome1 ctx w2 = Ok (r, ctx', w')"
    moreover have "later w w2" using w1(1) calculation(2) by (rule later_trans)
    ultimately show ?thesis using i w1 by (intro disjI2) fastforce
  qed (use i w1 first_round_effect_Sent [OF i] in \<open>auto intro: later_trans\<close>)
qed auto

lemma turn_alloc_run_ids:
  assumes "turn_alloc_run c ctx w = Ok (r, ctx', w')"
  shows "r_id r = turn_alloc_id \<and> r_name r = turn_alloc_name \<and> later w w'"
  using turn_alloc_run_cases [OF assms] by (auto dest!: turn_alloc_challenged_cases intro: later_trans)

lemma turn_alloc_challenged_ctx:
  assumes "turn_alloc_challenged c st sock sv o1 ctx w = Ok (r, ctx', w')"
  shows "ctx' = ctx \<and> r_status r \<noteq> Pass
    \<or> (\<exists>relayed. r_status r = Pass \<and> ctx' = ctx\<lparr>scratch := (scratch ctx)(''relayed'' \<mapsto> show_sock relayed)\<rparr>)
    \<or> (\<exists>s user pass. r_status r = Pass \<and> turn_user ctx = Some user \<and> turn_pass ctx = Some pass
         \<and> ctx' = ctx\<lparr>scratch := (scratch ctx)(''relayed'' \<mapsto> show_sock (ts_relayed s)), ctx_session := Some s\<rparr>
         \<and> ts_server s = sv \<and> ts_socket s = sock \<and> ts_username s = user
         \<and> ts_key s = long_term_key c user (ts_realm s) pass)"
proof (cases o1)
  case (Unauthorized realm nonce)
  show ?thesis
  proof (cases "turn_user ctx = None \<or> turn_pass ctx = None")
    case True
    then show ?thesis using turn_alloc_challenged_cases [OF assms] Unauthorized by (auto split: option.splits)
  next
    case False
    then obtain user pass where up: "turn_user ctx = Some user" "turn_pass ctx = Some pass" by auto
    then have r2: "turn_alloc_round2 c st sock sv realm nonce user pass ctx w = Ok (r, ctx', w')"
      using turn_alloc_challenged_cases [OF assms] Unauthorized by simp
    show ?thesis
    proof (cases "r_status r = Pass")
      case True
      with turn_alloc_round2_cases [OF r2] obtain relayed where
        "ctx' = ctx\<lparr>scratch := (scratch ctx)(''relayed'' \<mapsto> show_sock relayed),
           ctx_session := Some \<lparr>ts_socket = sock, ts_server = sv, ts_relayed = relayed, ts_realm = realm,
             ts_nonce = nonce, ts_key = long_term_key c user realm pass, ts_username = user\<rparr>\<rparr>" by auto
      with True up show ?thesis
        by (intro disjI2 exI [of _ "\<lparr>ts_socket = sock, ts_server = sv, ts_relayed = relayed, ts_realm = realm,
             ts_nonce = nonce, ts_key = long_term_key c user realm pass, ts_username = user\<rparr>"]) auto
    next
      case False
      with turn_alloc_round2_cases [OF r2] show ?thesis by simp
    qed
  qed
qed (use turn_alloc_challenged_cases [OF assms] in auto)

lemma turn_alloc_run_config:
  assumes "turn_alloc_run c ctx w = Ok (r, ctx', w')"
  shows "ctx_config ctx' = ctx_config ctx"
  using turn_alloc_run_cases [OF assms]
  by (auto simp: ctx_config_def dest!: turn_alloc_challenged_ctx)

interpretation turn_alloc: check_contract "turn_alloc_check c" for c
proof unfold_locales
  fix ctx w r ctx' w'
  show "\<exists>r ctx' w'. c_run (turn_alloc_check c) ctx w = Ok (r, ctx', w')"
    using turn_alloc_run_total by (simp add: turn_alloc_check_def)
  assume "c_run (turn_alloc_check c) ctx w = Ok (r, ctx', w')"
  then have run: "turn_alloc_run c ctx w = Ok (r, ctx', w')" by (simp add: turn_alloc_check_def)
  show "r_id r = c_id (turn_alloc_check c) \<and> r_name r = c_name (turn_alloc_check c)"
    using turn_alloc_run_ids [OF run] by (simp add: turn_alloc_check_def)
  show "later w w'" using turn_alloc_run_ids [OF run] by simp
  show "ctx_config ctx' = ctx_config ctx" by (rule turn_alloc_run_config [OF run])
qed

section \<open>Properties\<close>

text \<open>C9: Everything the allocation check puts on the wire goes to the first resolved address, and
  is either an unauthenticated Allocate or, when both user and password were given and the
  server's first answer was a 401 challenge, the authenticated Allocate for exactly that
  challenge's realm and nonce, keyed with MD5 of user, realm and password.\<close>

theorem credentials_only_answer_challenge:
  assumes "turn_alloc_run c ctx w = Ok (r, ctx', w')"
  shows "\<exists>es. w_log w' = w_log w @ es \<and> (\<forall>e \<in> set es. first_round_effect ctx e
     \<or> (\<exists>ip ips port user pass realm nonce cl sa tx m tx1 t msg src rest.
          resolved_ips ctx = ip # ips \<and> ctx_port ctx = Some port
          \<and> turn_user ctx = Some user \<and> turn_pass ctx = Some pass
          \<and> e = Sent (w_socks w) m (sock_new ip port)
          \<and> w_inbox w (w_socks w) = (t, Inr (msg, src)) # rest
          \<and> parse_allocate_response (take 1500 msg) tx1 = Ok (Unauthorized realm nonce)
          \<and> build_allocate_authed c cl sa user realm nonce (long_term_key c user realm pass) = Ok (tx, m)))"
  using turn_alloc_run_cases [OF assms]
proof (elim disjE exE conjE)
  fix es assume "w_log w' = w_log w @ es" "\<forall>e \<in> set es. first_round_effect ctx e"
  then show ?thesis by blast
next
  fix ip ips port sock started o1 txid1 req1 w1 cl sa t msg src rest
  assume i: "resolved_ips ctx = ip # ips" and p: "ctx_port ctx = Some port" and s: "sock = w_socks w"
    and lg: "w_log w1 = w_log w @ [Bound sock (local_bind_for ip), Sent sock req1 (sock_new ip port)]"
    and u: "build_allocate_unauth cl sa = Ok (txid1, req1)"
    and inb: "w_inbox w sock = (t, Inr (msg, src)) # rest" "parse_allocate_response (take 1500 msg) txid1 = Ok o1"
    and ch: "turn_alloc_challenged c started sock (sock_new ip port) o1 ctx w1 = Ok (r, ctx', w')"
  have first: "\<forall>e \<in> set [Bound sock (local_bind_for ip), Sent sock req1 (sock_new ip port)]. first_round_effect ctx e"
    using first_round_effect_Sent [OF i p u] by simp
  show ?thesis
  proof (cases "w_log w' = w_log w1")
    case True
    with lg first show ?thesis by auto
  next
    case False
    then obtain realm nonce user pass where o1: "o1 = Unauthorized realm nonce"
      and up: "turn_user ctx = Some user" "turn_pass ctx = Some pass"
      and r2: "turn_alloc_round2 c started sock (sock_new ip port) realm nonce user pass ctx w1 = Ok (r, ctx', w')"
      using turn_alloc_challenged_cases [OF ch] by (auto split: allocate_outcome.splits option.splits)
    from turn_alloc_round2_cases [OF r2] False obtain cl2 sa2 tx2 req2
      where b: "build_allocate_authed c cl2 sa2 user realm nonce (long_term_key c user realm pass) = Ok (tx2, req2)"
        and lg2: "w_log w' = w_log w1 @ [Sent sock req2 (sock_new ip port)]" by auto
    have second: "\<exists>ip ips port user pass realm nonce cl sa tx m tx1 t msg src rest.
          resolved_ips ctx = ip # ips \<and> ctx_port ctx = Some port
          \<and> turn_user ctx = Some user \<and> turn_pass ctx = Some pass
          \<and> Sent (w_socks w) req2 (sock_new ip0 port0) = Sent (w_socks w) m (sock_new ip port)
          \<and> w_inbox w (w_socks w) = (t, Inr (msg, src)) # rest
          \<and> parse_allocate_response (take 1500 msg) tx1 = Ok (Unauthorized realm nonce)
          \<and> build_allocate_authed c cl sa user realm nonce (long_term_key c user realm pass) = Ok (tx, m)"
      if "ip0 = ip" "port0 = port" for ip0 port0
      using b i p inb o1 up unfolding that s by blast
    show ?thesis
      by (rule exI [of _ "[Bound sock (local_bind_for ip), Sent sock req1 (sock_new ip port),
            Sent sock req2 (sock_new ip port)]"])
         (use first lg lg2 s second [OF refl refl] in simp)
  qed
qed

text \<open>C25: Whether a passed allocation check opens a session is decided by the first datagram on the socket it
  bound, the answer to its unauthenticated request.  A grant records the relayed address as text and opens no
  session, with or without credentials, and nothing more is sent.  A challenge is passed only with both
  credentials, by the authenticated request for its realm and nonce and a second datagram that grants a relayed
  address; then that address is recorded, and the session holds the socket, the first resolved address as
  server, the relayed address, realm and nonce, and the key MD5 derives from user, realm and password.  No
  other first answer passes, and a check that does not pass changes nothing in the context.\<close>

theorem turn_alloc_session:
  assumes "turn_alloc_run c ctx w = Ok (r, ctx', w')"
  shows "if r_status r = Pass
    then \<exists>relayed ip ips port cl sa tx1 req1 es t1 msg1 src1 rest.
        resolved_ips ctx = ip # ips \<and> ctx_port ctx = Some port
      \<and> scratch ctx' = (scratch ctx)(''relayed'' \<mapsto> show_sock relayed)
      \<and> build_allocate_unauth cl sa = Ok (tx1, req1)
      \<and> w_log w' = w_log w @ [Bound (w_socks w) (local_bind_for ip), Sent (w_socks w) req1 (sock_new ip port)] @ es
      \<and> w_inbox w (w_socks w) = (t1, Inr (msg1, src1)) # rest
      \<and> (case parse_allocate_response (take 1500 msg1) tx1 of
           Ok (AllocSuccess granted _) \<Rightarrow> granted = relayed \<and> es = [] \<and> ctx' = ctx\<lparr>scratch := scratch ctx'\<rparr>
         | Ok (Unauthorized realm nonce) \<Rightarrow>
             (\<exists>user pass cl2 sa2 tx2 req2 t2 msg2 src2 rest2 lifetime.
                 turn_user ctx = Some user \<and> turn_pass ctx = Some pass
               \<and> build_allocate_authed c cl2 sa2 user realm nonce (long_term_key c user realm pass) = Ok (tx2, req2)
               \<and> es = [Sent (w_socks w) req2 (sock_new ip port)]
               \<and> rest = (t2, Inr (msg2, src2)) # rest2
               \<and> parse_allocate_response (take 1500 msg2) tx2 = Ok (AllocSuccess relayed lifetime)
               \<and> ctx' = ctx\<lparr>scratch := scratch ctx', ctx_session := Some
                   \<lparr>ts_socket = w_socks w, ts_server = sock_new ip port, ts_relayed = relayed, ts_realm = realm,
                    ts_nonce = nonce, ts_key = long_term_key c user realm pass, ts_username = user\<rparr>\<rparr>)
         | _ \<Rightarrow> False)
    else ctx' = ctx"
  using turn_alloc_run_cases [OF assms]
proof (elim disjE exE conjE)
  assume "ctx' = ctx" "r_status r \<in> {Skip, Fail}"
  then show ?thesis by auto
next
  fix ip ips port sock started o1 txid1 req1 w1 cl sa t msg src rest
  assume i: "resolved_ips ctx = ip # ips" "ctx_port ctx = Some port" and s: "sock = w_socks w"
    and lg: "w_log w1 = w_log w @ [Bound sock (local_bind_for ip), Sent sock req1 (sock_new ip port)]"
    and u: "build_allocate_unauth cl sa = Ok (txid1, req1)"
    and inb: "w_inbox w sock = (t, Inr (msg, src)) # rest" "w_inbox w1 sock = rest"
    and o1: "parse_allocate_response (take 1500 msg) txid1 = Ok o1"
    and ch: "turn_alloc_challenged c started sock (sock_new ip port) o1 ctx w1 = Ok (r, ctx', w')"
  note cases = turn_alloc_challenged_cases [OF ch]
  show ?thesis
  proof (cases "r_status r = Pass")
    case False
    then show ?thesis using turn_alloc_challenged_ctx [OF ch] by auto
  next
    case pass: True
    show ?thesis
    proof (cases o1)
      case (AllocSuccess granted lt)
      have "w_log w' = w_log w1" "ctx' = ctx\<lparr>scratch := (scratch ctx)(''relayed'' \<mapsto> show_sock granted)\<rparr>"
        using cases AllocSuccess by auto
      then show ?thesis unfolding if_P [OF pass] using i s lg u inb(1) o1 AllocSuccess
        by (intro exI [of _ granted] exI [of _ ip] exI [of _ ips] exI [of _ port] exI [of _ cl] exI [of _ sa] exI [of _ txid1]
            exI [of _ req1] exI [of _ "[]"] exI [of _ t] exI [of _ msg] exI [of _ src] exI [of _ rest]) simp
    next
      case (Unauthorized realm nonce)
      obtain user pass where up: "turn_user ctx = Some user" "turn_pass ctx = Some pass"
        and r2: "turn_alloc_round2 c started sock (sock_new ip port) realm nonce user pass ctx w1 = Ok (r, ctx', w')"
        using cases Unauthorized pass by (auto split: option.splits)
      obtain cl2 sa2 tx2 req2 t2 msg2 src2 rest2 relayed lifetime where
        g: "build_allocate_authed c cl2 sa2 user realm nonce (long_term_key c user realm pass) = Ok (tx2, req2)"
          "w_log w' = w_log w1 @ [Sent sock req2 (sock_new ip port)]" "rest = (t2, Inr (msg2, src2)) # rest2"
          "parse_allocate_response (take 1500 msg2) tx2 = Ok (AllocSuccess relayed lifetime)"
        and c': "ctx' = ctx\<lparr>scratch := (scratch ctx)(''relayed'' \<mapsto> show_sock relayed),
           ctx_session := Some \<lparr>ts_socket = sock, ts_server = sock_new ip port, ts_relayed = relayed, ts_realm = realm,
             ts_nonce = nonce, ts_key = long_term_key c user realm pass, ts_username = user\<rparr>\<rparr>"
        using turn_alloc_round2_pass [OF r2 pass] unfolding inb(2) by (elim exE conjE) (rule that, assumption+)
      have sc: "scratch ctx' = (scratch ctx)(''relayed'' \<mapsto> show_sock relayed)" by (simp add: c')
      have "case parse_allocate_response (take 1500 msg) txid1 of
           Ok (AllocSuccess granted _) \<Rightarrow> granted = relayed \<and> [Sent sock req2 (sock_new ip port)] = [] \<and> ctx' = ctx\<lparr>scratch := scratch ctx'\<rparr>
         | Ok (Unauthorized realm nonce) \<Rightarrow>
             (\<exists>user pass cl2 sa2 tx2 req2' t2 msg2 src2 rest2 lifetime.
                 turn_user ctx = Some user \<and> turn_pass ctx = Some pass
               \<and> build_allocate_authed c cl2 sa2 user realm nonce (long_term_key c user realm pass) = Ok (tx2, req2')
               \<and> [Sent sock req2 (sock_new ip port)] = [Sent sock req2' (sock_new ip port)]
               \<and> rest = (t2, Inr (msg2, src2)) # rest2
               \<and> parse_allocate_response (take 1500 msg2) tx2 = Ok (AllocSuccess relayed lifetime)
               \<and> ctx' = ctx\<lparr>scratch := scratch ctx', ctx_session := Some
                   \<lparr>ts_socket = sock, ts_server = sock_new ip port, ts_relayed = relayed, ts_realm = realm,
                    ts_nonce = nonce, ts_key = long_term_key c user realm pass, ts_username = user\<rparr>\<rparr>)
         | _ \<Rightarrow> False"
        unfolding o1 Unauthorized res.case allocate_outcome.case sc
        by (intro exI conjI) (rule up g refl c')+
      moreover have "w_log w' = w_log w @ [Bound sock (local_bind_for ip), Sent sock req1 (sock_new ip port)] @ [Sent sock req2 (sock_new ip port)]"
        using g(2) lg by simp
      ultimately show ?thesis unfolding if_P [OF pass] using i sc u inb(1) unfolding s by blast
    qed (use cases pass in auto)
  qed
qed

text \<open>An example: a server that challenges, then grants a relayed address.\<close>

definition example_challenge :: bytes where
  "example_challenge = message ALLOCATE_ERROR example_txid
     (concat (map enc_attr (challenge_attrs [] (as_bytes ''r'') [110])))"

definition example_grant :: bytes where
  "example_grant = message ALLOCATE_SUCCESS example_txid
     (concat (map enc_attr (grant_attrs (SockV4 0xCB007102 49152) 600 example_txid)))"

lemma length_example_txid [simp]: "length example_txid = 12"
  by (simp add: example_txid_def)

lemma example_challenge_parses:
  "parse_allocate_response example_challenge example_txid = Ok (Unauthorized ''r'' [110])"
  unfolding example_challenge_def
  using parse_challenge [of example_txid "[]" "as_bytes ''r''" "[110]"]
  by (simp add: challenge_attrs_def length_enc_attr pad4_def)
    (simp add: as_bytes_def byte_of_char_def word_less_nat_alt)

lemma example_grant_parses:
  "parse_allocate_response example_grant example_txid = Ok (AllocSuccess (SockV4 0xCB007102 49152) 600)"
  unfolding example_grant_def by (subst parse_grant) (simp_all add: sock_norm_def)

lemma example_replies_fit: "take 1500 example_challenge = example_challenge" "take 1500 example_grant = example_grant"
  by (simp_all add: example_challenge_def example_grant_def challenge_attrs_def grant_attrs_def
      length_enc_attr length_build_xor_address pad4_def)

definition example_turn_ctx :: probe_ctx where
  "example_turn_ctx = example_ctx\<lparr>turn_user := Some ''u'', turn_pass := Some ''p''\<rparr>"

definition example_turn_world :: world where
  "example_turn_world = quiet_world\<lparr>w_inbox :=
     (\<lambda>_. [(1, Inr (example_challenge, SockV4 1 3478)), (2, Inr (example_grant, SockV4 1 3478))])\<rparr>"

lemma example_turn_run:
  "\<exists>r ctx' w'. turn_alloc_run zero_crypto example_turn_ctx example_turn_world = Ok (r, ctx', w')
     \<and> r_status r = Pass \<and> ctx_session ctx' \<noteq> None \<and> length (w_log w') = 3"
proof -
  obtain req1 where 1: "build_allocate_unauth None 0 = Ok (example_txid, req1)"
    by (simp add: build_allocate_unauth_message new_txid_example)
  obtain req2 where 2: "build_allocate_authed zero_crypto None 0 ''u'' ''r'' [110]
      (long_term_key zero_crypto ''u'' ''r'' ''p'') = Ok (example_txid, req2)"
    using build_allocate_authed_total [of zero_crypto None 0] by (simp add: new_txid_example) blast
  show ?thesis
    by (simp add: turn_alloc_run_def turn_alloc_round1_def turn_alloc_challenged_def turn_alloc_round2_def Let_def 1 2
        example_turn_ctx_def example_ctx_def example_turn_world_def world_eval
        example_replies_fit example_challenge_parses example_grant_parses recv_timeout_of_def)
qed

theorem credentials_only_answer_challenge_witness:
  "\<exists>r ctx' w'. turn_alloc_run zero_crypto example_turn_ctx example_turn_world = Ok (r, ctx', w')
     \<and> length (w_log w') = 3
     \<and> (\<forall>e \<in> set (w_log w'). first_round_effect example_turn_ctx e
          \<or> (\<exists>m realm nonce cl sa tx. e = Sent 0 m (SockV4 1 3478)
               \<and> build_allocate_authed zero_crypto cl sa ''u'' realm nonce
                   (long_term_key zero_crypto ''u'' realm ''p'') = Ok (tx, m)))"
proof -
  obtain r ctx' w' where run: "turn_alloc_run zero_crypto example_turn_ctx example_turn_world = Ok (r, ctx', w')"
    and len: "length (w_log w') = 3" using example_turn_run by blast
  have c: "resolved_ips example_turn_ctx = [V4 1]" "ctx_port example_turn_ctx = Some 3478"
    "turn_user example_turn_ctx = Some ''u''" "turn_pass example_turn_ctx = Some ''p''"
    "w_socks example_turn_world = 0" "w_log example_turn_world = []"
    by (simp_all add: example_turn_ctx_def example_ctx_def example_turn_world_def world_eval)
  show ?thesis
    using credentials_only_answer_challenge [OF run] run len by (fastforce simp: c)
qed

theorem turn_alloc_session_witness:
  "\<exists>r ctx' w' s. turn_alloc_run zero_crypto example_turn_ctx example_turn_world = Ok (r, ctx', w')
     \<and> ctx_session ctx' = Some s \<and> ts_socket s = 0 \<and> ts_server s = SockV4 1 3478
     \<and> ts_key s = long_term_key zero_crypto ''u'' (ts_realm s) ''p''"
proof -
  obtain r ctx' w' where run: "turn_alloc_run zero_crypto example_turn_ctx example_turn_world = Ok (r, ctx', w')"
    and p: "r_status r = Pass" "ctx_session ctx' \<noteq> None" using example_turn_run by blast
  have c: "resolved_ips example_turn_ctx = [V4 1]" "ctx_port example_turn_ctx = Some 3478"
    "turn_user example_turn_ctx = Some ''u''" "turn_pass example_turn_ctx = Some ''p''"
    "w_socks example_turn_world = 0" "ctx_session example_turn_ctx = None"
    by (simp_all add: example_turn_ctx_def example_ctx_def example_turn_world_def world_eval)
  have ne: "ctx' \<noteq> example_turn_ctx\<lparr>scratch := scratch ctx'\<rparr>" using p(2) c(6) by (metis probe_ctx.ext_inject probe_ctx.surjective probe_ctx.update_convs(9))
  have "\<exists>relayed realm nonce. ctx' = example_turn_ctx\<lparr>scratch := scratch ctx', ctx_session := Some
      \<lparr>ts_socket = 0, ts_server = SockV4 1 3478, ts_relayed = relayed, ts_realm = realm, ts_nonce = nonce,
       ts_key = long_term_key zero_crypto ''u'' realm ''p'', ts_username = ''u''\<rparr>\<rparr>"
    using turn_alloc_session [OF run] unfolding if_P [OF p(1)] c
  proof (elim exE conjE, goal_cases)
    case (1 relayed ip ips port cl sa tx1 req1 es t1 msg1 src1 rest)
    then have "ip = V4 1" "port = 3478" by simp_all
    with 1 show ?case using ne
      by (cases "parse_allocate_response (take 1500 msg1) tx1") (auto split: allocate_outcome.split_asm)
  qed
  then obtain relayed realm nonce where c': "ctx' = example_turn_ctx\<lparr>scratch := scratch ctx', ctx_session := Some
      \<lparr>ts_socket = 0, ts_server = SockV4 1 3478, ts_relayed = relayed, ts_realm = realm, ts_nonce = nonce,
       ts_key = long_term_key zero_crypto ''u'' realm ''p'', ts_username = ''u''\<rparr>\<rparr>" by blast
  have "ctx_session ctx' = Some \<lparr>ts_socket = 0, ts_server = SockV4 1 3478, ts_relayed = relayed, ts_realm = realm, ts_nonce = nonce,
       ts_key = long_term_key zero_crypto ''u'' realm ''p'', ts_username = ''u''\<rparr>" by (subst c') simp
  with run show ?thesis by fastforce
qed

lemma turn_alloc_run_session:
  assumes "turn_alloc_run c ctx w = Ok (r, ctx', w')" and "r_status r = Pass"
    and "ctx_session ctx = None" and "ctx_session ctx' = Some s"
  shows "\<exists>ip ips port user pass req1 req2 cl sa tx cl2 sa2 tx2. resolved_ips ctx = ip # ips \<and> ctx_port ctx = Some port
     \<and> turn_user ctx = Some user \<and> turn_pass ctx = Some pass
     \<and> build_allocate_unauth cl sa = Ok (tx, req1)
     \<and> build_allocate_authed c cl2 sa2 user (ts_realm s) (ts_nonce s) (long_term_key c user (ts_realm s) pass) = Ok (tx2, req2)
     \<and> w_log w' = w_log w @ [Bound (w_socks w) (local_bind_for ip), Sent (w_socks w) req1 (sock_new ip port),
                              Sent (w_socks w) req2 (sock_new ip port)]
     \<and> ts_socket s = w_socks w \<and> ts_server s = sock_new ip port \<and> ts_username s = user
     \<and> ts_key s = long_term_key c user (ts_realm s) pass"
  using turn_alloc_run_cases [OF assms(1)]
proof (elim disjE exE conjE)
  assume "r_status r \<in> {Skip, Fail}"
  then show ?thesis using assms(2) by auto
next
  fix ip ips port sock started o1 txid1 req1 w1 cl sa t msg src rest
  assume i: "resolved_ips ctx = ip # ips" and p: "ctx_port ctx = Some port" and s: "sock = w_socks w"
    and lg: "w_log w1 = w_log w @ [Bound sock (local_bind_for ip), Sent sock req1 (sock_new ip port)]"
    and u: "build_allocate_unauth cl sa = Ok (txid1, req1)"
    and ch: "turn_alloc_challenged c started sock (sock_new ip port) o1 ctx w1 = Ok (r, ctx', w')"
  obtain realm nonce user pass where o1: "o1 = Unauthorized realm nonce"
    and up: "turn_user ctx = Some user" "turn_pass ctx = Some pass"
    and r2: "turn_alloc_round2 c started sock (sock_new ip port) realm nonce user pass ctx w1 = Ok (r, ctx', w')"
    using turn_alloc_challenged_cases [OF ch] assms(2-4) by (auto split: allocate_outcome.splits option.splits)
  obtain cl2 sa2 tx2 req2 relayed where
    b: "build_allocate_authed c cl2 sa2 user realm nonce (long_term_key c user realm pass) = Ok (tx2, req2)"
    and lg2: "w_log w' = w_log w1 @ [Sent sock req2 (sock_new ip port)]"
    and c': "ctx' = ctx\<lparr>scratch := (scratch ctx)(''relayed'' \<mapsto> show_sock relayed),
       ctx_session := Some \<lparr>ts_socket = sock, ts_server = sock_new ip port, ts_relayed = relayed, ts_realm = realm,
         ts_nonce = nonce, ts_key = long_term_key c user realm pass, ts_username = user\<rparr>\<rparr>"
    using turn_alloc_round2_cases [OF r2] assms(2) by auto
  have se: "s = \<lparr>ts_socket = sock, ts_server = sock_new ip port, ts_relayed = relayed, ts_realm = realm,
         ts_nonce = nonce, ts_key = long_term_key c user realm pass, ts_username = user\<rparr>"
    using assms(4) c' by simp
  have "w_log w' = w_log w @ [Bound sock (local_bind_for ip), Sent sock req1 (sock_new ip port),
          Sent sock req2 (sock_new ip port)]" using lg lg2 by simp
  then show ?thesis using i p up u b s unfolding se by (simp only: turn_session.simps) blast
qed

lemma turn_alloc_run_scratch:
  assumes "turn_alloc_run c ctx w = Ok (r, ctx', w')"
  shows "scratch ctx' ''srflx'' = scratch ctx ''srflx''"
    and "turn_user ctx = None \<or> turn_pass ctx = None \<Longrightarrow> ctx_session ctx' = ctx_session ctx"
  using turn_alloc_run_cases [OF assms] by (auto dest!: turn_alloc_challenged_ctx)

end
