(* ===== verification/Turn_Echo.thy ===== *)
theory Turn_Echo
  imports Turn_Alloc Net_Text
begin

text \<open>
  The echo check, \<open>crates/probe-core/src/checks/turn_echo.rs\<close>: CreatePermission for the
  client's own reflexive address over the socket of the allocation, numbered datagrams
  sent straight to the relay, and the Data Indications that bring them back.

  The sequence numbers, the counters \<open>received\<close> and \<open>duplicates\<close> and the sum of the round-trip
  sent_at keep their widths.  The loss percentage is an \<open>f64\<close>; it is kept as the quotient it
  rounds, and its integer rendering is the quotient rounded half to even, which is what the
  float prints: the quotient is off every tie by at least \<open>1 / (2 * count)\<close>, more than the
  rounding error of the division.
\<close>

section \<open>Payloads\<close>

definition echo_id :: string where "echo_id = ''turn.echo.udp''"
definition echo_name :: string where "echo_name = ''TURN echo (UDP)''"

definition DATA_INDICATION :: u16 where "DATA_INDICATION = 0x0017"

definition ECHO_PREFIX :: bytes where "ECHO_PREFIX = as_bytes ''webrtc-doctor-echo-probe''"

definition ECHO_INTERVAL :: nat where "ECHO_INTERVAL = millis 20"

definition make_payload :: "u32 \<Rightarrow> bytes" where
  "make_payload sq = ECHO_PREFIX @ to_le 4 sq"

definition parse_seq :: "bytes \<Rightarrow> u32 option" where
  "parse_seq payload =
     (if length payload \<noteq> length ECHO_PREFIX + 4 then None
      else if take (length ECHO_PREFIX) payload \<noteq> ECHO_PREFIX then None
      else Some (from_le (drop (length ECHO_PREFIX) payload)))"

section \<open>CreatePermission\<close>

definition build_create_permission ::
  "crypto \<Rightarrow> nat option \<Rightarrow> u64 \<Rightarrow> string \<Rightarrow> string \<Rightarrow> bytes \<Rightarrow> bytes \<Rightarrow> sockaddr \<Rightarrow> (unit, bytes \<times> bytes) res"
where
  "build_create_permission c clock stack_addr username realm nonce key peer =
     (let txid = new_txid clock stack_addr;
          msg = stun_header CREATE_PERMISSION_REQUEST txid;
          peer_attr = build_xor_address peer txid;
          msg = append_attr msg XOR_PEER_ADDRESS peer_attr;
          msg = append_attr msg USERNAME (as_bytes username);
          msg = append_attr msg REALM (as_bytes realm);
          msg = append_attr msg NONCE nonce
      in bind_res (attach_message_integrity c msg key) (\<lambda>msg. Ok (txid, msg)))"

datatype cp_outcome = CpSuccess | CpRejected u16 string

datatype cp_error =
  CE_Codec codec_error
| CE_WrongType u16
| MissingErrorCode

fun show_cp_error :: "cp_error \<Rightarrow> string" where
  "show_cp_error (CE_Codec e) = show_codec_error e"
| "show_cp_error (CE_WrongType t) = ''unexpected message type 0x'' @ hex_pad 4 (unat t)"
| "show_cp_error MissingErrorCode = ''missing ERROR-CODE in error response''"

text \<open>The loop over the attributes of an error response returns at the first ERROR-CODE.\<close>

fun first_error_code :: "attr list \<Rightarrow> (cp_error, cp_outcome) res" where
  "first_error_code [] = Err MissingErrorCode"
| "first_error_code (a # as) =
     (if attr_type a = ERROR_CODE then
        bind_res (map_err CE_Codec (parse_error_code (attr_value a))) (\<lambda>ec.
        Ok (CpRejected (ec_code ec) (ec_reason ec)))
      else first_error_code as)"

definition parse_create_permission_response :: "bytes \<Rightarrow> bytes \<Rightarrow> (cp_error, cp_outcome) res" where
  "parse_create_permission_response buf txid =
     bind_res (map_err CE_Codec (parse_header buf txid)) (\<lambda>h.
     if msg_type h = CREATE_PERMISSION_SUCCESS then Ok CpSuccess
     else if msg_type h = CREATE_PERMISSION_ERROR then
       bind_res (map_err CE_Codec (walk_attrs buf (attrs_len h))) first_error_code
     else Err (CE_WrongType (msg_type h)))"

section \<open>Data indications\<close>

text \<open>The \<open>while i + 4 <= end\<close> loop, which stops at the first DATA attribute.\<close>

function data_from :: "bytes \<Rightarrow> nat \<Rightarrow> nat \<Rightarrow> (codec_error, bytes option) res" where
  "data_from buf end i =
     (if i + 4 \<le> end then
        bind_res (u16_at buf i) (\<lambda>at.
        bind_res (u16_at buf (i + 2)) (\<lambda>alen.
        let al = unat alen; val_start = i + 4; val_end = val_start + al in
        if val_end > end then Err TruncatedAttr
        else if at = DATA then bind_res (slice buf val_start val_end) (\<lambda>v. Ok (Some v))
        else data_from buf end (val_end + pad4 al)))
      else Ok None)"
  by pat_completeness auto
termination
  by (relation "measure (\<lambda>(buf, end, i). end - i)") auto

declare data_from.simps [simp del]

definition parse_data_indication :: "bytes \<Rightarrow> (codec_error, bytes option) res" where
  "parse_data_indication buf =
     (if length buf < 20 then Err (Short (length buf))
      else
        bind_res (u16_at buf 0) (\<lambda>mt.
        if mt \<noteq> DATA_INDICATION then Ok None
        else
          bind_res (u16_at buf 2) (\<lambda>alen.
          bind_res (u32_at buf 4) (\<lambda>cookie.
          if cookie \<noteq> MAGIC_COOKIE then Err (BadCookie cookie)
          else if length buf < 20 + unat alen then Err TruncatedAttr
          else data_from buf (20 + unat alen) 20))))"

section \<open>The two loops\<close>

text \<open>Sending: one datagram per sequence number, with a pause between two.\<close>

fun send_echoes ::
  "nat \<Rightarrow> sockaddr \<Rightarrow> nat \<Rightarrow> nat list \<Rightarrow> nat option list \<Rightarrow> world \<Rightarrow> (string + nat option list) \<times> world"
where
  "send_echoes sock relayed count [] sent_at w = (Inr sent_at, w)"
| "send_echoes sock relayed count (sq # sqs) sent_at w =
     (let payload = make_payload (word_of_nat sq);
          (now, w) = instant_now w;
          (sent, w) = udp_send sock payload relayed w
      in case sent of
           Some e \<Rightarrow> (Inl (''send packet '' @ dec sq @ '' to relay failed: '' @ e), w)
         | None \<Rightarrow>
             send_echoes sock relayed count sqs (sent_at[sq := Some now])
               (if sq + 1 < count then sleep_for ECHO_INTERVAL w else w))"

text \<open>\<open>send_times.iter().filter_map(|t| *t).max().unwrap_or_else(Instant::now)\<close>.\<close>

definition last_send_time :: "nat option list \<Rightarrow> world \<Rightarrow> nat \<times> world" where
  "last_send_time sent_at w =
     (case map the (filter (\<lambda>t. t \<noteq> None) sent_at) of
        [] \<Rightarrow> instant_now w
      | t # ts \<Rightarrow> (fold max ts t, w))"

record echo_state =
  rtts :: "nat option list"
  received :: u32
  duplicates :: u32

text \<open>What one datagram does to the statistics; \<open>recv_at\<close> is read once it is known to be ours.\<close>

definition take_echo ::
  "sockaddr \<Rightarrow> nat option list \<Rightarrow> bytes \<Rightarrow> sockaddr \<Rightarrow> echo_state \<Rightarrow> world \<Rightarrow> (unit, echo_state \<times> world) res"
where
  "take_echo server sent_at buf src st w =
     (if src \<noteq> server then Ok (st, w)
      else
        case parse_data_indication buf of
          Panic \<Rightarrow> Panic
        | Err _ \<Rightarrow> Ok (st, w)
        | Ok None \<Rightarrow> Ok (st, w)
        | Ok (Some data) \<Rightarrow>
            (case parse_seq data of
               None \<Rightarrow> Ok (st, w)
             | Some sq \<Rightarrow>
                 if \<not> unat sq < length (rtts st) then Ok (st, w)
                 else
                   (let (recv_at, w) = instant_now w in
                    bind_res (index_at sent_at (unat sq)) (\<lambda>t.
                    case t of
                      None \<Rightarrow> Ok (st, w)
                    | Some send_at \<Rightarrow>
                        if rtts st ! unat sq \<noteq> None then Ok (st\<lparr>duplicates := duplicates st + 1\<rparr>, w)
                        else Ok (st\<lparr>rtts := (rtts st)[unat sq := Some (recv_at - send_at)],
                                    received := received st + 1\<rparr>, w)))))"

lemma instant_now_inbox_eq [simp]: "w_inbox (snd (instant_now w)) = w_inbox w"
  by (metis instant_now_inbox prod.collapse)

lemma take_echo_inbox: "take_echo server sent_at buf src st w = Ok (st', w') \<Longrightarrow> w_inbox w' = w_inbox w"
  by (auto simp: take_echo_def Let_def index_at_def bind_res_eq_Ok instant_now_inbox
      split: if_splits res.splits option.splits prod.splits)

lemma udp_recv_shrinks:
  assumes "udp_recv s d w = (RecvOk m src, w')"
  shows "length (w_inbox w' s) < length (w_inbox w s)"
  using udp_recv_inbox [OF assms] by auto

text \<open>
  Receiving: until every number is accounted for or the deadline has passed.  Each
  iteration that goes on has taken one datagram from the socket's queue.
\<close>

function recv_echoes ::
  "nat \<Rightarrow> sockaddr \<Rightarrow> u32 \<Rightarrow> nat option list \<Rightarrow> nat \<Rightarrow> echo_state \<Rightarrow> world \<Rightarrow> (io_error \<times> world, echo_state \<times> world) res"
where
  "recv_echoes sock server count sent_at deadline st w =
     (if \<not> received st < count then Ok (st, w)
      else
        let (now, w1) = instant_now w in
        if now \<ge> deadline then Ok (st, w1)
        else
          case udp_recv sock (deadline - now) w1 of
            (RecvErr e, w2) \<Rightarrow> Err (e, w2)
          | (RecvTimeout, w2) \<Rightarrow> Ok (st, w2)
          | (RecvOk buf src, w2) \<Rightarrow>
              (case take_echo server sent_at buf src st w2 of
                 Ok (st', w3) \<Rightarrow> recv_echoes sock server count sent_at deadline st' w3
               | Err _ \<Rightarrow> Panic
               | Panic \<Rightarrow> Panic))"
  by pat_completeness auto
termination
  by (relation "measure (\<lambda>(sock, server, count, sent_at, deadline, st, w). length (w_inbox w sock))")
    (auto dest!: take_echo_inbox, metis instant_now_inbox udp_recv_shrinks)

declare recv_echoes.simps [simp del]

section \<open>The check\<close>

definition stats :: "u64 list \<Rightarrow> u64 \<times> u64 \<times> u64" where
  "stats ms =
     (if ms = [] then (0, 0, 0)
      else (fold min (tl ms) (hd ms), sum_list ms div word_of_nat (length ms), fold max (tl ms) (hd ms)))"

text \<open>\<open>{:.0}\<close> of a quotient: to the nearest integer, ties to even.\<close>

definition round_quotient :: "nat \<Rightarrow> nat \<Rightarrow> nat" where
  "round_quotient n d =
     (let q = n div d; r = n mod d in
      if 2 * r < d then q else if 2 * r > d then q + 1 else if even q then q else q + 1)"

text \<open>\<open>client->relay->data-indication\<close>, with the arrows in UTF-8.\<close>

definition echo_path :: string where
  "echo_path = ''client'' @ arrow @ ''relay'' @ arrow @ ''data-indication''"

definition rtt_ms_each :: "nat option list \<Rightarrow> u64 option list" where
  "rtt_ms_each ds = map (map_option (\<lambda>d. word_of_nat (d div 1000000))) ds"

text \<open>What is reported once the loops are over.\<close>

definition echo_report :: "turn_session \<Rightarrow> sockaddr \<Rightarrow> nat \<Rightarrow> u32 \<Rightarrow> u64 \<Rightarrow> echo_state \<Rightarrow> check_result" where
  "echo_report session srflx recv_timeout count elapsed st =
     (let each = rtt_ms_each (rtts st);
          observed = map the (filter (\<lambda>x. x \<noteq> None) each);
          loss_num = unat (count - received st) * 100;
          detail = JObj [(''server'', JStr (show_sock (ts_server session))),
                         (''relayed'', JStr (show_sock (ts_relayed session))),
                         (''peer'', JStr (show_sock srflx)),
                         (''sent'', JNum (unat count)),
                         (''received'', JNum (unat (received st))),
                         (''duplicates'', JNum (unat (duplicates st))),
                         (''loss_pct'', JRatio loss_num (unat count)),
                         (''rtt_ms'', JArr (map (\<lambda>x. case x of None \<Rightarrow> JNull | Some m \<Rightarrow> JNum (unat m)) each)),
                         (''path'', JStr echo_path)]
      in if received st = 0 then
           with_detail
             (fail_result echo_id echo_name elapsed
                (''0/'' @ show_word count @ '' echoes received within '' @ show_duration recv_timeout
                   @ '' (relay: '' @ show_sock (ts_relayed session) @ '')''))
             detail
         else
           (let (min_ms, avg_ms, max_ms) = stats observed;
                summary = show_word (received st) @ ''/'' @ show_word count @ '' echoes, loss ''
                  @ dec (round_quotient loss_num (unat count)) @ ''%, rtt min/avg/max = '' @ show_word min_ms
                  @ ''/'' @ show_word avg_ms @ ''/'' @ show_word max_ms @ '' ms via ''
                  @ show_sock (ts_relayed session)
            in if received st = count
               then with_detail (pass_result echo_id echo_name elapsed summary) detail
               else with_detail (warn_result echo_id echo_name elapsed summary) detail))"

abbreviation echo_fail :: "nat \<Rightarrow> string \<Rightarrow> probe_ctx \<Rightarrow> world \<Rightarrow> run_outcome" where
  "echo_fail \<equiv> fail_now echo_id echo_name"

text \<open>Steps 2 and 3, after the permission was granted.\<close>

definition echo_exchange ::
  "turn_session \<Rightarrow> sockaddr \<Rightarrow> nat \<Rightarrow> u32 \<Rightarrow> nat \<Rightarrow> probe_ctx \<Rightarrow> world \<Rightarrow> run_outcome"
where
  "echo_exchange session srflx recv_timeout count started ctx w =
     (case send_echoes (ts_socket session) (ts_relayed session) (unat count) [0..<unat count]
             (replicate (unat count) None) w of
        (Inl e, w) \<Rightarrow> echo_fail started e ctx w
      | (Inr sent_at, w) \<Rightarrow>
          (let (last_send, w) = last_send_time sent_at w;
               recv_deadline = last_send + recv_timeout
           in case recv_echoes (ts_socket session) (ts_server session) count sent_at recv_deadline
                     \<lparr>rtts = replicate (unat count) None, received = 0, duplicates = 0\<rparr> w of
                Panic \<Rightarrow> Panic
              | Err (e, w) \<Rightarrow> echo_fail started (''recv echo failed: '' @ e) ctx w
              | Ok (st, w) \<Rightarrow>
                  (let (elapsed, w) = elapsed_ms started w
                   in Ok (echo_report session srflx recv_timeout count elapsed st, ctx, w))))"

definition turn_echo_run :: "crypto \<Rightarrow> probe_ctx \<Rightarrow> world \<Rightarrow> run_outcome" where
  "turn_echo_run c ctx w =
     (case ctx_session ctx of
        None \<Rightarrow> Ok (skip_result echo_id echo_name ''no TURN session in context'', ctx, w)
      | Some session \<Rightarrow>
     (case Option.bind (scratch ctx ''srflx'') parse_sock of
        None \<Rightarrow> Ok (skip_result echo_id echo_name ''no srflx in context'', ctx, w)
      | Some srflx \<Rightarrow>
     (let (started, w) = instant_now w;
          recv_timeout = recv_timeout_of ctx;
          count = max (echo_count ctx) 1;
          ((clock, stack_addr), w) = next_seed w
      in bind_res (build_create_permission c clock stack_addr (ts_username session) (ts_realm session)
                     (ts_nonce session) (ts_key session) srflx) (\<lambda>(cp_txid, cp_req).
     (let (sent, w) = udp_send (ts_socket session) cp_req (ts_server session) w
      in case sent of
           Some e \<Rightarrow> echo_fail started (''send CreatePermission failed: '' @ e) ctx w
         | None \<Rightarrow>
     (let (got, w) = udp_recv (ts_socket session) recv_timeout w
      in case got of
           RecvErr e \<Rightarrow> echo_fail started (''recv CreatePermission failed: '' @ e) ctx w
         | RecvTimeout \<Rightarrow>
             echo_fail started (''no CreatePermission response in '' @ show_duration recv_timeout
               @ '' (server: '' @ show_sock (ts_server session) @ '')'') ctx w
         | RecvOk buf _ \<Rightarrow>
     (case parse_create_permission_response buf cp_txid of
        Panic \<Rightarrow> Panic
      | Err e \<Rightarrow> echo_fail started (''malformed CreatePermission resp: '' @ show_cp_error e) ctx w
      | Ok (CpRejected code reason) \<Rightarrow>
          echo_fail started (''CreatePermission rejected: '' @ show_word code @ '' '' @ reason) ctx w
      | Ok CpSuccess \<Rightarrow> echo_exchange session srflx recv_timeout count started ctx w)))))))"

definition turn_echo_check :: "crypto \<Rightarrow> check" where
  "turn_echo_check c =
     \<lparr>c_id = echo_id, c_name = echo_name, c_requires = [turn_alloc_id, stun_id], c_run = turn_echo_run c\<rparr>"

section \<open>Lemmas: parsers\<close>

lemma length_make_payload [simp]: "length (make_payload sq) = length ECHO_PREFIX + 4"
  by (simp add: make_payload_def)

lemma parse_seq_iff: "parse_seq p = Some sq \<longleftrightarrow> p = make_payload sq"
proof
  assume "parse_seq p = Some sq"
  then have "length p = length ECHO_PREFIX + 4" "take (length ECHO_PREFIX) p = ECHO_PREFIX"
      "sq = from_le (drop (length ECHO_PREFIX) p)"
    by (simp_all add: parse_seq_def split: if_splits)
  then show "p = make_payload sq"
    by (simp add: make_payload_def) (metis append_take_drop_id)
qed (simp add: parse_seq_def make_payload_def)

lemma parse_seq_make_payload: "parse_seq (make_payload sq) = Some sq"
  by (simp add: parse_seq_iff)

lemma first_error_code_no_panic: "first_error_code as \<noteq> Panic"
  by (induction as) (auto simp: res_simps parse_error_code_no_panic)

lemma parse_create_permission_response_no_panic: "parse_create_permission_response buf txid \<noteq> Panic"
  by (auto simp: parse_create_permission_response_def res_simps parse_header_no_panic
      walk_attrs_no_panic first_error_code_no_panic split: if_splits)

lemma data_from_no_panic: "end \<le> length buf \<Longrightarrow> data_from buf end i \<noteq> Panic"
proof (induction buf "end" i rule: data_from.induct)
  case (1 buf "end" i)
  then show ?case by (subst data_from.simps) (auto simp: Let_def u16_at_ok res_simps)
qed

lemma parse_data_indication_no_panic: "parse_data_indication buf \<noteq> Panic"
  by (auto simp: parse_data_indication_def u16_at_ok u32_at_ok data_from_no_panic)

text \<open>The reference for the DATA search consumes the attribute section from its front.\<close>

function first_data :: "bytes \<Rightarrow> (codec_error, bytes option) res" where
  "first_data bs =
     (if length bs < 4 then Ok None
      else
        case dec_attr bs of
          None \<Rightarrow> Err TruncatedAttr
        | Some (a, rest) \<Rightarrow> if attr_type a = DATA then Ok (Some (attr_value a)) else first_data rest)"
  by pat_completeness auto
termination
  by (relation "measure length") (auto simp: dec_attr_def Let_def split: if_splits)

declare first_data.simps [simp del]

lemma first_data_enc:
  assumes "attr_fits a"
  shows "first_data (enc_attr a @ rest) = (if attr_type a = DATA then Ok (Some (attr_value a)) else first_data rest)"
  by (subst first_data.simps) (simp add: tlv.dec_enc [OF assms] length_enc_attr)

lemma first_data_encs:
  "\<forall>a \<in> set as. attr_fits a \<and> attr_type a \<noteq> DATA \<Longrightarrow> first_data (concat (map enc_attr as) @ rest) = first_data rest"
  by (induction as) (simp_all add: first_data_enc)

lemma data_from_first:
  assumes "end \<le> length buf"
  shows "data_from buf end i = first_data (drop i (take end buf))"
  using assms
proof (induction buf "end" i rule: data_from.induct)
  case (1 buf "end" i)
  let ?rest = "drop i (take end buf)"
  let ?ty = "from_be (take 2 (drop i buf)) :: u16" and ?len = "from_be (take 2 (drop (i + 2) buf)) :: u16"
  let ?n = "unat ?len"
  show ?case
  proof (cases "i + 4 \<le> end")
    case False
    then have "length ?rest < 4" by simp
    then show ?thesis using False by (subst data_from.simps, subst first_data.simps) simp
  next
    case True
    have t: "take 2 ?rest = take 2 (drop i buf)" "take 2 (drop 2 ?rest) = take 2 (drop (i + 2) buf)"
      using True by (simp_all add: drop_take min_def add.commute)
    have u: "u16_at buf i = Ok ?ty" "u16_at buf (i + 2) = Ok ?len"
      using True "1.prems" by (simp_all add: u16_at_ok)
    have d: "data_from buf end i =
        (if i + 4 + ?n > end then Err TruncatedAttr
         else if ?ty = DATA then Ok (Some (take ?n (drop (i + 4) buf)))
         else data_from buf end (i + 4 + ?n + pad4 ?n))"
      using True "1.prems" by (subst data_from.simps) (simp add: u Let_def)
    have n: "unat (from_be (take 2 (drop 2 ?rest)) :: u16) = ?n" by (simp only: t)
    have r: "dec_attr ?rest =
        (if i + 4 + ?n > end then None
         else Some (\<lparr>attr_type = ?ty, attr_value = take ?n (drop (i + 4) buf)\<rparr>,
                    drop (i + 4 + ?n + pad4 ?n) (take end buf)))"
      using True "1.prems" unfolding dec_attr_def n t(1) Let_def
      by (auto simp: drop_take min_def ac_simps)
    have f: "first_data ?rest =
        (case dec_attr ?rest of
           None \<Rightarrow> Err TruncatedAttr
         | Some (a, rest) \<Rightarrow> if attr_type a = DATA then Ok (Some (attr_value a)) else first_data rest)"
    proof -
      have "\<not> length ?rest < 4" using True "1.prems" by (simp add: not_less)
      then show ?thesis by (subst first_data.simps) simp
    qed
    show ?thesis
    proof (cases "i + 4 + ?n > end \<or> ?ty = DATA")
      case True
      then show ?thesis unfolding d f r by auto
    next
      case False
      have "data_from buf end (i + 4 + ?n + pad4 ?n) = first_data (drop (i + 4 + ?n + pad4 ?n) (take end buf))"
        using False "1.prems" by (intro "1.IH" [OF True refl refl refl, of ?len ?ty]) auto
      with False show ?thesis unfolding d f r by simp
    qed
  qed
qed

lemma parse_data_indication_first:
  "parse_data_indication buf =
     (if length buf < 20 then Err (Short (length buf))
      else if from_be (take 2 buf) \<noteq> DATA_INDICATION then Ok None
      else if from_be (take 4 (drop 4 buf)) \<noteq> MAGIC_COOKIE then Err (BadCookie (from_be (take 4 (drop 4 buf))))
      else if length buf < 20 + unat (from_be (take 2 (drop 2 buf)) :: u16) then Err TruncatedAttr
      else first_data (take (unat (from_be (take 2 (drop 2 buf)) :: u16)) (drop 20 buf)))"
  by (simp add: parse_data_indication_def u16_at_ok u32_at_ok data_from_first drop_take)

lemma parse_data_indication_message:
  assumes "length txid = 12" and "length body < 65536"
  shows "parse_data_indication (message DATA_INDICATION txid body) = first_data body"
proof -
  have "\<not> length (message DATA_INDICATION txid body) < 20 + unat (word_of_nat (length body) :: u16)"
    using assms by (simp add: unat_len16)
  then show ?thesis
    unfolding parse_data_indication_first message_fields [OF assms(1)] using assms by (simp add: unat_len16)
qed

section \<open>Lemmas: CreatePermission\<close>

lemma build_create_permission_total:
  "\<exists>msg. build_create_permission c t s u r n key peer = Ok (new_txid t s, msg)"
proof -
  have "20 \<le> length (append_attr (append_attr (append_attr (append_attr
      (stun_header CREATE_PERMISSION_REQUEST (new_txid t s)) XOR_PEER_ADDRESS (build_xor_address peer (new_txid t s)))
      USERNAME (as_bytes u)) REALM (as_bytes r)) NONCE n)"
    by (simp add: append_attr_def stun_header_def)
  from attach_mi_total [OF this, of c key] show ?thesis
    by (auto simp: build_create_permission_def Let_def)
qed

section \<open>Lemmas: the send loop\<close>

definition echo_sent :: "nat \<Rightarrow> sockaddr \<Rightarrow> nat \<Rightarrow> effect" where
  "echo_sent sock relayed sq = Sent sock (make_payload (word_of_nat sq)) relayed"

fun is_sent :: "effect \<Rightarrow> bool" where
  "is_sent (Sent _ _ _) = True"
| "is_sent _ = False"

text \<open>
  The datagrams go out in order of their numbers, all of them when no send failed; nothing
  else is sent, nothing is received.
\<close>

lemma send_echoes_spec:
  assumes "send_echoes sock relayed count sqs sent_at w = (r, w')"
  shows "w_inbox w' = w_inbox w \<and> w_now w \<le> w_now w' \<and> w_socks w' = w_socks w
    \<and> (\<exists>es n. w_log w' = w_log w @ es \<and> n \<le> length sqs
         \<and> filter is_sent es = map (echo_sent sock relayed) (take n sqs)
         \<and> (\<forall>e \<in> set es. is_sent e \<or> e = Slept ECHO_INTERVAL)
         \<and> (case r of Inl _ \<Rightarrow> n < length sqs
             | Inr sent' \<Rightarrow> n = length sqs \<and> length sent' = length sent_at
                 \<and> (\<forall>sq < length sent_at. sent' ! sq \<noteq> None \<longleftrightarrow> sq \<in> set sqs \<or> sent_at ! sq \<noteq> None)))"
  using assms
proof (induction sqs arbitrary: sent_at w)
  case Nil
  then show ?case by (auto intro!: exI [of _ "[]"])
next
  case (Cons sq sqs)
  obtain now w1 where 1: "instant_now w = (now, w1)" by fastforce
  obtain sent w2 where 2: "udp_send sock (make_payload (word_of_nat sq)) relayed w1 = (sent, w2)" by fastforce
  note st = instant_now_step [OF 1] udp_send_step [OF 2] instant_now_inbox [OF 1] udp_send_inbox [OF 2]
  show ?case
  proof (cases sent)
    case (Some e)
    then show ?thesis using Cons.prems 1 2 st by (auto intro!: exI [of _ "[]"] exI [of _ 0])
  next
    case None
    let ?w = "if sq + 1 < count then sleep_for ECHO_INTERVAL w2 else w2"
    let ?pre = "echo_sent sock relayed sq # (if sq + 1 < count then [Slept ECHO_INTERVAL] else [])"
    have "send_echoes sock relayed count sqs (sent_at[sq := Some now]) ?w = (r, w')"
      using Cons.prems 1 2 None by simp
    from Cons.IH [OF this, unfolded length_list_update] obtain es n where
      a: "w_inbox w' = w_inbox ?w" "w_now ?w \<le> w_now w'" "w_socks w' = w_socks ?w" "w_log w' = w_log ?w @ es" and
      b: "n \<le> length sqs" "filter is_sent es = map (echo_sent sock relayed) (take n sqs)"
         "\<forall>e \<in> set es. is_sent e \<or> e = Slept ECHO_INTERVAL"
         "case r of Inl _ \<Rightarrow> n < length sqs
           | Inr sent' \<Rightarrow> n = length sqs \<and> length sent' = length sent_at
               \<and> (\<forall>i < length sent_at. sent' ! i \<noteq> None \<longleftrightarrow> i \<in> set sqs \<or> sent_at[sq := Some now] ! i \<noteq> None)"
      by blast
    have w: "w_inbox ?w = w_inbox w" "w_now w \<le> w_now ?w" "w_socks ?w = w_socks w" "w_log ?w = w_log w @ ?pre"
      using st None by (auto simp: echo_sent_def sleep_for_def)
    have c: "filter is_sent (?pre @ es) = map (echo_sent sock relayed) (take (Suc n) (sq # sqs))"
      "\<forall>e \<in> set (?pre @ es). is_sent e \<or> e = Slept ECHO_INTERVAL"
      using b(2,3) by (auto simp: echo_sent_def)
    have d: "case r of Inl _ \<Rightarrow> Suc n < length (sq # sqs)
       | Inr sent' \<Rightarrow> Suc n = length (sq # sqs) \<and> length sent' = length sent_at
           \<and> (\<forall>i < length sent_at. sent' ! i \<noteq> None \<longleftrightarrow> i \<in> set (sq # sqs) \<or> sent_at ! i \<noteq> None)"
    proof -
      have u: "sent_at[sq := Some now] ! i = (if i = sq then Some now else sent_at ! i)" if "i < length sent_at" for i
        using that by (cases "i = sq") simp_all
      show ?thesis using b(4) by (auto simp: u split: sum.splits if_splits)
    qed
    have "w_log w' = w_log w @ ?pre @ es" "Suc n \<le> length (sq # sqs)" using a(4) w(4) b(1) by simp_all
    moreover have "w_inbox w' = w_inbox w \<and> w_now w \<le> w_now w' \<and> w_socks w' = w_socks w" using a w by simp
    ultimately show ?thesis using c d by blast
  qed
qed

lemma last_send_time_step:
  "last_send_time sent_at w = (t, w') \<Longrightarrow>
     w_inbox w' = w_inbox w \<and> w_now w \<le> w_now w' \<and> w_log w' = w_log w \<and> w_socks w' = w_socks w"
  by (auto simp: last_send_time_def instant_now_inbox dest: instant_now_step split: list.splits)

section \<open>Lemmas: the receive loop\<close>

text \<open>The server sent back the payload with number \<open>sq\<close> in a Data Indication.\<close>

definition echoed :: "(nat \<times> (io_error + bytes \<times> sockaddr)) list \<Rightarrow> sockaddr \<Rightarrow> nat \<Rightarrow> bool" where
  "echoed inbox server sq \<longleftrightarrow>
     (\<exists>t msg. (t, Inr (msg, server)) \<in> set inbox
        \<and> parse_data_indication (take 1500 msg) = Ok (Some (make_payload (word_of_nat sq))))"

definition echo_inv ::
  "(nat \<times> (io_error + bytes \<times> sockaddr)) list \<Rightarrow> sockaddr \<Rightarrow> u32 \<Rightarrow> echo_state \<Rightarrow> bool"
where
  "echo_inv inbox server count st \<longleftrightarrow>
     length (rtts st) = unat count
     \<and> unat (received st) = length (filter (\<lambda>d. d \<noteq> None) (rtts st))
     \<and> (\<forall>sq < unat count. rtts st ! sq \<noteq> None \<longrightarrow> echoed inbox server sq)"

lemma filter_Some_update:
  assumes "i < length xs" and "xs ! i = None"
  shows "length (filter (\<lambda>d. d \<noteq> None) (xs[i := Some y])) = Suc (length (filter (\<lambda>d. d \<noteq> None) xs))"
  using assms
proof (induction xs arbitrary: i)
  case (Cons x xs)
  then show ?case by (cases i) auto
qed simp

lemma take_echo_ok:
  assumes "echo_inv inbox server count st" and "length sent_at = unat count"
    and "(t, Inr (msg, src)) \<in> set inbox"
  shows "\<exists>st' w'. take_echo server sent_at (take 1500 msg) src st w = Ok (st', w') \<and> echo_inv inbox server count st'
    \<and> w_now w \<le> w_now w' \<and> w_log w' = w_log w \<and> w_socks w' = w_socks w"
proof (cases "\<exists>data sq. src = server \<and> parse_data_indication (take 1500 msg) = Ok (Some data)
    \<and> parse_seq data = Some sq \<and> unat sq < length (rtts st)")
  case False
  then show ?thesis using assms(1) parse_data_indication_no_panic [of "take 1500 msg"]
    by (auto simp: take_echo_def split: res.splits option.splits)
next
  case True
  then obtain sq where e: "src = server" "parse_data_indication (take 1500 msg) = Ok (Some (make_payload sq))"
    and sq: "unat sq < length (rtts st)" unfolding parse_seq_iff by auto
  have p: "parse_seq (make_payload sq) = Some sq" by (simp add: parse_seq_iff)
  obtain recv_at w1 where 1: "instant_now w = (recv_at, w1)" by fastforce
  have len: "length (rtts st) = unat count" using assms(1) by (simp add: echo_inv_def)
  have eq: "take_echo server sent_at (take 1500 msg) src st w =
      (case sent_at ! unat sq of None \<Rightarrow> Ok (st, w1)
       | Some send_at \<Rightarrow>
           if rtts st ! unat sq \<noteq> None then Ok (st\<lparr>duplicates := duplicates st + 1\<rparr>, w1)
           else Ok (st\<lparr>rtts := (rtts st)[unat sq := Some (recv_at - send_at)], received := received st + 1\<rparr>, w1))"
    using e sq 1 len assms(2) by (simp add: take_echo_def p split: option.split)
  have ech: "echoed inbox server (unat sq)" using e assms(3) by (auto simp: echoed_def)
  have "echo_inv inbox server count (st\<lparr>rtts := (rtts st)[unat sq := Some d], received := received st + 1\<rparr>)"
    if n: "rtts st ! unat sq = None" for d
  proof -
    have "length (filter (\<lambda>d. d \<noteq> None) (rtts st)) < length (rtts st)"
      by (rule length_filter_less [of "None"]) (use n sq in \<open>auto simp: in_set_conv_nth\<close>)
    then have "unat (received st) < unat count" using assms(1) by (simp add: echo_inv_def)
    then have "unat (received st + 1) = Suc (unat (received st))"
      using unsigned_less [of count, where 'a = nat] by (simp add: unat_word_ariths)
    then show ?thesis using assms(1) sq n ech
      by (auto simp: echo_inv_def filter_Some_update [simplified] nth_list_update)
  qed
  moreover have "echo_inv inbox server count (st\<lparr>duplicates := d\<rparr>)" for d
    using assms(1) by (simp add: echo_inv_def)
  ultimately show ?thesis using assms(1) instant_now_step [OF 1] unfolding eq
    by (auto split: option.splits)
qed

lemma recv_echoes_spec:
  assumes "echo_inv inbox server count st" and "length sent_at = unat count"
    and "set (w_inbox w sock) \<subseteq> set inbox"
  shows "case recv_echoes sock server count sent_at deadline st w of
      Panic \<Rightarrow> False
    | Err (e, w') \<Rightarrow> w_now w \<le> w_now w' \<and> w_log w' = w_log w \<and> w_socks w' = w_socks w
    | Ok (st', w') \<Rightarrow> echo_inv inbox server count st'
        \<and> w_now w \<le> w_now w' \<and> w_log w' = w_log w \<and> w_socks w' = w_socks w"
  using assms(1,3)
proof (induction "length (w_inbox w sock)" arbitrary: st w rule: less_induct)
  case (less w st)
  obtain now w1 where n: "instant_now w = (now, w1)" by fastforce
  obtain got w2 where r: "udp_recv sock (deadline - now) w1 = (got, w2)" by fastforce
  note st = instant_now_step [OF n] udp_recv_step [OF r]
  show ?case
  proof (cases "received st < count \<and> now < deadline")
    case False
    then show ?thesis using less.prems st n
      by (subst recv_echoes.simps) auto
  next
    case go: True
    show ?thesis
    proof (cases got)
      case (RecvOk buf src)
      from udp_recv_inbox [OF r [unfolded RecvOk]] obtain t msg rest
        where i: "w_inbox w1 sock = (t, Inr (msg, src)) # rest" "buf = take 1500 msg"
          "w_inbox w2 = (w_inbox w1)(sock := rest)" by blast
      have "w_inbox w1 = w_inbox w" by (rule instant_now_inbox [OF n])
      with i less.prems(2) have mem: "(t, Inr (msg, src)) \<in> set inbox" and sub: "set (w_inbox w2 sock) \<subseteq> set inbox"
        by auto
      from take_echo_ok [OF less.prems(1) assms(2) mem] obtain st' w3 where
        te: "take_echo server sent_at buf src st w2 = Ok (st', w3)" "echo_inv inbox server count st'"
          "w_now w2 \<le> w_now w3" "w_log w3 = w_log w2" "w_socks w3 = w_socks w2" unfolding i(2) by blast
      have eq: "recv_echoes sock server count sent_at deadline st w =
                  recv_echoes sock server count sent_at deadline st' w3"
        using go n r RecvOk te by (subst recv_echoes.simps) (simp add: Let_def)
      have sub3: "set (w_inbox w3 sock) \<subseteq> set inbox" using take_echo_inbox [OF te(1)] sub by simp
      have lt: "length (w_inbox w3 sock) < length (w_inbox w sock)"
        using udp_recv_shrinks [OF r [unfolded RecvOk]] take_echo_inbox [OF te(1)] instant_now_inbox [OF n] by simp
      have "case recv_echoes sock server count sent_at deadline st' w3 of
          Panic \<Rightarrow> False
        | Err (e, w') \<Rightarrow> w_now w3 \<le> w_now w' \<and> w_log w' = w_log w3 \<and> w_socks w' = w_socks w3
        | Ok (st', w') \<Rightarrow> echo_inv inbox server count st'
            \<and> w_now w3 \<le> w_now w' \<and> w_log w' = w_log w3 \<and> w_socks w' = w_socks w3"
        by (rule less.hyps [OF lt te(2) sub3])
      then show ?thesis unfolding eq using te(3-5) st by (auto split: res.splits prod.splits)
    qed (use go n r st less.prems in \<open>subst recv_echoes.simps, simp add: Let_def\<close>)+
  qed
qed

lemma fail_now_ex:
  obtains r w' where "fail_now i n st m ctx w = Ok (r, ctx, w')" "r_status r = Fail" "r_id r = i" "r_name r = n"
    "w_now w \<le> w_now w'" "w_log w' = w_log w" "w_socks w' = w_socks w"
  using fail_now_total [of i n st m ctx w] fail_now_Ok [of i n st m ctx w] by blast

lemma echo_inv_init: "echo_inv inbox server count \<lparr>rtts = replicate (unat count) None, received = 0, duplicates = 0\<rparr>"
  by (simp add: echo_inv_def)

lemma echo_report_sel [simp]:
  "r_id (echo_report s srflx rt count ms st) = echo_id" "r_name (echo_report s srflx rt count ms st) = echo_name"
  "r_status (echo_report s srflx rt count ms st) =
     (if received st = 0 then Fail else if received st = count then Pass else Warn)"
  by (simp_all add: echo_report_def Let_def split: prod.splits)

text \<open>All marked, when as many were received as numbers exist; some marked, when any was.\<close>

lemma echo_inv_all:
  assumes "echo_inv inbox server count st" and "received st = count"
  shows "\<forall>sq < unat count. echoed inbox server sq"
proof -
  have "length (filter (\<lambda>d. d \<noteq> None) (rtts st)) = length (rtts st)" using assms by (simp add: echo_inv_def)
  then have "rtts st ! sq \<noteq> None" if "sq < unat count" for sq
    using that assms(1) length_filter_less [of None "rtts st" "\<lambda>d. d \<noteq> None"]
    by (force simp: echo_inv_def in_set_conv_nth)
  then show ?thesis using assms(1) by (simp add: echo_inv_def)
qed

lemma echo_inv_some:
  assumes "echo_inv inbox server count st" and "received st \<noteq> 0"
  shows "\<exists>sq < unat count. echoed inbox server sq"
proof -
  have "filter (\<lambda>d. d \<noteq> None) (rtts st) \<noteq> []" using assms by (auto simp: echo_inv_def unat_eq_0 [symmetric])
  then obtain d where "d \<in> set (rtts st)" "d \<noteq> None" by (auto simp: filter_empty_conv)
  then show ?thesis using assms(1) by (auto simp: echo_inv_def in_set_conv_nth)
qed

text \<open>Once the sending is over: a result, no further effects; a good one needs all the payloads sent.\<close>

lemma echo_exchange_after:
  assumes "send_echoes (ts_socket s) (ts_relayed s) (unat count) [0..<unat count] (replicate (unat count) None) w = (res, w1)"
  shows "\<exists>r w'. echo_exchange s srflx rt count started ctx w = Ok (r, ctx, w') \<and> r_id r = echo_id \<and> r_name r = echo_name
     \<and> r_status r \<noteq> Skip \<and> w_now w1 \<le> w_now w' \<and> w_socks w' = w_socks w1 \<and> w_log w' = w_log w1
     \<and> (r_status r \<noteq> Fail \<longrightarrow> (\<exists>sent'. res = Inr sent'))
     \<and> (r_status r = Pass \<longrightarrow> (\<forall>sq < unat count. echoed (w_inbox w (ts_socket s)) (ts_server s) sq))
     \<and> (r_status r = Warn \<longrightarrow> (\<exists>sq < unat count. echoed (w_inbox w (ts_socket s)) (ts_server s) sq))"
proof (cases res)
  case (Inl e)
  obtain r w' where "echo_fail started e ctx w1 = Ok (r, ctx, w')" "r_status r = Fail" "r_id r = echo_id"
      "r_name r = echo_name" "w_now w1 \<le> w_now w'" "w_log w' = w_log w1" "w_socks w' = w_socks w1"
    by (rule fail_now_ex)
  then show ?thesis using assms Inl by (simp add: echo_exchange_def)
next
  case (Inr sent')
  then have len: "length sent' = unat count" and in1: "w_inbox w1 = w_inbox w" using send_echoes_spec [OF assms] by auto
  obtain last w2 where 2: "last_send_time sent' w1 = (last, w2)" by fastforce
  note l = last_send_time_step [OF 2]
  let ?recv = "recv_echoes (ts_socket s) (ts_server s) count sent' (last + rt)
    \<lparr>rtts = replicate (unat count) None, received = 0, duplicates = 0\<rparr> w2"
  note rc = recv_echoes_spec [where server = "ts_server s" and deadline = "last + rt" and sock = "ts_socket s" and w = w2,
      OF echo_inv_init len subset_refl]
  have in2: "w_inbox w2 = w_inbox w" using l in1 by simp
  show ?thesis
  proof (cases ?recv)
    case (Ok p)
    then obtain st w3 where ok: "?recv = Ok (st, w3)" by (cases p) auto
    obtain ms w4 where 4: "elapsed_ms started w3 = (ms, w4)" by fastforce
    have i: "echo_inv (w_inbox w (ts_socket s)) (ts_server s) count st"
        "w_now w2 \<le> w_now w3" "w_log w3 = w_log w2" "w_socks w3 = w_socks w2"
      using rc ok in2 by simp_all
    have "echo_exchange s srflx rt count started ctx w = Ok (echo_report s srflx rt count ms st, ctx, w4)"
      using assms Inr 2 ok 4 by (simp add: echo_exchange_def Let_def)
    then show ?thesis using Inr l i elapsed_ms_step [OF 4] echo_inv_all [OF i(1)] echo_inv_some [OF i(1)]
      by (intro exI [of _ "echo_report s srflx rt count ms st"] exI [of _ w4]) auto
  next
    case (Err p)
    then obtain e w3 where ok: "?recv = Err (e, w3)" by (cases p) auto
    obtain r w' where f: "echo_fail started (''recv echo failed: '' @ e) ctx w3 = Ok (r, ctx, w')" "r_status r = Fail"
        "r_id r = echo_id" "r_name r = echo_name" "w_now w3 \<le> w_now w'" "w_log w' = w_log w3" "w_socks w' = w_socks w3"
      by (rule fail_now_ex)
    then show ?thesis using assms Inr 2 ok l rc by (simp add: echo_exchange_def Let_def)
  qed (use rc in simp)
qed

text \<open>The exchange always ends in a result; what it sent, and what a good result rests on.\<close>

lemma echo_exchange_spec:
  assumes "0 < count"
  shows "\<exists>r w' es n. echo_exchange session srflx rt count started ctx w = Ok (r, ctx, w')
     \<and> r_id r = echo_id \<and> r_name r = echo_name \<and> r_status r \<noteq> Skip \<and> w_now w \<le> w_now w' \<and> w_socks w' = w_socks w
     \<and> w_log w' = w_log w @ es \<and> n \<le> unat count
     \<and> filter is_sent es = map (echo_sent (ts_socket session) (ts_relayed session)) [0..<n]
     \<and> (r_status r = Pass \<longrightarrow> n = unat count
          \<and> (\<forall>sq < n. echoed (w_inbox w (ts_socket session)) (ts_server session) sq))
     \<and> (r_status r = Warn \<longrightarrow> n = unat count
          \<and> (\<exists>sq < n. echoed (w_inbox w (ts_socket session)) (ts_server session) sq))"
proof -
  obtain res w1 where 1: "send_echoes (ts_socket session) (ts_relayed session) (unat count) [0..<unat count]
      (replicate (unat count) None) w = (res, w1)" by fastforce
  from send_echoes_spec [OF 1, unfolded length_upt length_replicate diff_zero] obtain es n where
    s: "w_now w \<le> w_now w1" "w_socks w1 = w_socks w" "w_log w1 = w_log w @ es"
      "n \<le> unat count" "filter is_sent es = map (echo_sent (ts_socket session) (ts_relayed session)) (take n [0..<unat count])"
    and case_res: "case res of Inl _ \<Rightarrow> n < unat count
             | Inr sent' \<Rightarrow> n = unat count \<and> length sent' = unat count
                 \<and> (\<forall>sq < unat count. sent' ! sq \<noteq> None
                      \<longleftrightarrow> sq \<in> set [0..<unat count] \<or> replicate (unat count) (None :: nat option) ! sq \<noteq> None)"
    by blast
  have res: "n = unat count" if "res = Inr sent'" for sent' using case_res that by simp
  have t: "take n [0..<unat count] = [0..<n]" using s(4) by (simp add: take_upt)
  from echo_exchange_after [OF 1, of srflx rt started ctx] obtain r w' where
    r: "echo_exchange session srflx rt count started ctx w = Ok (r, ctx, w')" "r_id r = echo_id" "r_name r = echo_name"
      "r_status r \<noteq> Skip" "w_now w1 \<le> w_now w'" "w_socks w' = w_socks w1" "w_log w' = w_log w1"
      "r_status r \<noteq> Fail \<longrightarrow> (\<exists>sent'. res = Inr sent')"
      "r_status r = Pass \<longrightarrow> (\<forall>sq < unat count. echoed (w_inbox w (ts_socket session)) (ts_server session) sq)"
      "r_status r = Warn \<longrightarrow> (\<exists>sq < unat count. echoed (w_inbox w (ts_socket session)) (ts_server session) sq)"
    by blast
  have n: "r_status r \<noteq> Fail \<longrightarrow> n = unat count" using r(8) res by auto
  show ?thesis
    by (rule exI [of _ r], rule exI [of _ w'], rule exI [of _ es], rule exI [of _ n]) (use s r n t in auto)
qed

text \<open>The permission: refused or lost, with at most the request sent, or granted, and then the exchange.\<close>

lemma turn_echo_run_total: "\<exists>r w'. turn_echo_run c ctx w = Ok (r, ctx, w')"
proof (cases "ctx_session ctx = None \<or> Option.bind (scratch ctx ''srflx'') parse_sock = None")
  case True
  then show ?thesis by (cases "ctx_session ctx") (auto simp: turn_echo_run_def)
next
  case False
  then obtain s srflx where ses: "ctx_session ctx = Some s" and sr: "Option.bind (scratch ctx ''srflx'') parse_sock = Some srflx"
    by auto
  have ex: "\<exists>r w'. echo_exchange s srflx rt count started ctx w = Ok (r, ctx, w')" for rt count started w
    using echo_exchange_after [of s count w] by (metis surj_pair)
  have fl: "\<exists>r w'. fail_now i n st m ctx w = Ok (r, ctx, w')" for i n st m w by (rule fail_now_ex) blast
  obtain t0 w1 where 1: "instant_now w = (t0, w1)" by fastforce
  obtain cl sa w2 where 2: "next_seed w1 = ((cl, sa), w2)" by (metis surj_pair)
  obtain txid req where b: "build_create_permission c cl sa (ts_username s) (ts_realm s) (ts_nonce s) (ts_key s) srflx = Ok (txid, req)"
    using build_create_permission_total by blast
  show ?thesis
    by (auto simp: turn_echo_run_def ses sr Let_def 1 2 b parse_create_permission_response_no_panic ex fl
        split: option.splits prod.splits recv_result.splits res.splits cp_outcome.splits)
qed

lemma turn_echo_run_stages:
  assumes run: "turn_echo_run c ctx w = Ok (r, ctx', w')"
    and ses: "ctx_session ctx = Some s" and sr: "Option.bind (scratch ctx ''srflx'') parse_sock = Some srflx"
  shows "\<exists>cl sa txid req. build_create_permission c cl sa (ts_username s) (ts_realm s) (ts_nonce s) (ts_key s) srflx = Ok (txid, req)
    \<and> (r_id r = echo_id \<and> r_name r = echo_name \<and> ctx' = ctx \<and> r_status r = Fail \<and> w_now w \<le> w_now w' \<and> w_socks w' = w_socks w
         \<and> (w_log w' = w_log w \<or> w_log w' = w_log w @ [Sent (ts_socket s) req (ts_server s)])
      \<or> (\<exists>t msg src rest started w1. w_inbox w (ts_socket s) = (t, Inr (msg, src)) # rest \<and> w_inbox w1 (ts_socket s) = rest
           \<and> parse_create_permission_response (take 1500 msg) txid = Ok CpSuccess
           \<and> w_now w \<le> w_now w1 \<and> w_socks w1 = w_socks w \<and> w_log w1 = w_log w @ [Sent (ts_socket s) req (ts_server s)]
           \<and> echo_exchange s srflx (recv_timeout_of ctx) (max (echo_count ctx) 1) started ctx w1 = Ok (r, ctx', w')))"
proof -
  obtain t0 w1 where 1: "instant_now w = (t0, w1)" by fastforce
  obtain cl sa w2 where 2: "next_seed w1 = ((cl, sa), w2)" by (metis surj_pair)
  obtain txid req where b: "build_create_permission c cl sa (ts_username s) (ts_realm s) (ts_nonce s) (ts_key s) srflx = Ok (txid, req)"
    using build_create_permission_total by blast
  obtain sent w3 where 3: "udp_send (ts_socket s) req (ts_server s) w2 = (sent, w3)" by fastforce
  obtain got w4 where 4: "udp_recv (ts_socket s) (recv_timeout_of ctx) w3 = (got, w4)" by fastforce
  note st = instant_now_step [OF 1] next_seed_step [OF 2] udp_send_step [OF 3] udp_recv_step [OF 4]
  note run = run [unfolded turn_echo_run_def, simplified ses sr option.case Let_def 1 2 b 3 prod.case bind_res.simps]
  show ?thesis
  proof (cases "sent = None \<and> (\<exists>buf src. got = RecvOk buf src \<and> parse_create_permission_response buf txid = Ok CpSuccess)")
    case True
    then obtain buf src where g: "sent = None" "got = RecvOk buf src"
      and cp: "parse_create_permission_response buf txid = Ok CpSuccess" by blast
    have "echo_exchange s srflx (recv_timeout_of ctx) (max (echo_count ctx) 1) t0 ctx w4 = Ok (r, ctx', w')"
      using run 4 g cp by simp
    moreover have "w_inbox w3 = w_inbox w" using instant_now_inbox [OF 1] next_seed_inbox [OF 2] udp_send_inbox [OF 3] by simp
    moreover from this udp_recv_inbox [OF 4 [unfolded g(2)]] obtain t msg rest where
      "w_inbox w (ts_socket s) = (t, Inr (msg, src)) # rest" "buf = take 1500 msg" "w_inbox w4 (ts_socket s) = rest" by auto
    moreover have "w_now w \<le> w_now w4" "w_socks w4 = w_socks w" "w_log w4 = w_log w @ [Sent (ts_socket s) req (ts_server s)]"
      using st g by auto
    ultimately show ?thesis using b cp by blast
  next
    case False
    have "r_id r = echo_id \<and> r_name r = echo_name \<and> ctx' = ctx \<and> r_status r = Fail \<and> w_now w \<le> w_now w' \<and> w_socks w' = w_socks w
         \<and> (w_log w' = w_log w \<or> w_log w' = w_log w @ [Sent (ts_socket s) req (ts_server s)])"
    proof (cases sent)
      case (Some e)
      then show ?thesis using run st by (auto dest!: fail_now_Ok)
    next
      case None
      then show ?thesis using run st 4 False
        by (auto split: recv_result.splits res.splits cp_outcome.splits dest!: fail_now_Ok)
    qed
    then show ?thesis using b by blast
  qed
qed

text \<open>The whole check.\<close>

lemma turn_echo_run_spec:
  "\<exists>r w' es. turn_echo_run c ctx w = Ok (r, ctx, w')
     \<and> r_id r = echo_id \<and> r_name r = echo_name \<and> w_now w \<le> w_now w' \<and> w_socks w' = w_socks w
     \<and> w_log w' = w_log w @ es
     \<and> (filter is_sent es = []
         \<and> r_status r = (if ctx_session ctx = None \<or> Option.bind (scratch ctx ''srflx'') parse_sock = None then Skip else Fail)
       \<or> (\<exists>session srflx cl sa txid req n.
            ctx_session ctx = Some session \<and> Option.bind (scratch ctx ''srflx'') parse_sock = Some srflx
          \<and> build_create_permission c cl sa (ts_username session) (ts_realm session) (ts_nonce session)
              (ts_key session) srflx = Ok (txid, req)
          \<and> n \<le> unat (max (echo_count ctx) 1)
          \<and> filter is_sent es = Sent (ts_socket session) req (ts_server session)
              # map (echo_sent (ts_socket session) (ts_relayed session)) [0..<n]
          \<and> (n = 0 \<and> r_status r = Fail
            \<or> (\<exists>t msg src rest. w_inbox w (ts_socket session) = (t, Inr (msg, src)) # rest
                \<and> parse_create_permission_response (take 1500 msg) txid = Ok CpSuccess
                \<and> r_status r \<noteq> Skip
                \<and> (r_status r = Pass \<longrightarrow> n = unat (max (echo_count ctx) 1)
                     \<and> (\<forall>sq < n. echoed rest (ts_server session) sq))
                \<and> (r_status r = Warn \<longrightarrow> n = unat (max (echo_count ctx) 1)
                     \<and> (\<exists>sq < n. echoed rest (ts_server session) sq))))))"
proof -
  obtain r w' where run: "turn_echo_run c ctx w = Ok (r, ctx, w')" using turn_echo_run_total by blast
  show ?thesis
  proof (cases "ctx_session ctx = None \<or> Option.bind (scratch ctx ''srflx'') parse_sock = None")
    case True
    then show ?thesis by (cases "ctx_session ctx") (auto simp: turn_echo_run_def)
  next
    case False
    then obtain s srflx where ses: "ctx_session ctx = Some s" and sr: "Option.bind (scratch ctx ''srflx'') parse_sock = Some srflx"
      by auto
    let ?sock = "ts_socket s" and ?count = "max (echo_count ctx) 1"
    from turn_echo_run_stages [OF run ses sr] obtain cl sa txid req where
      b: "build_create_permission c cl sa (ts_username s) (ts_realm s) (ts_nonce s) (ts_key s) srflx = Ok (txid, req)"
      and cs: "r_id r = echo_id \<and> r_name r = echo_name \<and> r_status r = Fail \<and> w_now w \<le> w_now w' \<and> w_socks w' = w_socks w
         \<and> (w_log w' = w_log w \<or> w_log w' = w_log w @ [Sent ?sock req (ts_server s)])
      \<or> (\<exists>t msg src rest started w1. w_inbox w ?sock = (t, Inr (msg, src)) # rest \<and> w_inbox w1 ?sock = rest
           \<and> parse_create_permission_response (take 1500 msg) txid = Ok CpSuccess
           \<and> w_now w \<le> w_now w1 \<and> w_socks w1 = w_socks w \<and> w_log w1 = w_log w @ [Sent ?sock req (ts_server s)]
           \<and> echo_exchange s srflx (recv_timeout_of ctx) ?count started ctx w1 = Ok (r, ctx, w'))" by blast
    from cs show ?thesis
    proof (elim disjE exE conjE)
      assume "r_id r = echo_id" "r_name r = echo_name" "r_status r = Fail" "w_now w \<le> w_now w'" "w_socks w' = w_socks w"
        "w_log w' = w_log w"
      then show ?thesis using run ses sr by (intro exI [of _ r] exI [of _ w'] exI [of _ "[]"]) simp
    next
      let ?es = "[Sent ?sock req (ts_server s)]"
      assume f: "r_id r = echo_id" "r_name r = echo_name" "r_status r = Fail" "w_now w \<le> w_now w'" "w_socks w' = w_socks w"
        "w_log w' = w_log w @ ?es"
      have "filter is_sent ?es = Sent ?sock req (ts_server s) # map (echo_sent ?sock (ts_relayed s)) [0..<0]" by simp
      then show ?thesis using run ses sr b f le0 by blast
    next
      fix t msg src rest started w1
      assume i: "w_inbox w ?sock = (t, Inr (msg, src)) # rest" "w_inbox w1 ?sock = rest"
        "parse_create_permission_response (take 1500 msg) txid = Ok CpSuccess"
        and w1: "w_now w \<le> w_now w1" "w_socks w1 = w_socks w" "w_log w1 = w_log w @ [Sent ?sock req (ts_server s)]"
        and ex: "echo_exchange s srflx (recv_timeout_of ctx) ?count started ctx w1 = Ok (r, ctx, w')"
      have "0 < ?count" by (rule less_le_trans [of 0 1]) simp_all
      from echo_exchange_spec [OF this, of s srflx "recv_timeout_of ctx" started ctx w1] ex obtain es n where
        x: "r_id r = echo_id" "r_name r = echo_name" "r_status r \<noteq> Skip" "w_now w1 \<le> w_now w'" "w_socks w' = w_socks w1"
          "w_log w' = w_log w1 @ es" "n \<le> unat ?count" "filter is_sent es = map (echo_sent ?sock (ts_relayed s)) [0..<n]"
          "r_status r = Pass \<longrightarrow> n = unat ?count \<and> (\<forall>sq < n. echoed rest (ts_server s) sq)"
          "r_status r = Warn \<longrightarrow> n = unat ?count \<and> (\<exists>sq < n. echoed rest (ts_server s) sq)"
        unfolding i(2) by auto
      have "filter is_sent (Sent ?sock req (ts_server s) # es) = Sent ?sock req (ts_server s)
              # map (echo_sent ?sock (ts_relayed s)) [0..<n]" using x(8) by simp
      moreover have "w_log w' = w_log w @ Sent ?sock req (ts_server s) # es" "w_now w \<le> w_now w'" "w_socks w' = w_socks w"
        using w1 x by simp_all
      ultimately show ?thesis using run ses sr b i(1,3) x by blast
    qed
  qed
qed

interpretation turn_echo: check_contract "turn_echo_check c" for c
proof unfold_locales
  fix ctx w r ctx' w'
  show "\<exists>r ctx' w'. c_run (turn_echo_check c) ctx w = Ok (r, ctx', w')"
    using turn_echo_run_spec [of c ctx w] by (auto simp: turn_echo_check_def)
  assume "c_run (turn_echo_check c) ctx w = Ok (r, ctx', w')"
  then have run: "turn_echo_run c ctx w = Ok (r, ctx', w')" by (simp add: turn_echo_check_def)
  have s: "r_id r = echo_id \<and> r_name r = echo_name \<and> later w w' \<and> ctx' = ctx"
    using turn_echo_run_spec [of c ctx w] run by (auto simp: later_def)
  show "r_id r = c_id (turn_echo_check c) \<and> r_name r = c_name (turn_echo_check c)"
    using s by (simp add: turn_echo_check_def)
  show "later w w'" "ctx_config ctx' = ctx_config ctx" using s by simp_all
qed

section \<open>Lemmas: a relay that loses nothing\<close>

text \<open>With a clock that moves only by pauses and arrivals, and sends that succeed.\<close>

definition calm :: "world \<Rightarrow> bool" where
  "calm w \<longleftrightarrow> w_ticks w = [] \<and> w_sends w = []"

lemma calm_steps [simp]:
  "calm w \<Longrightarrow> instant_now w = (w_now w, w)"
  "calm w \<Longrightarrow> udp_send s m d w = (None, w\<lparr>w_log := w_log w @ [Sent s m d]\<rparr>)"
  "calm (w\<lparr>w_log := l\<rparr>) = calm w" "calm (w\<lparr>w_now := t\<rparr>) = calm w" "calm (w\<lparr>w_inbox := i\<rparr>) = calm w"
  "calm (w\<lparr>w_seeds := ss\<rparr>) = calm w" "calm (sleep_for t w) = calm w"
  by (simp_all add: calm_def instant_now_def udp_send_def sleep_for_def)

lemma sleep_for_inbox [simp]: "w_inbox (sleep_for d w) = w_inbox w"
  by (simp add: sleep_for_def)

lemma send_echoes_calm:
  assumes "calm w" and "k < n" and "length sent_at = n"
  shows "\<exists>sent' w'. send_echoes sock relayed n [k..<n] sent_at w = (Inr sent', w')
    \<and> calm w' \<and> w_inbox w' = w_inbox w \<and> w_now w' = w_now w + ECHO_INTERVAL * (n - 1 - k)
    \<and> length sent' = n \<and> (\<forall>i < n. sent' ! i = (if i < k then sent_at ! i else Some (w_now w + ECHO_INTERVAL * (i - k))))"
  using assms
proof (induction "n - k" arbitrary: k sent_at w)
  case 0
  then show ?case by simp
next
  case (Suc m)
  let ?w1 = "w\<lparr>w_log := w_log w @ [Sent sock (make_payload (word_of_nat k)) relayed]\<rparr>"
  have up: "[k..<n] = k # [Suc k..<n]" using Suc.prems(2) by (simp add: upt_conv_Cons)
  have step: "send_echoes sock relayed n [k..<n] sent_at w =
      send_echoes sock relayed n [Suc k..<n] (sent_at[k := Some (w_now w)])
        (if k + 1 < n then sleep_for ECHO_INTERVAL ?w1 else ?w1)"
    unfolding up using Suc.prems(1) by (simp add: Let_def)
  show ?case
  proof (cases "Suc k < n")
    case True
    have "m = n - Suc k" using Suc.hyps(2) by simp
    from Suc.hyps(1) [OF this, of "sleep_for ECHO_INTERVAL ?w1" "sent_at[k := Some (w_now w)]"] True Suc.prems
    obtain sent' w' where r: "send_echoes sock relayed n [Suc k..<n] (sent_at[k := Some (w_now w)])
          (sleep_for ECHO_INTERVAL ?w1) = (Inr sent', w')"
        "calm w'" "w_inbox w' = w_inbox w" "w_now w' = w_now w + ECHO_INTERVAL + ECHO_INTERVAL * (n - 1 - Suc k)"
        "length sent' = n"
      and e: "\<forall>i < n. sent' ! i = (if i < Suc k then sent_at[k := Some (w_now w)] ! i
            else Some (w_now w + ECHO_INTERVAL + ECHO_INTERVAL * (i - Suc k)))"
      by auto
    have mult: "ECHO_INTERVAL + ECHO_INTERVAL * (j - Suc k) = ECHO_INTERVAL * (j - k)" if "k < j" for j
      using that by (metis Suc_diff_Suc mult_Suc_right)
    have "w_now w' = w_now w + ECHO_INTERVAL * (n - 1 - k)"
      using r(4) mult [of "n - 1"] True by simp
    moreover have "\<forall>i < n. sent' ! i = (if i < k then sent_at ! i else Some (w_now w + ECHO_INTERVAL * (i - k)))"
    proof (intro allI impI)
      fix i assume "i < n"
      then show "sent' ! i = (if i < k then sent_at ! i else Some (w_now w + ECHO_INTERVAL * (i - k)))"
        using e mult [of i] Suc.prems(3) by (cases "i = k") (auto simp: less_Suc_eq)
    qed
    ultimately show ?thesis using r True unfolding step by simp
  next
    case False
    then have n: "n = Suc k" using Suc.prems(2) by simp
    then show ?thesis using Suc.prems unfolding step by (auto simp: less_Suc_eq)
  qed
qed

lemma last_send_time_calm:
  assumes "length sent' = n" and "0 < n" and "\<forall>i < n. sent' ! i = Some (a + d * i)"
  shows "last_send_time sent' w = (a + d * (n - 1), w)"
proof -
  have s: "sent' = map (\<lambda>i. Some (a + d * i)) [0..<n]"
    using assms by (intro nth_equalityI) simp_all
  have f: "map the (filter (\<lambda>t. t \<noteq> None) sent') = map (\<lambda>i. a + d * i) [0..<n]"
    unfolding s by (simp add: filter_map comp_def del: not_None_eq)
  obtain t ts where t: "map (\<lambda>i. a + d * i) [0..<n] = t # ts"
    using assms(2) by (cases "map (\<lambda>i. a + d * i) [0..<n]") auto
  have "fold max ts t = Max (set (t # ts))" by (rule Max.set_eq_fold [symmetric])
  also have "set (t # ts) = (\<lambda>i. a + d * i) ` {0..<n}" by (simp flip: t)
  also have "Max \<dots> = a + d * (n - 1)"
    using assms(2) by (intro Max_eqI) auto
  finally show ?thesis by (simp add: last_send_time_def f t del: not_None_eq)
qed

text \<open>Every datagram on the queue is the echo of a number not yet marked.\<close>

lemma recv_echoes_calm:
  assumes "calm w" and "w_inbox w sock = map (\<lambda>sq. (tm sq, Inr (ind sq, server))) sqs"
    and "distinct sqs" and "\<forall>sq \<in> set sqs. sq < unat count \<and> rtts st ! sq = None \<and> tm sq < deadline
       \<and> parse_data_indication (take 1500 (ind sq)) = Ok (Some (make_payload (word_of_nat sq)))"
    and "w_now w < deadline" and "length (rtts st) = unat count" and "length sent_at = unat count"
    and "\<forall>i < unat count. sent_at ! i \<noteq> None"
    and "unat (received st) + length sqs = unat count"
  shows "\<exists>st' w'. recv_echoes sock server count sent_at deadline st w = Ok (st', w') \<and> received st' = count"
  using assms(1-6,9)
proof (induction sqs arbitrary: w st)
  case Nil
  then have "received st = count" by (simp add: word_unat_eq_iff)
  then show ?case by (subst recv_echoes.simps) simp
next
  case (Cons sq sqs)
  let ?w2 = "w\<lparr>w_now := max (w_now w) (tm sq),
     w_inbox := (w_inbox w)(sock := map (\<lambda>sq. (tm sq, Inr (ind sq, server))) sqs)\<rparr>"
  have sq: "sq < unat count" "rtts st ! sq = None" "tm sq < deadline"
    and p: "parse_data_indication (take 1500 (ind sq)) = Ok (Some (make_payload (word_of_nat sq)))"
    using Cons.prems(4) by simp_all
  have u: "unat (word_of_nat sq :: u32) = sq"
    using sq(1) unsigned_less [of count, where 'a = nat] by (simp add: unat_of_nat)
  have lt: "received st < count" using Cons.prems(7) by (simp add: word_less_nat_alt)
  have rc: "unat (received st + 1) = Suc (unat (received st))"
    using lt unsigned_less [of count, where 'a = nat] by (simp add: unat_word_ariths word_less_nat_alt)
  obtain sa where sa: "sent_at ! sq = Some sa" using assms(8) sq(1) by blast
  let ?st = "st\<lparr>rtts := (rtts st)[sq := Some (w_now ?w2 - sa)], received := received st + 1\<rparr>"
  have recv: "udp_recv sock (deadline - w_now w) w = (RecvOk (take 1500 (ind sq)) server, ?w2)"
    using Cons.prems(2,5) sq(3) by (simp add: udp_recv_def)
  have te: "take_echo server sent_at (take 1500 (ind sq)) server st ?w2 = Ok (?st, ?w2)"
    using Cons.prems(1,6) sq assms(7) sa p
    by (simp add: take_echo_def parse_seq_make_payload u)
  have eq: "recv_echoes sock server count sent_at deadline st w = recv_echoes sock server count sent_at deadline ?st ?w2"
    using Cons.prems(1,5) lt by (subst recv_echoes.simps) (simp add: recv te)
  show ?case unfolding eq
  proof (rule Cons.IH)
    show "\<forall>s \<in> set sqs. s < unat count \<and> rtts ?st ! s = None \<and> tm s < deadline
       \<and> parse_data_indication (take 1500 (ind s)) = Ok (Some (make_payload (word_of_nat s)))"
    proof
      fix s assume "s \<in> set sqs"
      moreover from this have "s \<noteq> sq" using Cons.prems(3) by auto
      ultimately show "s < unat count \<and> rtts ?st ! s = None \<and> tm s < deadline
         \<and> parse_data_indication (take 1500 (ind s)) = Ok (Some (make_payload (word_of_nat s)))"
        using Cons.prems(4) by simp
    qed
    show "unat (received ?st) + length sqs = unat count" using Cons.prems(7) rc by simp
  qed (use Cons.prems sq in \<open>auto\<close>)
qed

text \<open>With such a world the whole exchange passes.\<close>

lemma echo_exchange_calm:
  assumes "calm w" and "0 < count" and "length sqs = unat count" and "distinct sqs"
    and "w_inbox w (ts_socket s) = map (\<lambda>sq. (tm sq, Inr (ind sq, ts_server s))) sqs"
    and "\<forall>sq \<in> set sqs. sq < unat count \<and> tm sq < w_now w + ECHO_INTERVAL * (unat count - 1) + rt
       \<and> parse_data_indication (take 1500 (ind sq)) = Ok (Some (make_payload (word_of_nat sq)))"
    and "0 < rt"
  shows "\<exists>r w'. echo_exchange s srflx rt count started ctx w = Ok (r, ctx, w') \<and> r_status r = Pass"
proof -
  have pos: "0 < unat count" using assms(2) by (simp add: word_less_nat_alt)
  let ?init = "replicate (unat count) None :: nat option list"
  obtain sent' w1 where 1: "send_echoes (ts_socket s) (ts_relayed s) (unat count) [0..<unat count] ?init w = (Inr sent', w1)"
    and c: "calm w1" "w_inbox w1 = w_inbox w" "w_now w1 = w_now w + ECHO_INTERVAL * (unat count - 1)"
    and sent: "length sent' = unat count" "\<forall>i < unat count. sent' ! i = Some (w_now w + ECHO_INTERVAL * i)"
    using send_echoes_calm [OF assms(1) pos, of ?init "ts_socket s" "ts_relayed s"] by auto
  have 2: "last_send_time sent' w1 = (w_now w + ECHO_INTERVAL * (unat count - 1), w1)"
    by (rule last_send_time_calm [OF sent(1) pos sent(2)])
  let ?deadline = "w_now w + ECHO_INTERVAL * (unat count - 1) + rt"
  let ?st = "\<lparr>rtts = ?init, received = 0, duplicates = 0\<rparr>"
  have "\<exists>st' w'. recv_echoes (ts_socket s) (ts_server s) count sent' ?deadline ?st w1 = Ok (st', w') \<and> received st' = count"
  proof (rule recv_echoes_calm [OF c(1) _ assms(4)])
    show "w_inbox w1 (ts_socket s) = map (\<lambda>sq. (tm sq, Inr (ind sq, ts_server s))) sqs" using assms(5) c(2) by simp
    show "\<forall>sq \<in> set sqs. sq < unat count \<and> rtts ?st ! sq = None \<and> tm sq < ?deadline
       \<and> parse_data_indication (take 1500 (ind sq)) = Ok (Some (make_payload (word_of_nat sq)))"
      using assms(6) by simp
  qed (use assms(3,7) c(3) sent in simp_all)
  then obtain st' w2 where 3: "recv_echoes (ts_socket s) (ts_server s) count sent' ?deadline ?st w1 = Ok (st', w2)"
    and all: "received st' = count" by blast
  obtain ms w3 where 4: "elapsed_ms started w2 = (ms, w3)" by fastforce
  have "echo_exchange s srflx rt count started ctx w = Ok (echo_report s srflx rt count ms st', ctx, w3)"
    using 1 2 3 4 by (simp add: echo_exchange_def)
  then show ?thesis using all assms(2) by auto
qed

text \<open>The same for the whole check.\<close>

lemma lossless_run:
  assumes "ctx_session ctx = Some s" and "Option.bind (scratch ctx ''srflx'') parse_sock = Some srflx"
    and "w_ticks w = []" and "w_sends w = []" and "n = unat (max (echo_count ctx) 1)"
    and "fst (next_seed w) = (clock, stack_addr)"
    and "w_inbox w (ts_socket s) = (t_cp, Inr (reply, src)) # map (\<lambda>sq. (tm sq, Inr (ind sq, ts_server s))) sqs"
    and "t_cp \<le> w_now w + recv_timeout_of ctx"
    and "parse_create_permission_response (take 1500 reply) (new_txid clock stack_addr) = Ok CpSuccess"
    and "distinct sqs" and "set sqs = {0..<n}"
    and "\<forall>sq < n. tm sq < max (w_now w) t_cp + ECHO_INTERVAL * (n - 1) + recv_timeout_of ctx
       \<and> parse_data_indication (take 1500 (ind sq)) = Ok (Some (make_payload (word_of_nat sq)))"
  shows "\<exists>r w'. turn_echo_run c ctx w = Ok (r, ctx, w') \<and> r_status r = Pass"
proof -
  let ?count = "max (echo_count ctx) 1" and ?sock = "ts_socket s"
  have calm: "calm w" using assms(3,4) by (simp add: calm_def)
  obtain w1 where 1: "next_seed w = ((clock, stack_addr), w1)" using assms(6) by (metis prod.collapse)
  have w1: "calm w1" "w_inbox w1 = w_inbox w" "w_now w1 = w_now w"
    using 1 calm next_seed_inbox [OF 1] by (auto simp: next_seed_def split: list.splits)
  obtain req where b: "build_create_permission c clock stack_addr (ts_username s) (ts_realm s)
      (ts_nonce s) (ts_key s) srflx = Ok (new_txid clock stack_addr, req)"
    using build_create_permission_total by blast
  let ?w2 = "w1\<lparr>w_log := w_log w1 @ [Sent ?sock req (ts_server s)]\<rparr>"
  let ?w3 = "?w2\<lparr>w_now := max (w_now w) t_cp,
      w_inbox := (w_inbox w)(?sock := map (\<lambda>sq. (tm sq, Inr (ind sq, ts_server s))) sqs)\<rparr>"
  have 2: "udp_recv ?sock (recv_timeout_of ctx) ?w2 = (RecvOk (take 1500 reply) src, ?w3)"
    using w1 assms(7,8) by (simp add: udp_recv_def)
  have eq: "turn_echo_run c ctx w = echo_exchange s srflx (recv_timeout_of ctx) ?count (w_now w) ctx ?w3"
    using assms(1,2,9) calm 1 b w1(1) 2 by (simp add: turn_echo_run_def)
  have "\<exists>r w'. echo_exchange s srflx (recv_timeout_of ctx) ?count (w_now w) ctx ?w3 = Ok (r, ctx, w') \<and> r_status r = Pass"
  proof (rule echo_exchange_calm [where sqs = sqs and tm = tm and ind = ind])
    show "0 < ?count" by (rule less_le_trans [of 0 1]) simp_all
    show "length sqs = unat ?count" using assms(5,10,11) by (metis card_atLeastLessThan diff_zero distinct_card)
    show "0 < recv_timeout_of ctx" by (simp add: recv_timeout_of_def)
  qed (use assms(5,10,11,12) w1 in auto)
  then show ?thesis unfolding eq .
qed

section \<open>Properties\<close>

text \<open>A payload reads as a sequence number exactly when it is the payload made for that
  number, so no other datagram can be mistaken for an echo.\<close>

theorem parse_seq_inverse:
  "parse_seq payload = Some sq \<longleftrightarrow> payload = make_payload sq"
  by (rule parse_seq_iff)

text \<open>From a Data Indication with any attributes the value of the first DATA attribute is
  taken, whatever bytes follow it, malformed ones included; no buffer makes the parser panic.\<close>

theorem data_indication_first_data:
  assumes "length txid = 12" and "\<forall>a \<in> set pre. attr_fits a \<and> attr_type a \<noteq> DATA"
    and "length payload < 65536"
    and "body = concat (map enc_attr pre) @ enc_attr \<lparr>attr_type = DATA, attr_value = payload\<rparr> @ junk"
    and "length body < 65536"
  shows "parse_data_indication (message DATA_INDICATION txid body) = Ok (Some payload)
       \<and> parse_data_indication buf \<noteq> Panic"
  using assms
  by (simp add: parse_data_indication_message first_data_encs first_data_enc attr_fits_def parse_data_indication_no_panic)

theorem data_indication_first_data_witness:
  "parse_data_indication (message DATA_INDICATION (replicate 12 1)
     (concat (map enc_attr [\<lparr>attr_type = XOR_PEER_ADDRESS, attr_value = [1, 2, 3]\<rparr>])
        @ enc_attr \<lparr>attr_type = DATA, attr_value = make_payload 7\<rparr> @ [0xFF, 0xFF, 0xFF, 0xFF]))
   = Ok (Some (make_payload 7))"
  by (rule data_indication_first_data [THEN conjunct1, OF _ _ _ refl])
    (simp_all add: attr_fits_def attr_defs length_enc_attr pad4_def ECHO_PREFIX_def)

text \<open>Everything the echo check sends goes over the allocation's socket: first the
  CreatePermission request for the client's reflexive address to the server, and then, only
  if the first answer that came back is a success under that request's transaction id, the
  numbered payloads 0, 1, 2, ... to the relayed address, in this order, at most the configured
  count (at least one).  It changes nothing in the context.\<close>

theorem echo_after_permission:
  assumes "turn_echo_run c ctx w = Ok (r, ctx', w')"
  shows "ctx' = ctx \<and> (\<exists>es. w_log w' = w_log w @ es
     \<and> (filter is_sent es = []
       \<or> (\<exists>session srflx cl sa txid req n.
            ctx_session ctx = Some session \<and> Option.bind (scratch ctx ''srflx'') parse_sock = Some srflx
          \<and> build_create_permission c cl sa (ts_username session) (ts_realm session) (ts_nonce session)
              (ts_key session) srflx = Ok (txid, req)
          \<and> filter is_sent es = Sent (ts_socket session) req (ts_server session)
              # map (\<lambda>sq. Sent (ts_socket session) (make_payload (word_of_nat sq)) (ts_relayed session)) [0..<n]
          \<and> n \<le> unat (max (echo_count ctx) 1)
          \<and> (n = 0 \<or> (\<exists>t msg src rest. w_inbox w (ts_socket session) = (t, Inr (msg, src)) # rest
                \<and> parse_create_permission_response (take 1500 msg) txid = Ok CpSuccess)))))"
proof -
  have e: "echo_sent sock rel = (\<lambda>sq. Sent sock (make_payload (word_of_nat sq)) rel)" for sock rel
    by (rule ext) (simp add: echo_sent_def)
  show ?thesis using turn_echo_run_spec [of c ctx w] assms unfolding e by simp blast
qed

text \<open>C7: An echo check passes only if, for every sequence number from 0 below the count, the TURN
  server sent a Data Indication whose DATA is exactly the payload of that number, after the
  answer to CreatePermission; it warns only if that holds for at least one number.\<close>

theorem echo_pass_means:
  assumes "turn_echo_run c ctx w = Ok (r, ctx', w')" and "r_status r = Pass \<or> r_status r = Warn"
  shows "\<exists>session t msg src rest. ctx_session ctx = Some session
     \<and> w_inbox w (ts_socket session) = (t, Inr (msg, src)) # rest
     \<and> (r_status r = Pass \<longrightarrow>
          (\<forall>sq < unat (max (echo_count ctx) 1). echoed rest (ts_server session) sq))
     \<and> (\<exists>sq < unat (max (echo_count ctx) 1). echoed rest (ts_server session) sq)"
proof -
  have "0 < max (echo_count ctx) 1" by (rule less_le_trans [of 0 1]) simp_all
  then have pos: "0 < unat (max (echo_count ctx) 1)" by (simp add: word_less_nat_alt)
  obtain session t msg src rest where s: "ctx_session ctx = Some session"
      "w_inbox w (ts_socket session) = (t, Inr (msg, src)) # rest"
    and p: "r_status r = Pass \<longrightarrow> (\<forall>sq < unat (max (echo_count ctx) 1). echoed rest (ts_server session) sq)"
    and q: "r_status r = Warn \<longrightarrow> (\<exists>sq < unat (max (echo_count ctx) 1). echoed rest (ts_server session) sq)"
  proof -
    have "r_status r \<noteq> Fail" "r_status r \<noteq> Skip" using assms(2) by auto
    then show thesis using turn_echo_run_spec [of c ctx w] assms(1) that by (simp split: if_splits) blast+
  qed
  have "\<exists>sq < unat (max (echo_count ctx) 1). echoed rest (ts_server session) sq"
    using p q pos assms(2) by blast
  with s p show ?thesis by blast
qed

text \<open>C26: On a relay that loses nothing the echo check passes, for every count: the permission is granted within the
  receive timeout, then the relay returns every payload exactly once, in any order, each before the deadline (the
  receive timeout after the last send, which comes 20 ms times the count less one after the permission), and
  nothing else arrives on the socket.  This is for a network and a clock that do not interfere: every send
  succeeds, and time passes only in the pauses and in waiting for datagrams.\<close>

theorem lossless_relay_passes:
  assumes "ctx_session ctx = Some s" and "Option.bind (scratch ctx ''srflx'') parse_sock = Some srflx"
    and "w_ticks w = []" and "w_sends w = []" and "n = unat (max (echo_count ctx) 1)"
    and "fst (next_seed w) = (clock, stack_addr)"
    and "w_inbox w (ts_socket s) = (t_cp, Inr (reply, src)) # map (\<lambda>sq. (tm sq, Inr (ind sq, ts_server s))) sqs"
    and "t_cp \<le> w_now w + recv_timeout_of ctx"
    and "parse_create_permission_response (take 1500 reply) (new_txid clock stack_addr) = Ok CpSuccess"
    and "distinct sqs" and "set sqs = {0..<n}"
    and "\<forall>sq < n. tm sq < max (w_now w) t_cp + ECHO_INTERVAL * (n - 1) + recv_timeout_of ctx
       \<and> parse_data_indication (take 1500 (ind sq)) = Ok (Some (make_payload (word_of_nat sq)))"
  shows "\<exists>r w'. turn_echo_run c ctx w = Ok (r, ctx, w') \<and> r_status r = Pass"
  using assms by (rule lossless_run)

lemma build_create_permission_message:
  assumes "crypto_sizes c"
  shows "build_create_permission c t s user realm nonce key peer =
     Ok (new_txid t s, mi_message c CREATE_PERMISSION_REQUEST (new_txid t s)
       (concat (map enc_attr (\<lparr>attr_type = XOR_PEER_ADDRESS, attr_value = build_xor_address peer (new_txid t s)\<rparr>
          # auth_attrs user realm nonce))) key)"
  using assms
  by (simp add: build_create_permission_def append_attr_enc attach_mi_message auth_attrs_def Let_def mi_message_def)

text \<open>C30: With digests of their standard sizes, and user, realm and nonce of at most 65462 bytes together (beyond
  which a length field of 16 bits would wrap), the CreatePermission request is read back by a receiver as a
  peer address that decodes to the client's reflexive address, the session's user, realm and nonce, and a last
  attribute MESSAGE-INTEGRITY over everything before it, under the session's key.\<close>

theorem create_permission_received:
  assumes "crypto_sizes c" and "length user + length realm + length nonce \<le> 65462"
  shows "\<exists>txid msg h peer_attr.
       build_create_permission c t s user realm nonce key peer = Ok (txid, msg)
     \<and> parse_header msg txid = Ok h \<and> msg_type h = CREATE_PERMISSION_REQUEST
     \<and> walk_attrs msg (attrs_len h) =
         Ok [\<lparr>attr_type = XOR_PEER_ADDRESS, attr_value = peer_attr\<rparr>,
             \<lparr>attr_type = USERNAME, attr_value = as_bytes user\<rparr>,
             \<lparr>attr_type = REALM, attr_value = as_bytes realm\<rparr>,
             \<lparr>attr_type = NONCE, attr_value = nonce\<rparr>,
             \<lparr>attr_type = MESSAGE_INTEGRITY, attr_value = hmac_sha1 c key (take (length msg - 24) msg)\<rparr>]
     \<and> parse_xor_address peer_attr txid = Ok (sock_new (sock_ip peer) (sock_port peer))"
proof -
  let ?txid = "new_txid t s"
  define peer_attr where "peer_attr = build_xor_address peer ?txid"
  let ?as = "\<lparr>attr_type = XOR_PEER_ADDRESS, attr_value = peer_attr\<rparr> # auth_attrs user realm nonce"
  let ?msg = "mi_message c CREATE_PERMISSION_REQUEST ?txid (concat (map enc_attr ?as)) key"
  have b: "build_create_permission c t s user realm nonce key peer = Ok (?txid, ?msg)"
    by (simp only: build_create_permission_message [OF assms(1)] peer_attr_def)
  have len: "length peer_attr \<le> 20"
    using length_build_xor_address [of ?txid peer] by (simp add: peer_attr_def split: ipaddr.splits)
  have "pad4 (length peer_attr) + (pad4 (length user) + (pad4 (length realm) + pad4 (length nonce))) \<le> 12"
    using pad4_le [of "length peer_attr"] pad4_le [of "length user"] pad4_le [of "length realm"] pad4_le [of "length nonce"]
    by linarith
  then have bound: "length (concat (map enc_attr ?as)) + 24 < 65536"
    using assms(2) len by (simp add: auth_attrs_def length_enc_attr)
  have fits: "\<forall>a \<in> set ?as. attr_fits a"
    using assms(2) len by (auto simp: auth_attrs_def attr_fits_def)
  obtain h where "parse_header ?msg ?txid = Ok h" "msg_type h = CREATE_PERMISSION_REQUEST"
    "walk_attrs ?msg (attrs_len h) = Ok (?as @ [\<lparr>attr_type = MESSAGE_INTEGRITY,
        attr_value = hmac_sha1 c key (take (length ?msg - 24) ?msg)\<rparr>])"
    using mi_message_received [OF length_new_txid assms(1) fits bound refl] by blast
  moreover have "parse_xor_address peer_attr ?txid = Ok (sock_new (sock_ip peer) (sock_port peer))"
    by (simp add: peer_attr_def xor_address_roundtrip sock_norm_def)
  ultimately show ?thesis using b
    by - (rule exI [of _ ?txid], rule exI [of _ ?msg], rule exI [of _ h], rule exI [of _ peer_attr],
        simp add: auth_attrs_def)
qed

text \<open>An example: two numbers, echoed in the opposite order.\<close>

definition example_indication :: "nat \<Rightarrow> bytes" where
  "example_indication sq = message DATA_INDICATION example_txid
     (enc_attr \<lparr>attr_type = DATA, attr_value = make_payload (word_of_nat sq)\<rparr>)"

definition example_cp_reply :: bytes where
  "example_cp_reply = message CREATE_PERMISSION_SUCCESS example_txid []"

definition example_session :: turn_session where
  "example_session = \<lparr>ts_socket = 0, ts_server = SockV4 1 3478, ts_relayed = SockV4 2 49152,
     ts_realm = ''r'', ts_nonce = [110], ts_key = replicate 16 0, ts_username = ''u''\<rparr>"

definition example_echo_ctx :: probe_ctx where
  "example_echo_ctx = example_turn_ctx\<lparr>echo_count := 2, ctx_session := Some example_session,
     scratch := [''srflx'' \<mapsto> show_sock (SockV4 0x01020304 5)]\<rparr>"

definition example_echo_world :: world where
  "example_echo_world = quiet_world\<lparr>w_inbox := (\<lambda>_. (1, Inr (example_cp_reply, SockV4 1 3478))
     # map (\<lambda>sq. (9, Inr (example_indication sq, SockV4 1 3478))) [1, 0])\<rparr>"

lemma example_cp_reply_parses:
  "parse_create_permission_response (take 1500 example_cp_reply) example_txid = Ok CpSuccess"
  by (simp add: example_cp_reply_def parse_create_permission_response_def parse_header_message)

lemma example_indication_parses:
  "parse_data_indication (take 1500 (example_indication sq)) = Ok (Some (make_payload (word_of_nat sq)))"
proof -
  have len: "length (enc_attr \<lparr>attr_type = DATA, attr_value = make_payload (word_of_nat sq)\<rparr>) = 32"
    by (simp add: length_enc_attr ECHO_PREFIX_def pad4_def)
  have "take 1500 (example_indication sq) = example_indication sq"
    using len by (simp add: example_indication_def)
  moreover have "attr_fits \<lparr>attr_type = DATA, attr_value = make_payload (word_of_nat sq)\<rparr>"
    by (simp add: attr_fits_def ECHO_PREFIX_def)
  ultimately show ?thesis
    using len first_data_enc [of "\<lparr>attr_type = DATA, attr_value = make_payload (word_of_nat sq)\<rparr>" "[]"]
    by (simp add: example_indication_def parse_data_indication_message)
qed

lemmas example_echo_defs =
  example_echo_ctx_def example_echo_world_def example_session_def example_turn_ctx_def example_ctx_def
  world_eval recv_timeout_of_def new_txid_example example_cp_reply_parses example_indication_parses ECHO_INTERVAL_def

theorem lossless_relay_passes_witness:
  "\<exists>r w'. turn_echo_run zero_crypto example_echo_ctx example_echo_world = Ok (r, example_echo_ctx, w') \<and> r_status r = Pass"
proof (rule lossless_relay_passes [where s = example_session and sqs = "[1, 0]" and n = 2 and t_cp = 1
      and tm = "\<lambda>_. 9" and ind = example_indication and reply = example_cp_reply and src = "SockV4 1 3478"
      and clock = None and stack_addr = 0])
  show "Option.bind (scratch example_echo_ctx ''srflx'') parse_sock = Some (SockV4 0x01020304 5)"
    by (simp only: example_echo_ctx_def) (simp add: parse_show_v4 del: show_sock.simps)
  show "set [1, 0] = {0..<2::nat}" by auto
qed (simp_all add: example_echo_defs)

lemma example_echo_run:
  "\<exists>r w'. turn_echo_run zero_crypto example_echo_ctx example_echo_world = Ok (r, example_echo_ctx, w') \<and> r_status r = Pass"
proof (rule lossless_run [where s = example_session and sqs = "[1, 0]" and n = 2 and t_cp = 1
      and tm = "\<lambda>_. 9" and ind = example_indication and reply = example_cp_reply and src = "SockV4 1 3478"
      and clock = None and stack_addr = 0])
  show "Option.bind (scratch example_echo_ctx ''srflx'') parse_sock = Some (SockV4 0x01020304 5)"
    by (simp only: example_echo_ctx_def) (simp add: parse_show_v4 del: show_sock.simps)
  show "set [1, 0] = {0..<2::nat}" by auto
qed (simp_all add: example_echo_defs)

theorem echo_after_permission_witness:
  "\<exists>r w' es. turn_echo_run zero_crypto example_echo_ctx example_echo_world = Ok (r, example_echo_ctx, w')
     \<and> w_log w' = es
     \<and> (filter is_sent es = [] \<or> (\<exists>req n. n \<le> 2 \<and> filter is_sent es = Sent 0 req (SockV4 1 3478)
          # map (\<lambda>sq. Sent 0 (make_payload (word_of_nat sq)) (SockV4 2 49152)) [0..<n]))"
proof -
  obtain r w' where run: "turn_echo_run zero_crypto example_echo_ctx example_echo_world = Ok (r, example_echo_ctx, w')"
    using example_echo_run by blast
  have c: "ctx_session example_echo_ctx = Some example_session" "unat (max (echo_count example_echo_ctx) 1) = 2"
    "ts_socket example_session = 0" "ts_server example_session = SockV4 1 3478"
    "ts_relayed example_session = SockV4 2 49152" "w_log example_echo_world = []"
    by (simp_all add: example_echo_defs)
  show ?thesis using echo_after_permission [OF run] run by (auto simp: c)
qed

theorem echo_pass_means_witness:
  "echoed [(9, Inr (example_indication 1, SockV4 1 3478)), (9, Inr (example_indication 0, SockV4 1 3478))] (SockV4 1 3478) 1"
proof -
  obtain r w' where run: "turn_echo_run zero_crypto example_echo_ctx example_echo_world = Ok (r, example_echo_ctx, w')"
    and p: "r_status r = Pass" using example_echo_run by blast
  have c: "ctx_session example_echo_ctx = Some example_session" "unat (max (echo_count example_echo_ctx) 1) = 2"
    "ts_socket example_session = 0" "ts_server example_session = SockV4 1 3478"
    "w_inbox example_echo_world 0 = (1, Inr (example_cp_reply, SockV4 1 3478))
     # [(9, Inr (example_indication 1, SockV4 1 3478)), (9, Inr (example_indication 0, SockV4 1 3478))]"
    by (simp_all add: example_echo_defs)
  show ?thesis using echo_pass_means [OF run] p by (auto simp: c)
qed

theorem create_permission_received_witness:
  "\<exists>txid msg h. build_create_permission zero_crypto None 0 ''u'' ''r'' [110] [7] (SockV4 1 2) = Ok (txid, msg)
     \<and> parse_header msg txid = Ok h \<and> msg_type h = CREATE_PERMISSION_REQUEST"
  using create_permission_received [of zero_crypto "''u''" "''r''" "[110]" None 0 "[7]" "SockV4 1 2"] by auto

end
