(* ===== verification/Ice_Gather.thy ===== *)
theory Ice_Gather
  imports Turn_Echo
begin

text \<open>
  The ICE gathering check, \<open>crates/probe-core/src/checks/ice_gather.rs\<close>: host candidates
  from the local interfaces (the crate \<open>if-addrs\<close>, \<open>w_ifaddrs\<close> of the world), the
  server-reflexive address the STUN check left in the context, and the relayed address of
  an open TURN session.  It sends nothing.
\<close>

section \<open>Host address filter\<close>

text \<open>The predicates of \<open>std::net::Ipv4Addr\<close> and \<open>Ipv6Addr\<close> that the filter calls.\<close>

definition octet :: "nat \<Rightarrow> u32 \<Rightarrow> u8" where
  "octet i a = ucast (drop_bit (8 * (3 - i)) a)"

definition v4_loopback :: "u32 \<Rightarrow> bool" where "v4_loopback a \<longleftrightarrow> octet 0 a = 127"
definition v4_link_local :: "u32 \<Rightarrow> bool" where "v4_link_local a \<longleftrightarrow> octet 0 a = 169 \<and> octet 1 a = 254"
definition v4_unspecified :: "u32 \<Rightarrow> bool" where "v4_unspecified a \<longleftrightarrow> a = 0"
definition v4_multicast :: "u32 \<Rightarrow> bool" where "v4_multicast a \<longleftrightarrow> 224 \<le> octet 0 a \<and> octet 0 a \<le> 239"
definition v4_broadcast :: "u32 \<Rightarrow> bool" where "v4_broadcast a \<longleftrightarrow> a = 0xFFFFFFFF"

definition v6_loopback :: "u128 \<Rightarrow> bool" where "v6_loopback a \<longleftrightarrow> a = 1"
definition v6_unspecified :: "u128 \<Rightarrow> bool" where "v6_unspecified a \<longleftrightarrow> a = 0"
definition v6_multicast :: "u128 \<Rightarrow> bool" where "v6_multicast a \<longleftrightarrow> (ucast (drop_bit 120 a) :: u8) = 0xFF"

definition is_useful_v4 :: "u32 \<Rightarrow> bool" where
  "is_useful_v4 v4 =
     (if v4_loopback v4 then False
      else if v4_link_local v4 then False
      else if v4_unspecified v4 then False
      else if v4_multicast v4 \<or> v4_broadcast v4 then False
      else True)"

definition is_useful_v6 :: "u128 \<Rightarrow> bool" where
  "is_useful_v6 v6 =
     (if v6_loopback v6 then False
      else if v6_unspecified v6 then False
      else if v6_multicast v6 then False
      else let seg0 = segments v6 ! 0 in if seg0 AND 0xffc0 = 0xfe80 then False
      else True)"

definition is_useful_host_address :: "ipaddr \<Rightarrow> bool" where
  "is_useful_host_address ip = (case ip of V4 v4 \<Rightarrow> is_useful_v4 v4 | V6 v6 \<Rightarrow> is_useful_v6 v6)"

section \<open>Candidates\<close>

definition ice_id :: string where "ice_id = ''ice.gather''"
definition ice_name :: string where "ice_name = ''ICE candidate gathering''"

record candidate =
  ca_kind :: string
  ca_address :: string
  ca_port :: u16
  ca_interface :: "string option"
  ca_via :: "string option"

definition candidate_json :: "candidate \<Rightarrow> json" where
  "candidate_json c =
     JObj ([(''kind'', JStr (ca_kind c)), (''address'', JStr (ca_address c)), (''port'', JNum (unat (ca_port c)))]
       @ (case ca_interface c of None \<Rightarrow> [] | Some i \<Rightarrow> [(''interface'', JStr i)])
       @ (case ca_via c of None \<Rightarrow> [] | Some v \<Rightarrow> [(''via'', JStr v)]))"

record kind_counts =
  kc_host :: nat
  kc_srflx :: nat
  kc_relay :: nat

fun count_kinds_loop :: "candidate list \<Rightarrow> kind_counts \<Rightarrow> kind_counts" where
  "count_kinds_loop [] k = k"
| "count_kinds_loop (c # cs) k =
     count_kinds_loop cs
       (if ca_kind c = ''host'' then k\<lparr>kc_host := kc_host k + 1\<rparr>
        else if ca_kind c = ''srflx'' then k\<lparr>kc_srflx := kc_srflx k + 1\<rparr>
        else if ca_kind c = ''relay'' then k\<lparr>kc_relay := kc_relay k + 1\<rparr>
        else k)"

definition count_kinds :: "candidate list \<Rightarrow> kind_counts" where
  "count_kinds cs = count_kinds_loop cs \<lparr>kc_host = 0, kc_srflx = 0, kc_relay = 0\<rparr>"

section \<open>The check\<close>

text \<open>The loop over the interfaces.\<close>

fun host_candidates :: "(string \<times> ipaddr) list \<Rightarrow> candidate list \<Rightarrow> candidate list" where
  "host_candidates [] out = out"
| "host_candidates ((name, ip) # ifas) out =
     (if \<not> is_useful_host_address ip then host_candidates ifas out
      else host_candidates ifas
        (out @ [\<lparr>ca_kind = ''host'', ca_address = show_ip ip, ca_port = 0, ca_interface = Some name, ca_via = None\<rparr>]))"

text \<open>\<open>ctx.host.as_ref().zip(ctx.port).map(|(h, p)| format!("stun:{h}:{p}"))\<close>.\<close>

definition via_url :: "string \<Rightarrow> probe_ctx \<Rightarrow> string option" where
  "via_url scheme ctx =
     (case (ctx_host ctx, ctx_port ctx) of
        (Some h, Some p) \<Rightarrow> Some (scheme @ '':'' @ h @ '':'' @ show_word p)
      | _ \<Rightarrow> None)"

definition srflx_candidates :: "probe_ctx \<Rightarrow> candidate list" where
  "srflx_candidates ctx =
     (case scratch ctx ''srflx'' of
        None \<Rightarrow> []
      | Some s \<Rightarrow>
          (case parse_sock s of
             None \<Rightarrow> []
           | Some addr \<Rightarrow>
               [\<lparr>ca_kind = ''srflx'', ca_address = show_ip (sock_ip addr), ca_port = sock_port addr,
                 ca_interface = None, ca_via = via_url ''stun'' ctx\<rparr>]))"

definition relay_candidates :: "probe_ctx \<Rightarrow> candidate list" where
  "relay_candidates ctx =
     (case ctx_session ctx of
        None \<Rightarrow> []
      | Some session \<Rightarrow>
          [\<lparr>ca_kind = ''relay'', ca_address = show_ip (sock_ip (ts_relayed session)),
            ca_port = sock_port (ts_relayed session), ca_interface = None, ca_via = via_url ''turn'' ctx\<rparr>])"

definition ice_run :: "probe_ctx \<Rightarrow> world \<Rightarrow> run_outcome" where
  "ice_run ctx w =
     (let (started, w) = instant_now w
      in case w_ifaddrs w of
           Inl e \<Rightarrow> fail_now ice_id ice_name started (''enumerate interfaces failed: '' @ e) ctx w
         | Inr addrs \<Rightarrow>
             (let candidates = host_candidates addrs [] @ srflx_candidates ctx @ relay_candidates ctx;
                  (ms, w) = elapsed_ms started w;
                  counts = count_kinds candidates;
                  summary = dec (length candidates) @ '' candidates ('' @ dec (kc_host counts) @ '' host, ''
                    @ dec (kc_srflx counts) @ '' srflx, '' @ dec (kc_relay counts) @ '' relay)'';
                  result = (if candidates = [] then warn_result ice_id ice_name ms ''no candidates gathered''
                            else pass_result ice_id ice_name ms summary)
              in Ok (with_detail result
                       (JObj [(''candidates'', JArr (map candidate_json candidates)),
                              (''counts'', JObj [(''host'', JNum (kc_host counts)), (''srflx'', JNum (kc_srflx counts)),
                                                 (''relay'', JNum (kc_relay counts))])]),
                     ctx, w)))"

definition ice_check :: check where
  "ice_check = \<lparr>c_id = ice_id, c_name = ice_name, c_requires = [stun_id], c_run = ice_run\<rparr>"

section \<open>Lemmas: the filter\<close>

lemma unat_octet_0: "unat (octet 0 a) = unat a div 2 ^ 24"
proof -
  have "unat a div 2 ^ 24 < 256" using unsigned_less [of a, where 'a = nat] by simp
  then show ?thesis by (simp add: octet_def unsigned_ucast_eq unsigned_drop_bit_eq take_bit_eq_mod drop_bit_eq_div unat_div)
qed

lemma unat_octet_1: "unat (octet 1 a) = unat a div 2 ^ 16 mod 256"
  by (simp add: octet_def unsigned_ucast_eq unsigned_drop_bit_eq take_bit_eq_mod drop_bit_eq_div unat_div)

lemma div_range:
  fixes n d k :: nat
  assumes "0 < d"
  shows "n div d = k \<longleftrightarrow> k * d \<le> n \<and> n < Suc k * d"
proof -
  have "n div d = k \<longleftrightarrow> k \<le> n div d \<and> n div d < Suc k" by auto
  then show ?thesis
    by (simp only: less_eq_div_iff_mult_less_eq [OF assms] div_less_iff_less_mult [OF assms])
qed

lemma is_useful_v4_ranges:
  "is_useful_v4 a \<longleftrightarrow>
     unat a \<noteq> 0 \<and> unat a \<noteq> 0xFFFFFFFF
     \<and> \<not> (0x7F000000 \<le> unat a \<and> unat a \<le> 0x7FFFFFFF)
     \<and> \<not> (0xA9FE0000 \<le> unat a \<and> unat a \<le> 0xA9FEFFFF)
     \<and> \<not> (0xE0000000 \<le> unat a \<and> unat a \<le> 0xEFFFFFFF)"
proof -
  have l: "v4_loopback a \<longleftrightarrow> unat a div 2 ^ 24 = 127"
    by (simp add: v4_loopback_def word_unat_eq_iff unat_octet_0)
  have ll: "v4_link_local a \<longleftrightarrow> unat a div 2 ^ 24 = 169 \<and> unat a div 2 ^ 16 mod 256 = 254"
    by (simp add: v4_link_local_def word_unat_eq_iff unat_octet_0 unat_octet_1 [unfolded One_nat_def])
  have m: "v4_multicast a \<longleftrightarrow> 224 \<le> unat a div 2 ^ 24 \<and> unat a div 2 ^ 24 \<le> 239"
    by (simp add: v4_multicast_def word_le_nat_alt unat_octet_0)
  have z: "v4_unspecified a \<longleftrightarrow> unat a = 0" "v4_broadcast a \<longleftrightarrow> unat a = 0xFFFFFFFF"
    by (simp_all add: v4_unspecified_def v4_broadcast_def word_unat_eq_iff)
  have "(unat a div 2 ^ 24 = 169 \<and> unat a div 2 ^ 16 mod 256 = 254) \<longleftrightarrow> unat a div 2 ^ 16 = 0xA9FE"
  proof -
    have "unat a div 2 ^ 24 = unat a div 2 ^ 16 div 256" by (simp flip: div_mult2_eq)
    moreover have "k div 256 = 169 \<and> k mod 256 = 254 \<longleftrightarrow> k = 0xA9FE" for k :: nat
    proof
      assume "k div 256 = 169 \<and> k mod 256 = 254"
      then show "k = 0xA9FE" using div_mult_mod_eq [of k 256] by linarith
    qed simp
    ultimately show ?thesis by simp
  qed
  note ll' = ll [unfolded this]
  have m': "v4_multicast a \<longleftrightarrow> 0xE0000000 \<le> unat a \<and> unat a < 0xF0000000"
  proof -
    have "unat a div 2 ^ 24 \<le> 239 \<longleftrightarrow> unat a div 2 ^ 24 < 240" by auto
    then show ?thesis unfolding m by (simp add: less_eq_div_iff_mult_less_eq div_less_iff_less_mult)
  qed
  show ?thesis unfolding is_useful_v4_def l ll' m' z by (simp add: div_range) linarith
qed

lemma unat_seg0: "unat (segments a ! 0) = unat a div 2 ^ 112"
proof -
  have "unat a div 2 ^ 112 < 65536" using unsigned_less [of a, where 'a = nat] by simp
  then show ?thesis
    by (simp add: segments_list unsigned_ucast_eq unsigned_drop_bit_eq take_bit_eq_mod drop_bit_eq_div unat_div)
qed

lemma link_local_prefix: "(s :: u16) AND 0xffc0 = 0xfe80 \<longleftrightarrow> 0xfe80 \<le> unat s \<and> unat s \<le> 0xfebf"
proof -
  have m: "(0xffc0 :: u16) = NOT (mask 6)" by (simp add: mask_eq_exp_minus_1)
  have "s AND 0xffc0 = push_bit 6 (drop_bit 6 s)" unfolding m
    by (rule bit_word_eqI) (auto simp: bit_simps)
  also have "\<dots> = word_of_nat (unat s div 64 * 64)"
    by (simp add: push_bit_eq_mult drop_bit_eq_div word_arith_nat_div)
  finally have eq: "s AND 0xffc0 = word_of_nat (unat s div 64 * 64)" .
  have "unat s div 64 * 64 < 2 ^ LENGTH(16)"
    using div_times_less_eq_dividend [of "unat s" 64] unsigned_less [of s, where 'a = nat]
    by (rule order_le_less_trans)
  then have "unat (s AND 0xffc0) = unat s div 64 * 64"
    unfolding eq unat_of_nat by (rule mod_less)
  then have "s AND 0xffc0 = 0xfe80 \<longleftrightarrow> unat s div 64 = 1018" by (simp add: word_unat_eq_iff)
  then show ?thesis by (simp add: div_range less_eq_Suc_le) 
qed

lemma is_useful_v6_ranges:
  "is_useful_v6 a \<longleftrightarrow>
     unat a \<noteq> 0 \<and> unat a \<noteq> 1
     \<and> \<not> (0xfe80 * 2 ^ 112 \<le> unat a \<and> unat a < 0xfec0 * 2 ^ 112)
     \<and> \<not> 0xff * 2 ^ 120 \<le> unat a"
proof -
  have "unat a div 2 ^ 120 < 256" using unsigned_less [of a, where 'a = nat] by simp
  then have "unat (ucast (drop_bit 120 a) :: u8) = unat a div 2 ^ 120"
    by (simp add: unsigned_ucast_eq unsigned_drop_bit_eq take_bit_eq_mod drop_bit_eq_div unat_div)
  then have m: "v6_multicast a \<longleftrightarrow> 0xff * 2 ^ 120 \<le> unat a"
    using unsigned_less [of a, where 'a = nat] by (simp add: v6_multicast_def word_unat_eq_iff div_range)
  have l: "0xfe80 \<le> unat (segments a ! 0) \<and> unat (segments a ! 0) \<le> 0xfebf
      \<longleftrightarrow> 0xfe80 * 2 ^ 112 \<le> unat a \<and> unat a < 0xfec0 * 2 ^ 112"
  proof -
    have "unat a div 2 ^ 112 \<le> 0xfebf \<longleftrightarrow> unat a div 2 ^ 112 < 0xfec0" by auto
    then show ?thesis unfolding unat_seg0 by (simp add: less_eq_div_iff_mult_less_eq div_less_iff_less_mult)
  qed
  have z: "v6_unspecified a \<longleftrightarrow> unat a = 0" "v6_loopback a \<longleftrightarrow> unat a = 1"
    by (simp_all add: v6_unspecified_def v6_loopback_def word_unat_eq_iff)
  show ?thesis unfolding is_useful_v6_def m z link_local_prefix l Let_def by auto
qed

section \<open>Lemmas: the check\<close>

lemma count_kinds_loop_spec:
  "count_kinds_loop cs k =
     \<lparr>kc_host = kc_host k + length (filter (\<lambda>c. ca_kind c = ''host'') cs),
      kc_srflx = kc_srflx k + length (filter (\<lambda>c. ca_kind c = ''srflx'') cs),
      kc_relay = kc_relay k + length (filter (\<lambda>c. ca_kind c = ''relay'') cs)\<rparr>"
  by (induction cs arbitrary: k) auto

lemma host_candidates_spec:
  "host_candidates ifas out = out @ map (\<lambda>(name, ip). \<lparr>ca_kind = ''host'', ca_address = show_ip ip, ca_port = 0,
     ca_interface = Some name, ca_via = None\<rparr>) (filter (\<lambda>(name, ip). is_useful_host_address ip) ifas)"
  by (induction ifas out rule: host_candidates.induct) auto

lemma instant_now_ifaddrs: "instant_now w = (t, w') \<Longrightarrow> w_ifaddrs w' = w_ifaddrs w"
  by (auto simp: instant_now_def split: list.splits)

lemma ice_run_total: "\<exists>r ctx' w'. ice_run ctx w = Ok (r, ctx', w')"
  using fail_now_total by (auto simp: ice_run_def Let_def split: prod.splits sum.splits)

lemma ice_run_keeps:
  assumes "ice_run ctx w = Ok (r, ctx', w')"
  shows "r_id r = ice_id" "r_name r = ice_name" "w_now w \<le> w_now w'" "w_log w' = w_log w" "w_socks w' = w_socks w"
    "ctx' = ctx" "r_status r \<noteq> Skip"
  using assms
  by (auto simp: ice_run_def Let_def split: prod.splits sum.splits if_splits
      dest!: instant_now_step elapsed_ms_step fail_now_Ok)

interpretation ice: check_contract ice_check
proof unfold_locales
  fix ctx w r ctx' w'
  show "\<exists>r ctx' w'. c_run ice_check ctx w = Ok (r, ctx', w')"
    using ice_run_total by (simp add: ice_check_def)
  assume "c_run ice_check ctx w = Ok (r, ctx', w')"
  then have run: "ice_run ctx w = Ok (r, ctx', w')" by (simp add: ice_check_def)
  show "r_id r = c_id ice_check \<and> r_name r = c_name ice_check"
    using ice_run_keeps [OF run] by (simp add: ice_check_def)
  show "later w w'" "ctx_config ctx' = ctx_config ctx" using ice_run_keeps [OF run] by (simp_all add: later_def)
qed

lemma ice_run_parts:
  assumes "ice_run ctx w = Ok (r, ctx', w')" and "w_ifaddrs w = Inr ifas"
  shows "\<exists>hosts. hosts = map (\<lambda>(name, ip). \<lparr>ca_kind = ''host'', ca_address = show_ip ip, ca_port = 0,
                          ca_interface = Some name, ca_via = None\<rparr>)
                        (filter (\<lambda>(name, ip). is_useful_host_address ip) ifas)
     \<and> r_detail r = Some (JObj
         [(''candidates'', JArr (map candidate_json (hosts @ srflx_candidates ctx @ relay_candidates ctx))),
          (''counts'', JObj [(''host'', JNum (length hosts)), (''srflx'', JNum (length (srflx_candidates ctx))),
                             (''relay'', JNum (length (relay_candidates ctx)))])])
     \<and> r_status r = (if hosts = [] \<and> srflx_candidates ctx = [] \<and> relay_candidates ctx = [] then Warn else Pass)"
proof -
  define hosts where "hosts = map (\<lambda>(name, ip). \<lparr>ca_kind = ''host'', ca_address = show_ip ip, ca_port = 0,
      ca_interface = Some name, ca_via = None :: string option\<rparr>) (filter (\<lambda>(name, ip). is_useful_host_address ip) ifas)"
  obtain t w1 where 1: "instant_now w = (t, w1)" by fastforce
  obtain ms w2 where 2: "elapsed_ms t w1 = (ms, w2)" by fastforce
  have h: "host_candidates ifas [] = hosts" by (simp add: host_candidates_spec hosts_def)
  have f: "filter (\<lambda>c. ca_kind c = k) hosts = (if k = ''host'' then hosts else [])" for k
  proof -
    have "ca_kind c = ''host''" if "c \<in> set hosts" for c using that by (auto simp: hosts_def)
    then show ?thesis by (auto simp: filter_id_conv filter_empty_conv)
  qed
  have s: "filter (\<lambda>c. ca_kind c = k) (srflx_candidates ctx) = (if k = ''srflx'' then srflx_candidates ctx else [])" for k
    by (simp add: srflx_candidates_def split: option.splits)
  have rl: "filter (\<lambda>c. ca_kind c = k) (relay_candidates ctx) = (if k = ''relay'' then relay_candidates ctx else [])" for k
    by (simp add: relay_candidates_def split: option.splits)
  have counts: "count_kinds (hosts @ srflx_candidates ctx @ relay_candidates ctx) =
      \<lparr>kc_host = length hosts, kc_srflx = length (srflx_candidates ctx), kc_relay = length (relay_candidates ctx)\<rparr>"
    by (simp add: count_kinds_def count_kinds_loop_spec f s rl)
  show ?thesis
    using assms instant_now_ifaddrs [OF 1] 1 2
    unfolding hosts_def [symmetric]
    by (auto simp: ice_run_def h counts Let_def hosts_def [symmetric])
qed

section \<open>Properties\<close>

text \<open>C34: The host filter, as address ranges: an IPv4 address is dropped exactly when it is 0.0.0.0,
  255.255.255.255, or in 127/8, 169.254/16 or 224/4; an IPv6 address exactly when it is
  ::, ::1, or in fe80::/10 or ff00::/8.\<close>

theorem host_filter_ranges:
  "(is_useful_host_address (V4 a) \<longleftrightarrow>
      unat a \<noteq> 0 \<and> unat a \<noteq> 0xFFFFFFFF
      \<and> \<not> (0x7F000000 \<le> unat a \<and> unat a \<le> 0x7FFFFFFF)
      \<and> \<not> (0xA9FE0000 \<le> unat a \<and> unat a \<le> 0xA9FEFFFF)
      \<and> \<not> (0xE0000000 \<le> unat a \<and> unat a \<le> 0xEFFFFFFF))
   \<and> (is_useful_host_address (V6 b) \<longleftrightarrow>
      unat b \<noteq> 0 \<and> unat b \<noteq> 1
      \<and> \<not> (0xfe80 * 2 ^ 112 \<le> unat b \<and> unat b < 0xfec0 * 2 ^ 112)
      \<and> \<not> 0xff * 2 ^ 120 \<le> unat b)"
  by (simp only: is_useful_host_address_def ipaddr.case is_useful_v4_ranges is_useful_v6_ranges)

text \<open>C33: The gathering check reports the interfaces that pass the filter, in their order, under their names
  and with port 0; then the reflexive address and port if the context holds a readable one, learnt via the
  URL \<open>stun:host:port\<close> of the target; then the relayed address and port of the session if there is one, via
  \<open>turn:host:port\<close> (no URL without host or port).  The three counts are the sizes of these parts.  It fails
  exactly when the interfaces cannot be enumerated, warns exactly when there is no candidate, sends nothing and
  leaves the context alone.\<close>

theorem ice_candidates:
  assumes "ice_run ctx w = Ok (r, ctx', w')"
  shows "ctx' = ctx \<and> w_log w' = w_log w
   \<and> (case w_ifaddrs w of
        Inl _ \<Rightarrow> r_status r = Fail
      | Inr ifas \<Rightarrow>
          \<exists>hosts srflx relay target_url.
              target_url = (\<lambda>scheme. case (ctx_host ctx, ctx_port ctx) of
                  (Some h, Some p) \<Rightarrow> Some (scheme @ '':'' @ h @ '':'' @ show_word p) | _ \<Rightarrow> None)
            \<and> hosts = map (\<lambda>(name, ip). \<lparr>ca_kind = ''host'', ca_address = show_ip ip, ca_port = 0,
                          ca_interface = Some name, ca_via = None\<rparr>)
                        (filter (\<lambda>(name, ip). is_useful_host_address ip) ifas)
            \<and> srflx = (case Option.bind (scratch ctx ''srflx'') parse_sock of
                  None \<Rightarrow> []
                | Some a \<Rightarrow> [\<lparr>ca_kind = ''srflx'', ca_address = show_ip (sock_ip a), ca_port = sock_port a,
                      ca_interface = None, ca_via = target_url ''stun''\<rparr>])
            \<and> relay = (case ctx_session ctx of
                  None \<Rightarrow> []
                | Some s \<Rightarrow> [\<lparr>ca_kind = ''relay'', ca_address = show_ip (sock_ip (ts_relayed s)), ca_port = sock_port (ts_relayed s),
                      ca_interface = None, ca_via = target_url ''turn''\<rparr>])
            \<and> r_detail r = Some (JObj
                [(''candidates'', JArr (map candidate_json (hosts @ srflx @ relay))),
                 (''counts'', JObj [(''host'', JNum (length hosts)), (''srflx'', JNum (length srflx)),
                                    (''relay'', JNum (length relay))])])
            \<and> r_status r = (if hosts = [] \<and> srflx = [] \<and> relay = [] then Warn else Pass))"
proof (cases "w_ifaddrs w")
  case (Inl e)
  then show ?thesis using assms ice_run_keeps [OF assms]
    by (auto simp: ice_run_def dest: instant_now_ifaddrs split: prod.splits dest!: fail_now_Ok)
next
  case (Inr ifas)
  define url where "url = (\<lambda>scheme. case (ctx_host ctx, ctx_port ctx) of
      (Some h, Some p) \<Rightarrow> Some (scheme @ '':'' @ h @ '':'' @ show_word p) | _ \<Rightarrow> None)"
  have via: "via_url scheme ctx = url scheme" for scheme by (simp add: via_url_def url_def split: option.split)
  have srflx: "srflx_candidates ctx = (case Option.bind (scratch ctx ''srflx'') parse_sock of None \<Rightarrow> []
      | Some a \<Rightarrow> [\<lparr>ca_kind = ''srflx'', ca_address = show_ip (sock_ip a), ca_port = sock_port a,
            ca_interface = None, ca_via = url ''stun''\<rparr>])"
    by (simp add: srflx_candidates_def via split: option.split)
  have relay: "relay_candidates ctx = (case ctx_session ctx of None \<Rightarrow> []
      | Some s \<Rightarrow> [\<lparr>ca_kind = ''relay'', ca_address = show_ip (sock_ip (ts_relayed s)), ca_port = sock_port (ts_relayed s),
            ca_interface = None, ca_via = url ''turn''\<rparr>])"
    by (simp add: relay_candidates_def via split: option.split)
  show ?thesis using ice_run_keeps [OF assms] ice_run_parts [OF assms Inr]
    unfolding Inr sum.case srflx relay url_def by blast
qed

theorem ice_candidates_witness:
  "\<exists>r w' via_stun via_turn. ice_run example_echo_ctx (quiet_world\<lparr>w_ifaddrs := Inr [(''lo'', V4 0x7F000001), (''eth0'', V4 0x0A000005)]\<rparr>)
       = Ok (r, example_echo_ctx, w') \<and> r_status r = Pass \<and> w_log w' = []
     \<and> (\<exists>counts. r_detail r = Some (JObj [(''candidates'', JArr (map candidate_json
         [\<lparr>ca_kind = ''host'', ca_address = show_ip (V4 0x0A000005), ca_port = 0, ca_interface = Some ''eth0'', ca_via = None\<rparr>,
          \<lparr>ca_kind = ''srflx'', ca_address = show_ip (V4 0x01020304), ca_port = 5, ca_interface = None, ca_via = via_stun\<rparr>,
          \<lparr>ca_kind = ''relay'', ca_address = show_ip (V4 2), ca_port = 49152, ca_interface = None, ca_via = via_turn\<rparr>])),
         (''counts'', counts)]))"
proof -
  let ?w = "quiet_world\<lparr>w_ifaddrs := Inr [(''lo'', V4 0x7F000001), (''eth0'', V4 0x0A000005)]\<rparr>"
  obtain r ctx' w' where run: "ice_run example_echo_ctx ?w = Ok (r, ctx', w')" using ice_run_total by blast
  have "is_useful_host_address (V4 0x0A000005)" "\<not> is_useful_host_address (V4 0x7F000001)"
    by (simp_all add: is_useful_host_address_def is_useful_v4_ranges)
  moreover have "Option.bind (scratch example_echo_ctx ''srflx'') parse_sock = Some (SockV4 0x01020304 5)"
    by (simp only: example_echo_ctx_def) (simp add: parse_show_v4 del: show_sock.simps)
  moreover have "ctx_session example_echo_ctx = Some example_session" "ts_relayed example_session = SockV4 2 49152"
    by (simp_all add: example_echo_ctx_def example_session_def)
  ultimately show ?thesis using ice_candidates [OF run] run
    by (auto simp: quiet_world_def simp del: candidate_json_def show_ip.simps)
qed

end
