(* ===== verification/Net_Stream.thy ===== *)
theory Net_Stream
  imports Probe_Ctx Stream_Codec
begin

text \<open>
  What the checks use of TCP and TLS streams (\<open>tokio::net::TcpStream\<close>, \<open>tokio_rustls\<close>): opening
  a connection under a timeout, \<open>write_all\<close>, \<open>flush\<close> and \<open>read_exact\<close>.  The chunks in which a
  stream delivers its bytes, and when, are arbitrary (\<open>w_stream\<close> of the world).  A write that
  fails is not logged, although part of it may have left the process.
\<close>

section \<open>Connections\<close>

text \<open>\<open>timeout(d, f)\<close>, for an operation that ends after \<open>delay\<close>: \<open>None\<close> when that is too late.\<close>

definition within :: "nat \<Rightarrow> nat \<times> 'a \<Rightarrow> world \<Rightarrow> 'a option \<times> world" where
  "within d op w =
     (case op of (delay, outcome) \<Rightarrow>
        if delay \<le> d then (Some outcome, w\<lparr>w_now := w_now w + delay\<rparr>)
        else (None, w\<lparr>w_now := w_now w + d\<rparr>))"

definition logged :: "effect \<Rightarrow> world \<Rightarrow> world" where
  "logged e w = w\<lparr>w_log := w_log w @ [e]\<rparr>"

definition tcp_connect :: "nat \<Rightarrow> sockaddr \<Rightarrow> world \<Rightarrow> io_error option option \<times> world" where
  "tcp_connect d server w = within d (w_dials w server) (logged (Dialed server) w)"

definition tls_connect :: "nat \<Rightarrow> string \<Rightarrow> world \<Rightarrow> io_error option option \<times> world" where
  "tls_connect d name w = within d (w_tls w name) (logged (Secured name) w)"

section \<open>Writing and reading\<close>

definition next_write :: "world \<Rightarrow> io_error option \<times> world" where
  "next_write w = (case w_writes w of [] \<Rightarrow> (None, w) | r # rs \<Rightarrow> (r, w\<lparr>w_writes := rs\<rparr>))"

definition write_all :: "bytes \<Rightarrow> world \<Rightarrow> io_error option \<times> world" where
  "write_all bs w =
     (let (r, w) = next_write w in
      case r of Some e \<Rightarrow> (Some e, w) | None \<Rightarrow> (None, logged (Wrote bs) w))"

definition flush_stream :: "world \<Rightarrow> io_error option \<times> world" where
  "flush_stream w = next_write w"

datatype read_result = ReadOk bytes | ReadErr io_error | ReadTimeout

text \<open>
  \<open>read_exact\<close> of \<open>n\<close> more bytes, the \<open>acc\<close> ones already there: an empty chunk is the end of
  the stream; the part of a chunk that is not needed stays for the next read.
\<close>

fun read_chunks ::
  "nat \<Rightarrow> nat \<Rightarrow> bytes \<Rightarrow> nat \<Rightarrow> (nat \<times> (io_error + bytes)) list
     \<Rightarrow> read_result \<times> nat \<times> (nat \<times> (io_error + bytes)) list"
where
  "read_chunks deadline 0 acc now chunks = (ReadOk acc, now, chunks)"
| "read_chunks deadline n acc now [] = (ReadTimeout, max now deadline, [])"
| "read_chunks deadline n acc now ((t, r) # chunks) =
     (if deadline < t then (ReadTimeout, max now deadline, (t, r) # chunks)
      else
        case r of
          Inl e \<Rightarrow> (ReadErr e, max now t, chunks)
        | Inr bs \<Rightarrow>
            if bs = [] then (ReadErr ''early eof'', max now t, (t, r) # chunks)
            else if length bs \<le> n then read_chunks deadline (n - length bs) (acc @ bs) (max now t) chunks
            else (ReadOk (acc @ take n bs), max now t, (t, Inr (drop n bs)) # chunks))"

definition read_exact :: "nat \<Rightarrow> nat \<Rightarrow> world \<Rightarrow> read_result \<times> world" where
  "read_exact deadline n w =
     (case read_chunks deadline n [] (w_now w) (w_stream w) of
        (r, now, chunks) \<Rightarrow> (r, w\<lparr>w_now := now, w_stream := chunks\<rparr>))"

section \<open>Lemmas\<close>

lemma within_step:
  "within d op w = (r, w') \<Longrightarrow> w_now w \<le> w_now w' \<and> w_log w' = w_log w \<and> w_socks w' = w_socks w
     \<and> w_stream w' = w_stream w \<and> (r = None \<longrightarrow> d < fst op) \<and> (\<forall>x. r = Some x \<longrightarrow> fst op \<le> d \<and> x = snd op)"
  by (auto simp: within_def split: prod.splits if_splits)

lemma logged_step [simp]:
  "w_now (logged e w) = w_now w" "w_log (logged e w) = w_log w @ [e]" "w_socks (logged e w) = w_socks w"
  "w_stream (logged e w) = w_stream w" "w_dials (logged e w) = w_dials w" "w_tls (logged e w) = w_tls w"
  by (simp_all add: logged_def)

lemma next_write_step:
  "next_write w = (r, w') \<Longrightarrow> w_now w' = w_now w \<and> w_log w' = w_log w \<and> w_socks w' = w_socks w
     \<and> w_stream w' = w_stream w"
  by (auto simp: next_write_def split: list.splits)

lemma write_all_step:
  "write_all bs w = (r, w') \<Longrightarrow> w_now w' = w_now w \<and> w_socks w' = w_socks w \<and> w_stream w' = w_stream w
     \<and> w_log w' = w_log w @ (if r = None then [Wrote bs] else [])"
  by (auto simp: write_all_def dest!: next_write_step split: prod.splits option.splits)

lemma read_chunks_now: "read_chunks d n acc now cs = (r, now', cs') \<Longrightarrow> now \<le> now'"
  by (induction d n acc now cs rule: read_chunks.induct) (fastforce split: if_splits sum.splits)+

lemma read_exact_step:
  "read_exact d n w = (r, w') \<Longrightarrow> w_now w \<le> w_now w' \<and> w_log w' = w_log w \<and> w_socks w' = w_socks w"
  by (auto simp: read_exact_def dest: read_chunks_now split: prod.splits)

text \<open>The bytes a list of chunks delivers up to its first error or end.\<close>

fun delivered :: "(nat \<times> (io_error + bytes)) list \<Rightarrow> bytes" where
  "delivered [] = []"
| "delivered ((t, Inl e) # cs) = []"
| "delivered ((t, Inr bs) # cs) = (if bs = [] then [] else bs @ delivered cs)"

text \<open>A read that succeeds returns the next \<open>n\<close> delivered bytes, however they were cut into chunks.\<close>

lemma read_chunks_ok:
  "read_chunks d n acc now cs = (ReadOk bs, now', cs') \<Longrightarrow>
     \<exists>front. bs = acc @ front \<and> length front = n \<and> delivered cs = front @ delivered cs'"
proof (induction d n acc now cs rule: read_chunks.induct)
  case (3 d n acc now t r cs)
  show ?case
  proof (cases r)
    case (Inr xs)
    show ?thesis
    proof (cases "length xs \<le> Suc n")
      case True
      then show ?thesis using 3 Inr by (fastforce split: if_splits)
    next
      case False
      have "delivered cs' = drop (Suc n) xs @ delivered cs" if "cs' = (t, Inr (drop (Suc n) xs)) # cs"
        using that False by simp
      with False 3(2) Inr show ?thesis
        by (auto simp: append_assoc [symmetric] simp del: append_assoc split: if_splits)
    qed
  qed (use 3(2) in \<open>auto split: if_splits\<close>)
qed auto

lemma read_exact_ok:
  assumes "read_exact d n w = (ReadOk bs, w')"
  shows "length bs = n \<and> delivered (w_stream w) = bs @ delivered (w_stream w')"
  using assms read_chunks_ok [of d n "[]" "w_now w" "w_stream w" bs]
  by (auto simp: read_exact_def split: prod.splits)

end
