(* ===== verification/Turns_Alloc.thy ===== *)
theory Turns_Alloc
  imports Net_Stream Turn_Alloc
begin

text \<open>
  The TURN allocation check over TLS, \<open>crates/probe-core/src/checks/turns_alloc.rs\<close>: the
  framing of messages on the stream, the connection, and the same two rounds as over UDP.
  Whether a host is a valid server name is decided by \<open>rustls\<close>: it is the argument \<open>name_ok\<close>.
\<close>

section \<open>Framing\<close>

definition send_framed :: "bytes \<Rightarrow> world \<Rightarrow> io_error option \<times> world" where
  "send_framed msg w =
     (let (r, w) = write_all (to_be 2 (word_of_nat (length msg) :: u16)) w
      in case r of
           Some e \<Rightarrow> (Some e, w)
         | None \<Rightarrow>
             (let (r, w) = write_all msg w
              in case r of Some e \<Rightarrow> (Some e, w) | None \<Rightarrow> flush_stream w))"

definition recv_framed :: "nat \<Rightarrow> world \<Rightarrow> read_result \<times> world" where
  "recv_framed deadline w =
     (case read_exact deadline 2 w of
        (ReadOk len_buf, w) \<Rightarrow> read_exact deadline (unat (from_be len_buf :: u16)) w
      | (other, w) \<Rightarrow> (other, w))"

section \<open>The check\<close>

definition turns_id :: string where "turns_id = ''turn.alloc.tls''"
definition turns_name :: string where "turns_name = ''TURN allocation (TLS)''"

abbreviation turns_fail :: "nat \<Rightarrow> string \<Rightarrow> probe_ctx \<Rightarrow> world \<Rightarrow> run_outcome" where
  "turns_fail \<equiv> fail_now turns_id turns_name"

definition turns_round2 ::
  "crypto \<Rightarrow> nat \<Rightarrow> sockaddr \<Rightarrow> string \<Rightarrow> u64 \<Rightarrow> string \<Rightarrow> bytes \<Rightarrow> string \<Rightarrow> string \<Rightarrow> probe_ctx \<Rightarrow> world \<Rightarrow> run_outcome"
where
  "turns_round2 c started server host tls_ms realm nonce user pass ctx w =
     (let key = long_term_key c user realm pass;
          ((clock, stack_addr), w) = next_seed w
      in bind_res (build_allocate_authed c clock stack_addr user realm nonce key) (\<lambda>(txid2, req2).
     (let (sent, w) = send_framed req2 w
      in case sent of
           Some e \<Rightarrow> turns_fail started (''send (authed) failed: '' @ e) ctx w
         | None \<Rightarrow>
     (let (got, w) = recv_framed (w_now w + long_timeout_of ctx) w
      in case got of
           ReadErr e \<Rightarrow> turns_fail started (''recv (authed) failed: '' @ e) ctx w
         | ReadTimeout \<Rightarrow>
             turns_fail started (''no authed Allocate response in '' @ show_duration (long_timeout_of ctx)) ctx w
         | ReadOk resp2 \<Rightarrow>
     (case parse_allocate_response resp2 txid2 of
        Panic \<Rightarrow> Panic
      | Err e \<Rightarrow> turns_fail started (''malformed authed Allocate response: '' @ show_allocate_error e) ctx w
      | Ok outcome2 \<Rightarrow>
     (let (ms, w) = elapsed_ms started w
      in case outcome2 of
           AllocSuccess relayed lifetime \<Rightarrow>
             Ok (with_detail
                   (pass_result turns_id turns_name ms
                      (''relay '' @ show_sock relayed @ '' (lifetime '' @ show_word lifetime @ ''s, TLS ''
                         @ show_word tls_ms @ '' ms, total '' @ show_word ms @ '' ms)''))
                   (JObj [(''server'', JStr (show_sock server)), (''sni'', JStr host),
                          (''relayed'', JStr (show_sock relayed)), (''lifetime_s'', JNum (unat lifetime)),
                          (''realm'', JStr realm), (''tls_handshake_ms'', JNum (unat tls_ms)),
                          (''auth'', JStr ''long-term'')]),
                 ctx\<lparr>scratch := (scratch ctx)(''relayed'' \<mapsto> show_sock relayed)\<rparr>, w)
         | Unauthorized _ _ \<Rightarrow>
             Ok (fail_result turns_id turns_name ms
                   ''server rejected long-term credentials (401 after auth)'', ctx, w)
         | AllocError code reason \<Rightarrow>
             Ok (fail_result turns_id turns_name ms
                   (''allocate rejected: '' @ show_word code @ '' '' @ reason), ctx, w)))))))"

definition turns_challenged ::
  "crypto \<Rightarrow> nat \<Rightarrow> sockaddr \<Rightarrow> string \<Rightarrow> u64 \<Rightarrow> allocate_outcome \<Rightarrow> probe_ctx \<Rightarrow> world \<Rightarrow> run_outcome"
where
  "turns_challenged c started server host tls_ms outcome1 ctx w =
     (case outcome1 of
        AllocSuccess relayed lifetime \<Rightarrow>
          (let (ms, w) = elapsed_ms started w
           in Ok (with_detail
                    (pass_result turns_id turns_name ms
                       (''relay '' @ show_sock relayed @ '' (anonymous alloc, TLS '' @ show_word tls_ms
                          @ '' ms, total '' @ show_word ms @ '' ms)''))
                    (JObj [(''server'', JStr (show_sock server)), (''sni'', JStr host),
                           (''relayed'', JStr (show_sock relayed)), (''lifetime_s'', JNum (unat lifetime)),
                           (''tls_handshake_ms'', JNum (unat tls_ms)), (''auth'', JStr ''none'')]),
                  ctx\<lparr>scratch := (scratch ctx)(''relayed'' \<mapsto> show_sock relayed)\<rparr>, w))
      | AllocError code reason \<Rightarrow>
          (let (ms, w) = elapsed_ms started w
           in Ok (fail_result turns_id turns_name ms
                    (''server returned '' @ show_word code @ '' '' @ reason), ctx, w))
      | Unauthorized realm nonce \<Rightarrow>
          (case (turn_user ctx, turn_pass ctx) of
             (Some user, Some pass) \<Rightarrow> turns_round2 c started server host tls_ms realm nonce user pass ctx w
           | _ \<Rightarrow>
               (let (ms, w) = elapsed_ms started w
                in Ok (with_detail
                         (warn_result turns_id turns_name ms
                            (''auth challenge from realm '' @ [CHR 34] @ realm @ [CHR 34] @ '' '' @ dash
                               @ '' no --user/--pass supplied (TLS '' @ show_word tls_ms @ '' ms)''))
                         (JObj [(''server'', JStr (show_sock server)), (''sni'', JStr host), (''realm'', JStr realm),
                                (''tls_handshake_ms'', JNum (unat tls_ms)), (''auth'', JStr ''challenge-only'')]),
                       ctx, w))))"

text \<open>Round 1, over the established stream.\<close>

definition turns_round1 ::
  "crypto \<Rightarrow> nat \<Rightarrow> sockaddr \<Rightarrow> string \<Rightarrow> u64 \<Rightarrow> probe_ctx \<Rightarrow> world \<Rightarrow> run_outcome"
where
  "turns_round1 c started server host tls_ms ctx w =
     (let ((clock, stack_addr), w) = next_seed w
      in bind_res (build_allocate_unauth clock stack_addr) (\<lambda>(txid1, req1).
     (let (sent, w) = send_framed req1 w
      in case sent of
           Some e \<Rightarrow> turns_fail started (''send (unauth) failed: '' @ e) ctx w
         | None \<Rightarrow>
     (let (got, w) = recv_framed (w_now w + long_timeout_of ctx) w
      in case got of
           ReadErr e \<Rightarrow> turns_fail started (''recv (unauth) failed: '' @ e) ctx w
         | ReadTimeout \<Rightarrow>
             turns_fail started (''no Allocate response in '' @ show_duration (long_timeout_of ctx)) ctx w
         | ReadOk resp1 \<Rightarrow>
     (case parse_allocate_response resp1 txid1 of
        Panic \<Rightarrow> Panic
      | Err e \<Rightarrow> turns_fail started (''malformed Allocate response: '' @ show_allocate_error e) ctx w
      | Ok outcome1 \<Rightarrow> turns_challenged c started server host tls_ms outcome1 ctx w)))))"

definition turns_alloc_run :: "crypto \<Rightarrow> (string \<Rightarrow> bool) \<Rightarrow> probe_ctx \<Rightarrow> world \<Rightarrow> run_outcome" where
  "turns_alloc_run c name_ok ctx w =
     (case ctx_port ctx of
        None \<Rightarrow> Ok (skip_result turns_id turns_name ''no port supplied'', ctx, w)
      | Some port \<Rightarrow>
     (case resolved_ips ctx of
        [] \<Rightarrow> Ok (skip_result turns_id turns_name ''no resolved IP'', ctx, w)
      | ip # _ \<Rightarrow>
     (case ctx_host ctx of
        None \<Rightarrow> Ok (skip_result turns_id turns_name ''no hostname for SNI'', ctx, w)
      | Some host \<Rightarrow>
     (let server = sock_new ip port;
          (started, w) = instant_now w;
          recv_timeout = long_timeout_of ctx
      in if \<not> name_ok host then turns_fail started (backquote host @ '' is not a valid TLS server name'') ctx w
         else
     (let (tls_started, w) = instant_now w;
          (tcp, w) = tcp_connect recv_timeout server w
      in case tcp of
           None \<Rightarrow> turns_fail started (''TCP connect to '' @ show_sock server @ '' timeout'') ctx w
         | Some (Some e) \<Rightarrow> turns_fail started (''TCP connect to '' @ show_sock server @ '' failed: '' @ e) ctx w
         | Some None \<Rightarrow>
     (let (tls, w) = tls_connect recv_timeout host w
      in case tls of
           None \<Rightarrow> turns_fail started ''TLS handshake timeout'' ctx w
         | Some (Some e) \<Rightarrow> turns_fail started (''TLS handshake failed: '' @ e) ctx w
         | Some None \<Rightarrow>
     (let (tls_ms, w) = elapsed_ms tls_started w
      in turns_round1 c started server host tls_ms ctx w)))))))"

definition turns_alloc_check :: "crypto \<Rightarrow> (string \<Rightarrow> bool) \<Rightarrow> check" where
  "turns_alloc_check c name_ok =
     \<lparr>c_id = turns_id, c_name = turns_name, c_requires = [dns_id], c_run = turns_alloc_run c name_ok\<rparr>"

section \<open>Lemmas: framing\<close>

definition frame :: "bytes \<Rightarrow> bytes" where
  "frame msg = to_be 2 (word_of_nat (length msg) :: u16) @ msg"

definition unframe :: "bytes \<Rightarrow> (bytes \<times> bytes) option" where
  "unframe bs =
     (let n = unat (from_be (take 2 bs) :: u16) in
      if length bs < 2 + n then None else Some (take n (drop 2 bs), drop (2 + n) bs))"

text \<open>Messages below 65536 bytes provide the contract of a stream codec.\<close>

interpretation framing: stream_codec frame unframe "\<lambda>msg. length msg < 65536"
proof unfold_locales
  fix msg rest :: bytes assume "length msg < 65536"
  then show "unframe (frame msg @ rest) = Some (msg, rest)"
    by (simp add: frame_def unframe_def Let_def unat_of_nat)
next
  fix msg :: bytes show "frame msg \<noteq> []" by (simp add: frame_def to_be_2)
qed

lemma send_framed_step:
  assumes "send_framed m w = (r, w')"
  shows "w_now w' = w_now w \<and> w_socks w' = w_socks w \<and> w_stream w' = w_stream w"
    and "\<exists>k \<le> 2. (r = None \<longrightarrow> k = 2)
           \<and> w_log w' = w_log w @ take k [Wrote (to_be 2 (word_of_nat (length m) :: u16)), Wrote m]"
proof -
  let ?h = "to_be 2 (word_of_nat (length m) :: u16)"
  obtain r1 w1 where 1: "write_all ?h w = (r1, w1)" by fastforce
  obtain r2 w2 where 2: "write_all m w1 = (r2, w2)" by fastforce
  obtain r3 w3 where 3: "flush_stream w2 = (r3, w3)" by fastforce
  note steps = write_all_step [OF 1] write_all_step [OF 2] next_write_step [OF 3 [unfolded flush_stream_def]]
  show "w_now w' = w_now w \<and> w_socks w' = w_socks w \<and> w_stream w' = w_stream w"
    using assms 1 2 3 steps by (auto simp: send_framed_def split: option.splits)
  have "r1 \<noteq> None \<Longrightarrow> r = r1 \<and> w' = w1" "r1 = None \<Longrightarrow> r2 \<noteq> None \<Longrightarrow> r = r2 \<and> w' = w2"
    "r1 = None \<Longrightarrow> r2 = None \<Longrightarrow> w' = w3"
    using assms 1 2 3 by (auto simp: send_framed_def)
  then show "\<exists>k \<le> 2. (r = None \<longrightarrow> k = 2) \<and> w_log w' = w_log w @ take k [Wrote ?h, Wrote m]"
    using steps
    by (cases r1; cases r2) (force intro: exI [of _ "0::nat"] exI [of _ "1::nat"] exI [of _ "2::nat"])+
qed

lemma recv_framed_step:
  "recv_framed d w = (r, w') \<Longrightarrow> w_now w \<le> w_now w' \<and> w_log w' = w_log w \<and> w_socks w' = w_socks w"
  by (auto simp: recv_framed_def dest!: read_exact_step split: prod.splits read_result.splits)

lemma recv_framed_ok:
  assumes "recv_framed d w = (ReadOk msg, w')"
  shows "\<exists>len_buf. length len_buf = 2 \<and> length msg = unat (from_be len_buf :: u16)
    \<and> delivered (w_stream w) = len_buf @ msg @ delivered (w_stream w')"
  using assms by (auto simp: recv_framed_def dest!: read_exact_ok split: prod.splits read_result.splits)

text \<open>Bytes that are all there in time can be read, whatever the chunks.\<close>

definition on_time :: "nat \<Rightarrow> (nat \<times> (io_error + bytes)) list \<Rightarrow> bool" where
  "on_time deadline cs \<longleftrightarrow> (\<forall>c \<in> set cs. fst c \<le> deadline \<and> (\<exists>bs. snd c = Inr bs \<and> bs \<noteq> []))"

lemma read_chunks_complete:
  "on_time d cs \<Longrightarrow> n \<le> length (delivered cs) \<Longrightarrow>
     \<exists>now' cs'. read_chunks d n acc now cs = (ReadOk (acc @ take n (delivered cs)), now', cs')
       \<and> on_time d cs' \<and> delivered cs' = drop n (delivered cs)"
proof (induction d n acc now cs rule: read_chunks.induct)
  case (3 d n acc now t r cs)
  then obtain bs where r: "r = Inr bs" "bs \<noteq> []" "t \<le> d" and o: "on_time d cs" by (auto simp: on_time_def)
  show ?case
  proof (cases "length bs \<le> Suc n")
    case True
    then show ?thesis using 3 r o by auto
  next
    case False
    then show ?thesis using 3(2) r by (auto simp: on_time_def)
  qed
qed auto

lemma read_exact_complete:
  assumes "on_time d (w_stream w)" and "n \<le> length (delivered (w_stream w))"
  shows "\<exists>w'. read_exact d n w = (ReadOk (take n (delivered (w_stream w))), w')
    \<and> on_time d (w_stream w') \<and> delivered (w_stream w') = drop n (delivered (w_stream w))"
  using read_chunks_complete [OF assms, of "[]" "w_now w"] by (auto simp: read_exact_def)

lemma recv_framed_complete:
  assumes "on_time d (w_stream w)" and "delivered (w_stream w) = frame msg @ rest"
  shows "\<exists>w'. recv_framed d w = (ReadOk (take (length msg mod 65536) (msg @ rest)), w')
    \<and> on_time d (w_stream w') \<and> delivered (w_stream w') = drop (length msg mod 65536) (msg @ rest)"
proof -
  let ?ds = "delivered (w_stream w)"
  have l: "2 \<le> length ?ds" "take 2 ?ds = to_be 2 (word_of_nat (length msg) :: u16)" "drop 2 ?ds = msg @ rest"
    using assms(2) by (simp_all add: frame_def)
  obtain w1 where 1: "read_exact d 2 w = (ReadOk (to_be 2 (word_of_nat (length msg) :: u16)), w1)"
    and o1: "on_time d (w_stream w1)" and d1: "delivered (w_stream w1) = msg @ rest"
    using read_exact_complete [OF assms(1) l(1)] l by auto
  have n: "unat (word_of_nat (length msg) :: u16) = length msg mod 65536" by (simp add: unat_of_nat)
  have "length msg mod 65536 \<le> length (delivered (w_stream w1))"
    using d1 mod_less_eq_dividend [of "length msg" 65536] by simp
  from read_exact_complete [OF o1 this] show ?thesis by (auto simp: recv_framed_def 1 n d1)
qed

section \<open>Lemmas: the check\<close>

lemma instant_now_stream: "instant_now w = (t, w') \<Longrightarrow> w_stream w' = w_stream w"
  by (auto simp: instant_now_def split: list.splits)

lemma elapsed_ms_stream: "elapsed_ms s w = (ms, w') \<Longrightarrow> w_stream w' = w_stream w"
  by (auto simp: elapsed_ms_def dest: instant_now_stream split: prod.splits)

lemma next_seed_stream: "next_seed w = (s, w') \<Longrightarrow> w_stream w' = w_stream w"
  by (auto simp: next_seed_def split: list.splits)

lemma turns_round2_total: "\<exists>r ctx' w'. turns_round2 c st sv h tm rl nc us pw ctx w = Ok (r, ctx', w')"
proof -
  obtain cl sa w1 where 1: "next_seed w = ((cl, sa), w1)" by (metis surj_pair)
  obtain msg where "build_allocate_authed c cl sa us rl nc (long_term_key c us rl pw) = Ok (new_txid cl sa, msg)"
    using build_allocate_authed_total by blast
  with 1 show ?thesis
    using fail_now_total
    by (auto simp: turns_round2_def Let_def parse_allocate_response_no_panic
        split: option.splits prod.splits read_result.splits res.splits allocate_outcome.splits)
qed

lemma turns_challenged_total: "\<exists>r ctx' w'. turns_challenged c st sv h tm o1 ctx w = Ok (r, ctx', w')"
  using turns_round2_total
  by (auto simp: turns_challenged_def Let_def split: option.splits prod.splits allocate_outcome.splits)

lemma turns_round1_total: "\<exists>r ctx' w'. turns_round1 c st sv h tm ctx w = Ok (r, ctx', w')"
  using fail_now_total turns_challenged_total
  by (auto simp: turns_round1_def Let_def parse_allocate_response_no_panic build_allocate_unauth_message
      split: option.splits prod.splits read_result.splits res.splits)

lemma turns_alloc_run_total: "\<exists>r ctx' w'. turns_alloc_run c ok ctx w = Ok (r, ctx', w')"
  using fail_now_total turns_round1_total
  by (auto simp: turns_alloc_run_def Let_def split: option.splits list.splits prod.splits)

definition framed_writes :: "bytes \<Rightarrow> effect list" where
  "framed_writes msg = [Wrote (to_be 2 (word_of_nat (length msg) :: u16)), Wrote msg]"

lemma length_framed_writes [simp]: "length (framed_writes msg) = 2"
  by (simp add: framed_writes_def)

lemmas send_framed_log = send_framed_step(2) [folded framed_writes_def]

lemma turns_round2_cases:
  assumes "turns_round2 c st sv h tm rl nc us pw ctx w = Ok (r, ctx', w')"
  shows "r_id r = turns_id \<and> r_name r = turns_name \<and> later w w' \<and> r_status r \<in> {Pass, Fail}
    \<and> (\<exists>cl sa txid req k. build_allocate_authed c cl sa us rl nc (long_term_key c us rl pw) = Ok (txid, req)
        \<and> w_log w' = w_log w @ take k (framed_writes req)
        \<and> (if r_status r = Pass
           then k = 2 \<and> (\<exists>relayed lifetime len_buf resp. ctx' = ctx\<lparr>scratch := (scratch ctx)(''relayed'' \<mapsto> show_sock relayed)\<rparr>
             \<and> delivered (w_stream w) = len_buf @ resp @ delivered (w_stream w')
             \<and> length len_buf = 2 \<and> length resp = unat (from_be len_buf :: u16)
             \<and> parse_allocate_response resp txid = Ok (AllocSuccess relayed lifetime))
           else ctx' = ctx))"
proof -
  obtain cl sa w1 where 1: "next_seed w = ((cl, sa), w1)" by (metis surj_pair)
  obtain msg where m: "build_allocate_authed c cl sa us rl nc (long_term_key c us rl pw) = Ok (new_txid cl sa, msg)"
    using build_allocate_authed_total by blast
  obtain sent w2 where 2: "send_framed msg w1 = (sent, w2)" by fastforce
  note steps = next_seed_step [OF 1] next_seed_stream [OF 1] send_framed_step(1) [OF 2]
  obtain k where k: "w_log w2 = w_log w @ take k (framed_writes msg)" "sent = None \<Longrightarrow> k = 2"
    using send_framed_log [OF 2] steps by auto
  note run = assms [unfolded turns_round2_def, simplified Let_def 1 2 m prod.case bind_res.simps]
  show ?thesis
  proof (cases sent)
    case (Some e)
    then show ?thesis using run steps k m by (auto simp: later_def dest!: fail_now_Ok) blast+
  next
    case n: None
    obtain got w3 where 3: "recv_framed (w_now w2 + long_timeout_of ctx) w2 = (got, w3)" by fastforce
    have lt: "w_log w3 = w_log w @ framed_writes msg" "later w w3"
      using steps n k recv_framed_step [OF 3] by (auto simp: later_def)
    have base: "r_id r = turns_id" "r_name r = turns_name" "later w3 w'" "r_status r \<in> {Pass, Fail}"
      "w_log w' = w_log w3" "w_stream w' = w_stream w3" "r_status r \<noteq> Pass \<Longrightarrow> ctx' = ctx"
      "r_status r = Pass \<Longrightarrow> \<exists>relayed lifetime resp. ctx' = ctx\<lparr>scratch := (scratch ctx)(''relayed'' \<mapsto> show_sock relayed)\<rparr>
         \<and> got = ReadOk resp \<and> parse_allocate_response resp (new_txid cl sa) = Ok (AllocSuccess relayed lifetime)"
      using run n 3
      by (auto simp: later_def fail_now_def split: read_result.splits res.splits allocate_outcome.splits prod.splits
          dest: elapsed_ms_step elapsed_ms_stream)
    have pass: "\<exists>relayed lifetime len_buf resp. ctx' = ctx\<lparr>scratch := (scratch ctx)(''relayed'' \<mapsto> show_sock relayed)\<rparr>
             \<and> delivered (w_stream w) = len_buf @ resp @ delivered (w_stream w')
             \<and> length len_buf = 2 \<and> length resp = unat (from_be len_buf :: u16)
             \<and> parse_allocate_response resp (new_txid cl sa) = Ok (AllocSuccess relayed lifetime)" if p: "r_status r = Pass"
    proof -
      obtain relayed lifetime resp where c': "ctx' = ctx\<lparr>scratch := (scratch ctx)(''relayed'' \<mapsto> show_sock relayed)\<rparr>"
        and g: "got = ReadOk resp" and pr: "parse_allocate_response resp (new_txid cl sa) = Ok (AllocSuccess relayed lifetime)"
        using base(8) [OF p] by blast
      from recv_framed_ok [OF 3 [unfolded g]] steps base(6) obtain len_buf where
        "length len_buf = 2" "length resp = unat (from_be len_buf :: u16)"
        "delivered (w_stream w) = len_buf @ resp @ delivered (w_stream w')" by auto
      with c' pr show ?thesis by blast
    qed
    have "w_log w' = w_log w @ take 2 (framed_writes msg)" "later w w'"
      using lt base later_trans [of w w3 w'] by simp_all
    then show ?thesis using m base(1,2,4,7) pass
      by (intro conjI exI [of _ cl] exI [of _ sa] exI [of _ "new_txid cl sa"] exI [of _ msg] exI [of _ 2])
        (simp_all split: if_splits)
  qed
qed

lemma turns_challenged_cases:
  assumes "turns_challenged c st sv h tm o1 ctx w = Ok (r, ctx', w')"
  shows "r_id r = turns_id \<and> r_name r = turns_name \<and> later w w' \<and> r_status r \<noteq> Skip
    \<and> (case o1 of
         AllocSuccess relayed _ \<Rightarrow> r_status r = Pass \<and> w_log w' = w_log w
           \<and> ctx' = ctx\<lparr>scratch := (scratch ctx)(''relayed'' \<mapsto> show_sock relayed)\<rparr>
       | AllocError _ _ \<Rightarrow> r_status r = Fail \<and> w_log w' = w_log w \<and> ctx' = ctx
       | Unauthorized realm nonce \<Rightarrow>
           (case (turn_user ctx, turn_pass ctx) of
              (Some user, Some pass) \<Rightarrow> turns_round2 c st sv h tm realm nonce user pass ctx w = Ok (r, ctx', w')
            | _ \<Rightarrow> r_status r = Warn \<and> w_log w' = w_log w \<and> ctx' = ctx))"
  using assms
  by (auto simp: turns_challenged_def Let_def later_def
      split: option.splits prod.splits allocate_outcome.splits
      dest!: elapsed_ms_step dest: turns_round2_cases [unfolded later_def])

lemma turns_round1_cases:
  assumes "turns_round1 c st sv h tm ctx w = Ok (r, ctx', w')"
  shows "\<exists>cl sa txid req k. build_allocate_unauth cl sa = Ok (txid, req) \<and>
     ((r_id r = turns_id \<and> r_name r = turns_name \<and> later w w' \<and> ctx' = ctx \<and> r_status r = Fail
        \<and> w_log w' = w_log w @ take k (framed_writes req))
    \<or> (\<exists>w1 len_buf resp o1. later w w1 \<and> w_log w1 = w_log w @ framed_writes req
        \<and> delivered (w_stream w) = len_buf @ resp @ delivered (w_stream w1)
        \<and> length len_buf = 2 \<and> length resp = unat (from_be len_buf :: u16)
        \<and> parse_allocate_response resp txid = Ok o1
        \<and> turns_challenged c st sv h tm o1 ctx w1 = Ok (r, ctx', w')))"
proof -
  obtain cl sa w1 where 1: "next_seed w = ((cl, sa), w1)" by (metis surj_pair)
  obtain msg where m: "build_allocate_unauth cl sa = Ok (new_txid cl sa, msg)"
    using build_allocate_unauth_message by blast
  obtain sent w2 where 2: "send_framed msg w1 = (sent, w2)" by fastforce
  note steps = next_seed_step [OF 1] next_seed_stream [OF 1] send_framed_step(1) [OF 2]
  obtain k where k: "w_log w2 = w_log w @ take k (framed_writes msg)" "sent = None \<Longrightarrow> k = 2"
    using send_framed_log [OF 2] steps by auto
  note run = assms [unfolded turns_round1_def, simplified Let_def 1 2 m prod.case bind_res.simps]
  show ?thesis
  proof (cases sent)
    case (Some e)
    then show ?thesis using run steps k m by (auto simp: later_def dest!: fail_now_Ok) blast+
  next
    case n: None
    obtain got w3 where 3: "recv_framed (w_now w2 + long_timeout_of ctx) w2 = (got, w3)" by fastforce
    have lt: "w_log w3 = w_log w @ framed_writes msg" "later w w3"
      using steps n k recv_framed_step [OF 3] by (auto simp: later_def)
    show ?thesis
    proof (cases "\<exists>resp o1. got = ReadOk resp \<and> parse_allocate_response resp (new_txid cl sa) = Ok o1")
      case True
      then obtain resp o1 where g: "got = ReadOk resp" and o1: "parse_allocate_response resp (new_txid cl sa) = Ok o1"
        by blast
      with run n 3 have "turns_challenged c st sv h tm o1 ctx w3 = Ok (r, ctx', w')" by simp
      with m o1 lt recv_framed_ok [OF 3 [unfolded g]] steps show ?thesis by auto blast
    next
      case False
      with run n 3 have "later w3 w' \<and> ctx' = ctx \<and> r_status r = Fail \<and> r_id r = turns_id \<and> r_name r = turns_name
          \<and> w_log w' = w_log w3"
        by (auto simp: later_def split: read_result.splits res.splits dest!: fail_now_Ok)
      with m lt have "build_allocate_unauth cl sa = Ok (new_txid cl sa, msg)
        \<and> r_id r = turns_id \<and> r_name r = turns_name \<and> later w w' \<and> ctx' = ctx \<and> r_status r = Fail
        \<and> w_log w' = w_log w @ take 2 (framed_writes msg)" by (auto intro: later_trans)
      then show ?thesis by blast
    qed
  qed
qed

text \<open>The check up to the end of the TLS handshake, then its first round.\<close>

lemma turns_alloc_run_cases:
  assumes "turns_alloc_run c ok ctx w = Ok (r, ctx', w')"
  shows "(r_id r = turns_id \<and> r_name r = turns_name \<and> later w w' \<and> ctx' = ctx \<and> r_status r \<in> {Skip, Fail}
          \<and> (w_log w' = w_log w \<or> (\<exists>ip ips port host k. resolved_ips ctx = ip # ips \<and> ctx_port ctx = Some port
               \<and> ctx_host ctx = Some host \<and> ok host
               \<and> w_log w' = w_log w @ take k [Dialed (sock_new ip port), Secured host])))
    \<or> (\<exists>ip ips port host started tls_ms w1. resolved_ips ctx = ip # ips \<and> ctx_port ctx = Some port
         \<and> ctx_host ctx = Some host \<and> ok host \<and> later w w1 \<and> w_stream w1 = w_stream w
         \<and> w_log w1 = w_log w @ [Dialed (sock_new ip port), Secured host]
         \<and> turns_round1 c started (sock_new ip port) host tls_ms ctx w1 = Ok (r, ctx', w'))"
proof (cases "ctx_port ctx = None \<or> resolved_ips ctx = [] \<or> ctx_host ctx = None")
  case True
  then show ?thesis using assms by (auto simp: turns_alloc_run_def split: option.splits list.splits)
next
  case False
  then obtain port ip ips host where p: "ctx_port ctx = Some port" and i: "resolved_ips ctx = ip # ips"
    and h: "ctx_host ctx = Some host" by (auto simp: neq_Nil_conv)
  obtain t0 w1 where 1: "instant_now w = (t0, w1)" by fastforce
  let ?server = "sock_new ip port"
  show ?thesis
  proof (cases "ok host")
    case False
    then show ?thesis using assms p i h 1 instant_now_step [OF 1]
      by (auto simp: turns_alloc_run_def Let_def later_def dest!: fail_now_Ok)
  next
    case o: True
    obtain t1 w2 where 2: "instant_now w1 = (t1, w2)" by fastforce
    obtain tcp w3 where 3: "tcp_connect (long_timeout_of ctx) ?server w2 = (tcp, w3)" by fastforce
    obtain tls w4 where 4: "tls_connect (long_timeout_of ctx) host w3 = (tls, w4)" by fastforce
    obtain ms w5 where 5: "elapsed_ms t1 w4 = (ms, w5)" by fastforce
    note steps = instant_now_step [OF 1] instant_now_step [OF 2] instant_now_stream [OF 1] instant_now_stream [OF 2]
      within_step [OF 3 [unfolded tcp_connect_def]] within_step [OF 4 [unfolded tls_connect_def]]
      elapsed_ms_step [OF 5] elapsed_ms_stream [OF 5]
    note run = assms [unfolded turns_alloc_run_def, simplified p i h option.case list.case Let_def 1 2 3 4 5 prod.case o simp_thms if_False]
    show ?thesis
    proof (cases "tcp = Some None")
      case False
      then have "ctx' = ctx \<and> r_status r = Fail \<and> r_id r = turns_id \<and> r_name r = turns_name \<and> later w3 w' \<and> w_log w' = w_log w3"
        using run by (auto simp: later_def split: option.splits dest!: fail_now_Ok)
      moreover have "later w w3" "w_log w3 = w_log w @ take 1 [Dialed ?server, Secured host]"
        using steps by (auto simp: later_def)
      ultimately show ?thesis using p i h o later_trans [of w w3 w'] by (simp only: ) blast
    next
      case c: True
      show ?thesis
      proof (cases "tls = Some None")
        case False
        then have "ctx' = ctx \<and> r_status r = Fail \<and> r_id r = turns_id \<and> r_name r = turns_name \<and> later w4 w' \<and> w_log w' = w_log w4"
          using run c by (auto simp: later_def split: option.splits dest!: fail_now_Ok)
        moreover have "later w w4" "w_log w4 = w_log w @ take 2 [Dialed ?server, Secured host]"
          using steps by (auto simp: later_def)
        ultimately show ?thesis using p i h o later_trans [of w w4 w'] by (simp only: ) blast
      next
        case True
        then have "turns_round1 c t0 ?server host ms ctx w5 = Ok (r, ctx', w')" using run c by simp
        moreover have "later w w5" "w_log w5 = w_log w @ [Dialed ?server, Secured host]" "w_stream w5 = w_stream w"
          using steps by (auto simp: later_def)
        ultimately show ?thesis using p i h o by blast
      qed
    qed
  qed
qed

lemma turns_round1_ids:
  assumes "turns_round1 c st sv h tm ctx w = Ok (r, ctx', w')"
  shows "r_id r = turns_id \<and> r_name r = turns_name \<and> later w w'"
  using turns_round1_cases [OF assms] by (auto dest!: turns_challenged_cases intro: later_trans)

lemma turns_alloc_run_ids:
  assumes "turns_alloc_run c ok ctx w = Ok (r, ctx', w')"
  shows "r_id r = turns_id \<and> r_name r = turns_name \<and> later w w'"
  using turns_alloc_run_cases [OF assms] by (auto dest!: turns_round1_ids intro: later_trans)

text \<open>Only the scratch entry for the relayed address is ever written; no session is opened.\<close>

definition ctx_relayed :: "check_result \<Rightarrow> probe_ctx \<Rightarrow> probe_ctx \<Rightarrow> bool" where
  "ctx_relayed r ctx ctx' \<longleftrightarrow>
     (if r_status r = Pass then \<exists>relayed. ctx' = ctx\<lparr>scratch := (scratch ctx)(''relayed'' \<mapsto> show_sock relayed)\<rparr>
      else ctx' = ctx)"

lemma ctx_relayed_same: "r_status r \<noteq> Pass \<Longrightarrow> ctx_relayed r ctx ctx"
  by (simp add: ctx_relayed_def)

lemma turns_round2_ctx: "turns_round2 c st sv h tm rl nc us pw ctx w = Ok (r, ctx', w') \<Longrightarrow> ctx_relayed r ctx ctx'"
  unfolding ctx_relayed_def by (drule turns_round2_cases) (elim conjE exE, simp split: if_splits, blast)

lemma turns_challenged_ctx:
  assumes "turns_challenged c st sv h tm o1 ctx w = Ok (r, ctx', w')"
  shows "ctx_relayed r ctx ctx'"
proof (cases "\<exists>realm nonce user pass. turns_round2 c st sv h tm realm nonce user pass ctx w = Ok (r, ctx', w')")
  case True
  then show ?thesis using turns_round2_ctx by blast
next
  case False
  then show ?thesis using turns_challenged_cases [OF assms]
    by (auto simp: ctx_relayed_def split: allocate_outcome.splits option.splits)
qed

lemma turns_alloc_run_ctx:
  assumes "turns_alloc_run c ok ctx w = Ok (r, ctx', w')"
  shows "ctx_relayed r ctx ctx'"
proof -
  have "ctx_relayed r ctx ctx'" if "turns_round1 c st sv h tm ctx v = Ok (r, ctx', w')" for st sv h tm v
    using turns_round1_cases [OF that] by (elim exE conjE disjE) (simp add: ctx_relayed_def, rule turns_challenged_ctx)
  with turns_alloc_run_cases [OF assms] show ?thesis
    by (elim exE conjE disjE) (auto intro: ctx_relayed_same)
qed

interpretation turns_alloc: check_contract "turns_alloc_check c ok" for c ok
proof
  show "\<exists>r ctx' w'. c_run (turns_alloc_check c ok) ctx w = Ok (r, ctx', w')" for ctx w
    using turns_alloc_run_total by (simp add: turns_alloc_check_def)
  fix ctx w r ctx' w'
  assume "c_run (turns_alloc_check c ok) ctx w = Ok (r, ctx', w')"
  then have run: "turns_alloc_run c ok ctx w = Ok (r, ctx', w')" by (simp add: turns_alloc_check_def)
  show "r_id r = c_id (turns_alloc_check c ok) \<and> r_name r = c_name (turns_alloc_check c ok)" "later w w'"
    using turns_alloc_run_ids [OF run] by (simp_all add: turns_alloc_check_def)
  show "ctx_config ctx' = ctx_config ctx"
    using turns_alloc_run_ctx [OF run] by (auto simp: ctx_config_def ctx_relayed_def split: if_splits)
qed

lemma take_front: "length xs = n \<Longrightarrow> take k xs = take (min k n) (xs @ ys)"
  by (simp add: min_def)

section \<open>Properties\<close>

text \<open>C17: Framing on a byte stream: a message of less than 65536 bytes written by \<open>send_framed\<close> and
  delivered to \<open>recv_framed\<close> in chunks of any sizes, before the deadline, is received unchanged, and the
  bytes behind it stay for the next call.  A longer message is cut: its length is sent
  modulo 65536, and the rest of it is taken for the next frame.\<close>

theorem framing_any_chunks:
  assumes "on_time d (w_stream w)"
    and "delivered (w_stream w) = to_be 2 (word_of_nat (length msg) :: u16) @ msg @ rest"
  shows "(length msg < 65536 \<longrightarrow> (\<exists>w'. recv_framed d w = (ReadOk msg, w')
            \<and> delivered (w_stream w') = rest \<and> on_time d (w_stream w')))
     \<and> (65536 \<le> length msg \<longrightarrow> (\<exists>w'. recv_framed d w = (ReadOk (take (length msg mod 65536) msg), w')
            \<and> delivered (w_stream w') = drop (length msg mod 65536) msg @ rest))
     \<and> (w_writes v = [] \<longrightarrow> (\<exists>v'. send_framed msg v = (None, v')
            \<and> w_log v' = w_log v @ [Wrote (to_be 2 (word_of_nat (length msg) :: u16)), Wrote msg]))"
proof -
  from assms(2) have f: "delivered (w_stream w) = frame msg @ rest" by (simp add: frame_def)
  have le: "length msg mod 65536 \<le> length msg" by simp
  have "\<exists>w'. recv_framed d w = (ReadOk msg, w') \<and> delivered (w_stream w') = rest \<and> on_time d (w_stream w')"
    if "length msg < 65536"
    using recv_framed_complete [OF assms(1) f] that by auto
  moreover have "\<exists>w'. recv_framed d w = (ReadOk (take (length msg mod 65536) msg), w')
       \<and> delivered (w_stream w') = drop (length msg mod 65536) msg @ rest"
    using recv_framed_complete [OF assms(1) f] le by auto
  moreover have "\<exists>v'. send_framed msg v = (None, v')
       \<and> w_log v' = w_log v @ [Wrote (to_be 2 (word_of_nat (length msg) :: u16)), Wrote msg]" if "w_writes v = []"
    using that by (simp add: send_framed_def write_all_def flush_stream_def next_write_def logged_def)
  ultimately show ?thesis by blast
qed

theorem framing_any_chunks_witness:
  "\<exists>w'. recv_framed 9 (quiet_world\<lparr>w_stream := [(1, Inr [0]), (2, Inr [2, 7]), (9, Inr [8, 0])]\<rparr>) = (ReadOk [7, 8], w')
     \<and> delivered (w_stream w') = [0]"
  using framing_any_chunks [of 9 "quiet_world\<lparr>w_stream := [(1, Inr [0]), (2, Inr [2, 7]), (9, Inr [8, 0])]\<rparr>" "[7, 8]" "[0]" quiet_world]
  by (auto simp: on_time_def to_be_2)

text \<open>C16: Everything the TLS allocation check does on the network, in order: it connects to the first
  resolved address, starts TLS under the host's name, writes the framed unauthenticated Allocate,
  and then, only if user and password were given and the first frame that came back is a
  401 challenge to that request, the framed authenticated Allocate for exactly the challenge's realm and nonce.
  An error may cut this short at any point.\<close>

theorem turns_wire:
  assumes "turns_alloc_run c ok ctx w = Ok (r, ctx', w')"
  shows "w_log w' = w_log w
     \<or> (\<exists>ip ips port host cl sa tx1 req1 k. resolved_ips ctx = ip # ips \<and> ctx_port ctx = Some port
          \<and> ctx_host ctx = Some host \<and> ok host \<and> build_allocate_unauth cl sa = Ok (tx1, req1)
          \<and> (w_log w' = w_log w @ take k ([Dialed (sock_new ip port), Secured host] @ framed_writes req1)
             \<or> (\<exists>len_buf resp rest realm nonce user pass cl2 sa2 tx2 req2.
                  turn_user ctx = Some user \<and> turn_pass ctx = Some pass
                  \<and> delivered (w_stream w) = len_buf @ resp @ rest \<and> length len_buf = 2
                  \<and> length resp = unat (from_be len_buf :: u16)
                  \<and> parse_allocate_response resp tx1 = Ok (Unauthorized realm nonce)
                  \<and> build_allocate_authed c cl2 sa2 user realm nonce (long_term_key c user realm pass) = Ok (tx2, req2)
                  \<and> w_log w' = w_log w @ [Dialed (sock_new ip port), Secured host] @ framed_writes req1
                       @ take k (framed_writes req2))))"
  using turns_alloc_run_cases [OF assms]
proof (elim disjE exE conjE)
  fix ip ips port host k
  assume i: "resolved_ips ctx = ip # ips" "ctx_port ctx = Some port" "ctx_host ctx = Some host" "ok host"
    and lg: "w_log w' = w_log w @ take k [Dialed (sock_new ip port), Secured host]"
  obtain tx req where u: "build_allocate_unauth None 0 = Ok (tx, req)"
    using build_allocate_unauth_message by blast
  have "take k [Dialed (sock_new ip port), Secured host]
      = take (min k 2) ([Dialed (sock_new ip port), Secured host] @ framed_writes req)"
    by (rule take_front) simp
  with lg have "w_log w' = w_log w @ take (min k 2) ([Dialed (sock_new ip port), Secured host] @ framed_writes req)"
    by (simp only:)
  with i u show ?thesis by (intro disjI2 exI conjI disjI1)
next
  fix ip ips port host started tls_ms w1
  assume i: "resolved_ips ctx = ip # ips" "ctx_port ctx = Some port" "ctx_host ctx = Some host" "ok host"
    and st: "w_stream w1 = w_stream w" and lg: "w_log w1 = w_log w @ [Dialed (sock_new ip port), Secured host]"
    and run1: "turns_round1 c started (sock_new ip port) host tls_ms ctx w1 = Ok (r, ctx', w')"
  let ?es = "[Dialed (sock_new ip port), Secured host]"
  from turns_round1_cases [OF run1] obtain cl sa tx1 req1 k where u: "build_allocate_unauth cl sa = Ok (tx1, req1)"
    and cs: "w_log w' = w_log w1 @ take k (framed_writes req1)
      \<or> (\<exists>w2 len_buf resp o1. w_log w2 = w_log w1 @ framed_writes req1
        \<and> delivered (w_stream w1) = len_buf @ resp @ delivered (w_stream w2)
        \<and> length len_buf = 2 \<and> length resp = unat (from_be len_buf :: u16)
        \<and> parse_allocate_response resp tx1 = Ok o1
        \<and> turns_challenged c started (sock_new ip port) host tls_ms o1 ctx w2 = Ok (r, ctx', w'))" by blast
  have first: ?thesis if "w_log w' = w_log w1 @ take k (framed_writes req1)" for k
  proof -
    have "w_log w' = w_log w @ take (Suc (Suc k)) (?es @ framed_writes req1)" using that lg by simp
    with i u show ?thesis by (intro disjI2 exI conjI disjI1)
  qed
  show ?thesis using cs
  proof (elim disjE exE conjE)
    fix w2 len_buf resp o1
    assume w2: "w_log w2 = w_log w1 @ framed_writes req1"
      and d: "delivered (w_stream w1) = len_buf @ resp @ delivered (w_stream w2)"
        "length len_buf = 2" "length resp = unat (from_be len_buf :: u16)"
      and o1: "parse_allocate_response resp tx1 = Ok o1"
      and ch: "turns_challenged c started (sock_new ip port) host tls_ms o1 ctx w2 = Ok (r, ctx', w')"
    show ?thesis
    proof (cases "\<exists>realm nonce user pass. o1 = Unauthorized realm nonce \<and> turn_user ctx = Some user \<and> turn_pass ctx = Some pass")
      case False
      then have "w_log w' = w_log w1 @ take 2 (framed_writes req1)"
        using turns_challenged_cases [OF ch] w2 by (auto split: allocate_outcome.splits option.splits)
      then show ?thesis by (rule first)
    next
      case True
      then obtain realm nonce user pass where o: "o1 = Unauthorized realm nonce"
        and up: "turn_user ctx = Some user" "turn_pass ctx = Some pass" by blast
      have "turns_round2 c started (sock_new ip port) host tls_ms realm nonce user pass ctx w2 = Ok (r, ctx', w')"
        using turns_challenged_cases [OF ch] o up by simp
      from turns_round2_cases [OF this] obtain cl2 sa2 tx2 req2 k2 where
        u2: "build_allocate_authed c cl2 sa2 user realm nonce (long_term_key c user realm pass) = Ok (tx2, req2)"
        and "w_log w' = w_log w2 @ take k2 (framed_writes req2)" by blast
      then have "w_log w' = w_log w @ ?es @ framed_writes req1 @ take k2 (framed_writes req2)"
        using w2 lg by simp
      with i u up d o1 [unfolded o] u2 show ?thesis unfolding st by (intro disjI2 exI conjI)
    qed
  qed (rule first)
qed simp


text \<open>An example: both answers arrive in one piece.\<close>

definition example_turns_ctx :: probe_ctx where
  "example_turns_ctx = example_turn_ctx\<lparr>ctx_host := Some ''h''\<rparr>"

definition example_turns_world :: world where
  "example_turns_world = quiet_world\<lparr>w_stream := [(0, Inr (frame example_challenge @ frame example_grant))]\<rparr>"

lemma example_reply_lengths: "length example_challenge < 65536" "length example_grant < 65536"
  "example_challenge \<noteq> []" "example_grant \<noteq> []"
  by (simp_all add: message_def to_be_2 example_challenge_def example_grant_def challenge_attrs_def grant_attrs_def
      length_enc_attr length_build_xor_address pad4_def)

lemma frame_not_empty: "frame msg \<noteq> []"
  by (simp add: frame_def to_be_2)

text \<open>A framed message that is there at once is received at once.\<close>

lemma read_chunks_front:
  assumes "xs \<noteq> []" and "length xs = n"
  shows "read_chunks d n acc now [(0, Inr (xs @ rest))]
    = (ReadOk (acc @ xs), now, if rest = [] then [] else [(0, Inr rest)])"
  using assms by (cases n) auto

lemma recv_framed_now:
  assumes "w_stream w = [(0, Inr (frame msg @ rest))]" and "length msg < 65536" and "msg \<noteq> []"
  shows "recv_framed d w = (ReadOk msg, w\<lparr>w_stream := if rest = [] then [] else [(0, Inr rest)]\<rparr>)"
proof -
  let ?h = "to_be 2 (word_of_nat (length msg) :: u16)"
  have h: "?h \<noteq> []" by (simp add: to_be_2)
  have "read_exact d 2 w = (ReadOk ?h, w\<lparr>w_stream := [(0, Inr (msg @ rest))]\<rparr>)"
    using read_chunks_front [OF h, of 2 d "[]" "w_now w" "msg @ rest"] assms
    by (simp add: read_exact_def frame_def)
  moreover have "read_exact d (length msg) (w\<lparr>w_stream := [(0, Inr (msg @ rest))]\<rparr>)
      = (ReadOk msg, w\<lparr>w_stream := if rest = [] then [] else [(0, Inr rest)]\<rparr>)"
    using read_chunks_front [OF assms(3) refl, of d "[]" "w_now w" rest] by (simp add: read_exact_def)
  moreover have "unat (word_of_nat (length msg) :: u16) = length msg" using assms(2) by (simp add: unat_of_nat)
  ultimately show ?thesis by (simp add: recv_framed_def)
qed

lemma example_turns_run:
  "\<exists>r ctx' w'. turns_alloc_run zero_crypto (\<lambda>_. True) example_turns_ctx example_turns_world = Ok (r, ctx', w')
     \<and> r_status r = Pass \<and> length (w_log w') = 6"
proof -
  obtain req1 where 1: "build_allocate_unauth None 0 = Ok (example_txid, req1)"
    by (simp add: build_allocate_unauth_message new_txid_example)
  obtain req2 where 2: "build_allocate_authed zero_crypto None 0 ''u'' ''r'' [110]
      (long_term_key zero_crypto ''u'' ''r'' ''p'') = Ok (example_txid, req2)"
    using build_allocate_authed_total [of zero_crypto None 0] by (simp add: new_txid_example) blast
  show ?thesis
    by (simp add: turns_alloc_run_def turns_round1_def turns_challenged_def turns_round2_def Let_def 1 2
        example_turns_ctx_def example_turn_ctx_def example_ctx_def example_turns_world_def world_eval
        tcp_connect_def tls_connect_def within_def logged_def send_framed_def write_all_def flush_stream_def next_write_def
        recv_framed_now [where rest = "frame example_grant"] recv_framed_now [where rest = "[]", simplified]
        example_reply_lengths frame_not_empty example_challenge_parses example_grant_parses)
qed

theorem turns_wire_witness:
  "\<exists>r ctx' w' req1 req2. turns_alloc_run zero_crypto (\<lambda>_. True) example_turns_ctx example_turns_world = Ok (r, ctx', w')
     \<and> w_log w' = [Dialed (SockV4 1 3478), Secured ''h''] @ framed_writes req1 @ framed_writes req2"
proof -
  obtain r ctx' w' where run: "turns_alloc_run zero_crypto (\<lambda>_. True) example_turns_ctx example_turns_world = Ok (r, ctx', w')"
    and len: "length (w_log w') = 6" using example_turns_run by blast
  have c: "resolved_ips example_turns_ctx = [V4 1]" "ctx_port example_turns_ctx = Some 3478"
    "ctx_host example_turns_ctx = Some ''h''" "w_log example_turns_world = []"
    by (simp_all add: example_turns_ctx_def example_turn_ctx_def example_ctx_def example_turns_world_def world_eval)
  show ?thesis
    using turns_wire [OF run] run len by (auto simp: c framed_writes_def)
qed


end
