(* ===== verification/Signaling.thy ===== *)
theory Signaling
  imports Net_Stream Stun_Check
begin

text \<open>
  The signaling check, \<open>crates/probe-core/src/checks/signaling.rs\<close>: one WebSocket upgrade,
  with an \<open>Authorization\<close> header if the user gave one.  URL parsing, request building and
  header values belong to the crates \<open>tungstenite\<close> and \<open>http\<close>: they are the fields of the
  argument \<open>web\<close>.  The upgrade itself (name resolution, TCP, TLS and HTTP) is one operation of
  the world, \<open>w_ws\<close>.  After a success the Close frame is sent and awaited, its result ignored: it takes the
  time \<open>w_ws_close\<close>, after the latency was taken.
\<close>

section \<open>The check\<close>

record web =
  uri_host :: "string \<Rightarrow> string option"  \<comment> \<open>\<open>Uri::try_from(url).ok().and_then(|u| u.host())\<close>\<close>
  client_request :: "string \<Rightarrow> string option"  \<comment> \<open>the error of \<open>into_client_request\<close>\<close>
  header_value :: "string \<Rightarrow> string option"  \<comment> \<open>the error of \<open>HeaderValue::from_str\<close>\<close>

definition signaling_id :: string where "signaling_id = ''signaling''"
definition signaling_name :: string where "signaling_name = ''Signaling endpoint''"

definition host_from_url :: "web \<Rightarrow> string \<Rightarrow> string option" where
  "host_from_url web url = uri_host web url"

record signaling =
  sg_url :: string
  sg_auth_header :: "string option"

definition signaling_new :: "string \<Rightarrow> signaling" where
  "signaling_new url = \<lparr>sg_url = url, sg_auth_header = None\<rparr>"

definition with_auth_header :: "signaling \<Rightarrow> string \<Rightarrow> signaling" where
  "with_auth_header s header = s\<lparr>sg_auth_header := Some header\<rparr>"

abbreviation signaling_fail :: "nat \<Rightarrow> string \<Rightarrow> probe_ctx \<Rightarrow> world \<Rightarrow> run_outcome" where
  "signaling_fail \<equiv> fail_now signaling_id signaling_name"

definition ws_connect :: "nat \<Rightarrow> string \<Rightarrow> string option \<Rightarrow> world \<Rightarrow> (io_error + u16) option \<times> world" where
  "ws_connect d url auth w = within d (w_ws w url auth) (logged (Upgraded url auth) w)"

text \<open>\<open>ws.close(None).await\<close>, whatever comes of it.\<close>

definition ws_close :: "world \<Rightarrow> world" where
  "ws_close w = w\<lparr>w_now := w_now w + w_ws_close w\<rparr>"

definition signaling_run :: "web \<Rightarrow> signaling \<Rightarrow> probe_ctx \<Rightarrow> world \<Rightarrow> run_outcome" where
  "signaling_run web s ctx w =
     (let (started, w) = instant_now w
      in case client_request web (sg_url s) of
           Some e \<Rightarrow> signaling_fail started (''invalid signaling URL: '' @ e) ctx w
         | None \<Rightarrow>
     (case Option.bind (sg_auth_header s) (header_value web) of
        Some e \<Rightarrow> signaling_fail started (''invalid Authorization header value: '' @ e) ctx w
      | None \<Rightarrow>
     (let connect_timeout = long_timeout_of ctx;
          scheme = (if starts_with (sg_url s) ''wss'' then ''wss'' else ''ws'');
          (connect, w) = ws_connect connect_timeout (sg_url s) (sg_auth_header s) w;
          (ms, w) = elapsed_ms started w
      in case connect of
           Some (Inr status) \<Rightarrow>
             (let w = ws_close w;
                  auth_used = (sg_auth_header s \<noteq> None)
              in Ok (with_detail
                       (pass_result signaling_id signaling_name ms
                          (scheme @ '' connected, HTTP '' @ show_word status @ '' ('' @ show_word ms @ '' ms''
                             @ (if auth_used then '', auth OK'' else '''') @ '')''))
                       (JObj [(''scheme'', JStr scheme), (''http_status'', JNum (unat status)),
                              (''auth_header'', JBool auth_used), (''url'', JStr (sg_url s))]), ctx, w))
         | Some (Inl e) \<Rightarrow> Ok (fail_result signaling_id signaling_name ms (''WS handshake failed: '' @ e), ctx, w)
         | None \<Rightarrow>
             Ok (fail_result signaling_id signaling_name ms
                   (''connect timeout after '' @ show_duration connect_timeout), ctx, w))))"

definition signaling_check :: "web \<Rightarrow> signaling \<Rightarrow> check" where
  "signaling_check web s =
     \<lparr>c_id = signaling_id, c_name = signaling_name, c_requires = [], c_run = signaling_run web s\<rparr>"

section \<open>Lemmas\<close>

lemma signaling_run_cases:
  assumes "signaling_run web s ctx w = Ok (r, ctx', w')"
  shows "r_id r = signaling_id \<and> r_name r = signaling_name \<and> later w w' \<and> ctx' = ctx \<and> r_status r \<in> {Pass, Fail}
    \<and> (if client_request web (sg_url s) = None \<and> Option.bind (sg_auth_header s) (header_value web) = None
       then w_log w' = w_log w @ [Upgraded (sg_url s) (sg_auth_header s)]
         \<and> (r_status r = Pass \<longleftrightarrow> (\<exists>delay status. w_ws w (sg_url s) (sg_auth_header s) = (delay, Inr status)
               \<and> delay \<le> long_timeout_of ctx))
       else r_status r = Fail \<and> w_log w' = w_log w)"
proof -
  obtain t0 w1 where 1: "instant_now w = (t0, w1)" by fastforce
  have ws: "w_ws w1 = w_ws w" using 1 by (auto simp: instant_now_def split: list.splits)
  obtain con w2 where 2: "ws_connect (long_timeout_of ctx) (sg_url s) (sg_auth_header s) w1 = (con, w2)" by fastforce
  obtain ms w3 where 3: "elapsed_ms t0 w2 = (ms, w3)" by fastforce
  note steps = instant_now_step [OF 1] within_step [OF 2 [unfolded ws_connect_def]] elapsed_ms_step [OF 3]
  show ?thesis
  proof (cases "client_request web (sg_url s) = None \<and> Option.bind (sg_auth_header s) (header_value web) = None")
    case False
    then show ?thesis using assms 1 steps(1)
      by (auto simp: signaling_run_def later_def split: option.splits dest!: fail_now_Ok)
  next
    case True
    note run = assms [unfolded signaling_run_def, simplified 1 2 3 True Let_def prod.case option.case]
    have con: "con = (if fst (w_ws w (sg_url s) (sg_auth_header s)) \<le> long_timeout_of ctx
        then Some (snd (w_ws w (sg_url s) (sg_auth_header s))) else None)"
      using 2 ws by (auto simp: ws_connect_def within_def split: prod.splits if_splits)
    show ?thesis
    proof (cases "w_ws w (sg_url s) (sg_auth_header s)")
      case (Pair delay outcome)
      have st: "w_log w3 = w_log w @ [Upgraded (sg_url s) (sg_auth_header s)]" "later w w3"
        "w_log (ws_close w3) = w_log w @ [Upgraded (sg_url s) (sg_auth_header s)]" "later w (ws_close w3)"
        using steps by (auto simp: later_def ws_close_def)
      show ?thesis using run st True con unfolding Pair
        by (cases outcome; cases "delay \<le> long_timeout_of ctx") (auto simp: Let_def)
    qed
  qed
qed

text \<open>The log has no influence on the clock.\<close>

lemma elapsed_ms_log: "elapsed_ms t (w\<lparr>w_log := l, w_now := n\<rparr>) = (ms, w') \<Longrightarrow> ms = fst (elapsed_ms t (w\<lparr>w_now := n\<rparr>))"
  by (auto simp: elapsed_ms_def instant_now_def split: list.splits)

lemma signaling_run_total: "\<exists>r ctx' w'. signaling_run web s ctx w = Ok (r, ctx', w')"
  using fail_now_total by (auto simp: signaling_run_def Let_def split: option.splits prod.splits sum.splits)

interpretation signaling: check_contract "signaling_check web s" for web s
proof
  show "\<exists>r ctx' w'. c_run (signaling_check web s) ctx w = Ok (r, ctx', w')" for ctx w
    using signaling_run_total by (simp add: signaling_check_def)
  fix ctx w r ctx' w'
  assume "c_run (signaling_check web s) ctx w = Ok (r, ctx', w')"
  then have run: "signaling_run web s ctx w = Ok (r, ctx', w')" by (simp add: signaling_check_def)
  show "r_id r = c_id (signaling_check web s) \<and> r_name r = c_name (signaling_check web s)" "later w w'"
    "ctx_config ctx' = ctx_config ctx"
    using signaling_run_cases [OF run] by (simp_all add: signaling_check_def)
qed

section \<open>Properties\<close>

text \<open>C19: The signaling check makes at most one attempt: with a usable URL and header exactly the
  upgrade for that URL with that header, otherwise none; it passes exactly when the upgrade succeeds
  within the timeout, which is ten seconds at least, fails in every other case, and never
  changes the context.  The value of the \<open>Authorization\<close> header is kept out of the report: with another
  valid value and the same reaction of the server the result is the same.\<close>

theorem signaling_outcome:
  assumes "signaling_run web s ctx w = Ok (r, ctx', w')"
  shows "ctx' = ctx \<and> secs 10 \<le> long_timeout_of ctx
    \<and> (if client_request web (sg_url s) = None \<and> Option.bind (sg_auth_header s) (header_value web) = None
       then w_log w' = w_log w @ [Upgraded (sg_url s) (sg_auth_header s)]
         \<and> (if \<exists>delay status. w_ws w (sg_url s) (sg_auth_header s) = (delay, Inr status) \<and> delay \<le> long_timeout_of ctx
            then r_status r = Pass else r_status r = Fail)
       else r_status r = Fail \<and> w_log w' = w_log w)
    \<and> (\<forall>h h2 r2 c2 w2. sg_auth_header s = Some h \<longrightarrow> header_value web h = None \<longrightarrow> header_value web h2 = None
         \<longrightarrow> w_ws w (sg_url s) (Some h2) = w_ws w (sg_url s) (Some h)
         \<longrightarrow> signaling_run web (with_auth_header s h2) ctx w = Ok (r2, c2, w2) \<longrightarrow> r2 = r)"
proof -
  have "r2 = r" if h: "sg_auth_header s = Some h" "header_value web h = None" "header_value web h2 = None"
    and ws: "w_ws w (sg_url s) (Some h2) = w_ws w (sg_url s) (Some h)"
    and run2: "signaling_run web (with_auth_header s h2) ctx w = Ok (r2, c2, w2)" for h h2 r2 c2 w2
  proof (cases "client_request web (sg_url s)")
    case (Some e)
    then show ?thesis using assms run2 by (simp add: signaling_run_def with_auth_header_def Let_def split: prod.splits)
  next
    case None
    obtain t0 w1 where 1: "instant_now w = (t0, w1)" by fastforce
    have "w_ws w1 = w_ws w" using 1 by (auto simp: instant_now_def split: list.splits)
    then show ?thesis using assms run2 None h ws 1
      by (auto simp: signaling_run_def with_auth_header_def Let_def ws_connect_def within_def logged_def
          split: prod.splits sum.splits if_splits dest!: elapsed_ms_log)
  qed
  moreover have "secs 10 \<le> long_timeout_of ctx" by (simp add: long_timeout_of_def)
  ultimately show ?thesis using signaling_run_cases [OF assms] by (auto split: if_splits)
qed

text \<open>An example: a parser that accepts everything, and a server that upgrades.\<close>

definition lenient_web :: web where
  "lenient_web = \<lparr>uri_host = (\<lambda>_. Some ''s''), client_request = (\<lambda>_. None), header_value = (\<lambda>_. None)\<rparr>"

theorem signaling_outcome_witness:
  "\<exists>r w'. signaling_run lenient_web (with_auth_header (signaling_new ''wss://s/'') ''Bearer x'') ctx_new quiet_world = Ok (r, ctx_new, w')
     \<and> r_status r = Pass \<and> w_log w' = [Upgraded ''wss://s/'' (Some ''Bearer x'')]"
proof -
  let ?s = "with_auth_header (signaling_new ''wss://s/'') ''Bearer x''"
  obtain r ctx' w' where run: "signaling_run lenient_web ?s ctx_new quiet_world = Ok (r, ctx', w')"
    using signaling_run_total by blast
  have "ctx' = ctx_new" "r_status r = Pass" "w_log w' = [Upgraded ''wss://s/'' (Some ''Bearer x'')]"
    using signaling_outcome [OF run]
    by (simp_all add: lenient_web_def with_auth_header_def signaling_new_def quiet_world_def)
  with run show ?thesis by blast
qed

end
