(* ===== verification/Dtls.thy ===== *)
theory Dtls
  imports Net_Stream Stun_Check
begin

text \<open>
  The DTLS checks, \<open>crates/probe-core/src/checks/dtls.rs\<close>: loopback, remote, and the test peer.
  The protocol itself is the crate \<open>webrtc-dtls\<close>: generating a certificate, connecting the UDP
  socket, listening, the server task of the loopback test and SHA-256 (the crate \<open>sha2\<close>) are fields of
  the argument \<open>lib\<close>; the client handshake is the operation \<open>w_dtls\<close> of the world, with the peer's
  certificates and the name of the SRTP profile as its outcome.  Reading the connection's
  state and closing it take no time.
\<close>

section \<open>The fingerprint\<close>

text \<open>\<open>{b:02X}\<close>.\<close>

definition upper_digit :: "nat \<Rightarrow> char" where
  "upper_digit d = (if d < 10 then char_of (48 + d) else char_of (55 + d))"

definition hex2 :: "u8 \<Rightarrow> string" where
  "hex2 b = [upper_digit (unat b div 16), upper_digit (unat b mod 16)]"

record dtls_lib =
  dl_cert :: "string \<Rightarrow> io_error option"
  dl_connect :: "sockaddr \<Rightarrow> io_error option"
  dl_listen :: "sockaddr \<Rightarrow> io_error + sockaddr"
  dl_server :: "nat \<times> io_error option"  \<comment> \<open>the in-process server: when its task ends, and how\<close>
  dl_sha256 :: "bytes \<Rightarrow> bytes"

text \<open>The loop over the digest; a colon before every byte but the first.\<close>

fun fingerprint_loop :: "nat \<Rightarrow> bytes \<Rightarrow> string \<Rightarrow> string" where
  "fingerprint_loop i [] out = out"
| "fingerprint_loop i (b # bs) out =
     fingerprint_loop (i + 1) bs ((if i > 0 then out @ '':'' else out) @ hex2 b)"

definition sha256_fingerprint :: "dtls_lib \<Rightarrow> bytes \<Rightarrow> string" where
  "sha256_fingerprint lib cert_der =
     (if cert_der = [] then '''' else fingerprint_loop 0 (dl_sha256 lib cert_der) '''')"

section \<open>The handshakes\<close>

record outcome =
  handshake_ms :: u64
  fingerprint_sha256 :: string
  srtp_profile :: string
  peer_cert_len :: nat

definition budget_from :: "probe_ctx \<Rightarrow> nat" where
  "budget_from ctx = (if default_timeout ctx = 0 then secs 5 else default_timeout ctx)"

text \<open>\<open>None\<close> when the deadline of the surrounding \<open>timeout\<close> passes first.\<close>

definition client_config :: "dtls_lib \<Rightarrow> io_error option" where
  "client_config lib = dl_cert lib ''webrtc-doctor-client''"

definition dial :: "dtls_lib \<Rightarrow> nat \<Rightarrow> sockaddr \<Rightarrow> world \<Rightarrow> (io_error + outcome) option \<times> world" where
  "dial lib deadline target w =
     (let (bound, w) = udp_bind (local_bind_for (sock_ip target)) w
      in case bound of
           Inl e \<Rightarrow> (Some (Inl e), w)
         | Inr sock \<Rightarrow>
     (case dl_connect lib target of
        Some e \<Rightarrow> (Some (Inl e), w)
      | None \<Rightarrow>
     (case client_config lib of
        Some e \<Rightarrow> (Some (Inl e), w)
      | None \<Rightarrow>
     (let (handshake_started, w) = instant_now w;
          (shook, w) = within (deadline - w_now w) (w_dtls w target) (logged (Shook target) w)
      in case shook of
           None \<Rightarrow> (None, w)
         | Some (Inl e) \<Rightarrow> (Some (Inl e), w)
         | Some (Inr (certs, profile)) \<Rightarrow>
             (let (ms, w) = elapsed_ms handshake_started w;
                  peer_cert_der = (case certs of [] \<Rightarrow> [] | cert # _ \<Rightarrow> cert)
              in (Some (Inr \<lparr>handshake_ms = ms, fingerprint_sha256 = sha256_fingerprint lib peer_cert_der,
                             srtp_profile = profile, peer_cert_len = length peer_cert_der\<rparr>), w))))))"

definition run_remote_handshake :: "dtls_lib \<Rightarrow> nat \<Rightarrow> sockaddr \<Rightarrow> world \<Rightarrow> (io_error + outcome) option \<times> world" where
  "run_remote_handshake lib deadline target w = dial lib deadline target w"

text \<open>\<open>server.await??\<close>: an error of the server task fails the check after the client's success.\<close>

definition run_loopback_handshake :: "dtls_lib \<Rightarrow> nat \<Rightarrow> world \<Rightarrow> (io_error + outcome) option \<times> world" where
  "run_loopback_handshake lib deadline w =
     (case dl_cert lib ''webrtc-doctor-server'' of
        Some e \<Rightarrow> (Some (Inl e), w)
      | None \<Rightarrow>
     (case dl_listen lib (SockV4 0x7F000001 0) of
        Inl e \<Rightarrow> (Some (Inl e), w)
      | Inr server_addr \<Rightarrow>
     (case dial lib deadline server_addr w of
        (Some (Inr out), w) \<Rightarrow>
          (case within (deadline - w_now w) (dl_server lib) w of
             (None, w) \<Rightarrow> (None, w)
           | (Some (Some e), w) \<Rightarrow> (Some (Inl e), w)
           | (Some None, w) \<Rightarrow> (Some (Inr out), w))
      | (other, w) \<Rightarrow> (other, w))))"

section \<open>The checks\<close>

definition finish_pass :: "string \<Rightarrow> string \<Rightarrow> nat \<Rightarrow> outcome \<Rightarrow> string \<Rightarrow> probe_ctx \<Rightarrow> world \<Rightarrow> run_outcome" where
  "finish_pass i n started out transport_label ctx w =
     (let (ms, w) = elapsed_ms started w
      in Ok (with_detail
               (pass_result i n ms
                  (''handshake OK in '' @ show_word (handshake_ms out) @ '' ms ('' @ transport_label
                     @ ''); peer fp sha-256 '' @ take 23 (fingerprint_sha256 out)))
               (JObj [(''handshake_ms'', JNum (unat (handshake_ms out))),
                      (''fingerprint_sha256'', JStr (fingerprint_sha256 out)),
                      (''srtp_profile'', JStr (srtp_profile out)),
                      (''peer_cert_der_bytes'', JNum (peer_cert_len out)),
                      (''transport'', JStr transport_label)]), ctx, w))"

definition finish_fail :: "string \<Rightarrow> string \<Rightarrow> nat \<Rightarrow> string \<Rightarrow> probe_ctx \<Rightarrow> world \<Rightarrow> run_outcome" where
  "finish_fail i n started msg ctx w = (let (ms, w) = elapsed_ms started w in Ok (fail_result i n ms msg, ctx, w))"

definition loopback_id :: string where "loopback_id = ''dtls.loopback''"
definition loopback_name :: string where "loopback_name = ''DTLS handshake (loopback)''"
definition remote_id :: string where "remote_id = ''dtls.remote''"
definition remote_name :: string where "remote_name = ''DTLS handshake (remote)''"

definition loopback_run :: "dtls_lib \<Rightarrow> probe_ctx \<Rightarrow> world \<Rightarrow> run_outcome" where
  "loopback_run lib ctx w =
     (let (started, w) = instant_now w;
          budget = budget_from ctx
      in case run_loopback_handshake lib (w_now w + budget) w of
           (Some (Inr out), w) \<Rightarrow> finish_pass loopback_id loopback_name started out ''loopback'' ctx w
         | (Some (Inl e), w) \<Rightarrow> finish_fail loopback_id loopback_name started (''DTLS handshake failed: '' @ e) ctx w
         | (None, w) \<Rightarrow>
             finish_fail loopback_id loopback_name started
               (''DTLS handshake timed out after '' @ show_duration budget) ctx w)"

definition remote_run :: "dtls_lib \<Rightarrow> probe_ctx \<Rightarrow> world \<Rightarrow> run_outcome" where
  "remote_run lib ctx w =
     (case ctx_port ctx of
        None \<Rightarrow> Ok (skip_result remote_id remote_name ''no port supplied'', ctx, w)
      | Some port \<Rightarrow>
     (case resolved_ips ctx of
        [] \<Rightarrow> Ok (skip_result remote_id remote_name ''no resolved IP'', ctx, w)
      | ip # _ \<Rightarrow>
     (let target = sock_new ip port;
          (started, w) = instant_now w;
          budget = budget_from ctx
      in case run_remote_handshake lib (w_now w + budget) target w of
           (Some (Inr out), w) \<Rightarrow> finish_pass remote_id remote_name started out (''via '' @ show_sock target) ctx w
         | (Some (Inl e), w) \<Rightarrow>
             finish_fail remote_id remote_name started
               (''DTLS handshake to '' @ show_sock target @ '' failed: '' @ e) ctx w
         | (None, w) \<Rightarrow>
             finish_fail remote_id remote_name started
               (''DTLS handshake to '' @ show_sock target @ '' timed out after '' @ show_duration budget) ctx w)))"

definition loopback_check :: "dtls_lib \<Rightarrow> check" where
  "loopback_check lib = \<lparr>c_id = loopback_id, c_name = loopback_name, c_requires = [], c_run = loopback_run lib\<rparr>"

definition remote_check :: "dtls_lib \<Rightarrow> check" where
  "remote_check lib = \<lparr>c_id = remote_id, c_name = remote_name, c_requires = [dns_id], c_run = remote_run lib\<rparr>"

section \<open>The test peer\<close>

text \<open>
  After the set-up, which can fail, the loop never ends: a state is the list of peers
  reported to \<open>on_accept\<close> so far, and each outcome of \<open>accept\<close> leads to the next state.
\<close>

definition serve_start :: "dtls_lib \<Rightarrow> sockaddr \<Rightarrow> (io_error, sockaddr) res" where
  "serve_start lib bind =
     (case dl_cert lib ''webrtc-doctor-serve'' of
        Some e \<Rightarrow> Err e
      | None \<Rightarrow> (case dl_listen lib bind of Inl e \<Rightarrow> Err e | Inr actual \<Rightarrow> Ok actual))"

inductive serve_step :: "sockaddr list \<Rightarrow> io_error + sockaddr \<Rightarrow> sockaddr list \<Rightarrow> bool" where
  accepted: "serve_step peers (Inr peer) (peers @ [peer])"
| accept_error: "serve_step peers (Inl e) peers"

inductive_cases serve_step_elim: "serve_step peers a peers'"

inductive serves :: "(io_error + sockaddr) list \<Rightarrow> sockaddr list \<Rightarrow> bool" where
  start: "serves [] []"
| next_accept: "serves accepts peers \<Longrightarrow> serve_step peers a peers' \<Longrightarrow> serves (accepts @ [a]) peers'"

section \<open>Lemmas: the fingerprint\<close>

fun colons :: "bytes \<Rightarrow> string" where
  "colons [] = ''''"
| "colons [b] = hex2 b"
| "colons (b # bs) = hex2 b @ '':'' @ colons bs"

lemma fingerprint_loop_rest: "0 < i \<Longrightarrow> fingerprint_loop i bs out = out @ concat (map (\<lambda>b. '':'' @ hex2 b) bs)"
  by (induction i bs out rule: fingerprint_loop.induct) auto

lemma colons_Cons: "colons (b # bs) = hex2 b @ concat (map (\<lambda>b. '':'' @ hex2 b) bs)"
  by (induction bs arbitrary: b) auto

lemma fingerprint_loop_colons: "fingerprint_loop 0 bs '''' = colons bs"
  by (cases bs) (simp_all add: fingerprint_loop_rest colons_Cons)

lemma length_hex2 [simp]: "length (hex2 b) = 2"
  by (simp add: hex2_def)

lemma length_colons: "length (colons bs) = 3 * length bs - 1"
  by (induction bs rule: colons.induct) auto

definition is_upper_hex :: "char \<Rightarrow> bool" where
  "is_upper_hex c \<longleftrightarrow> c \<in> set ''0123456789ABCDEF''"

lemma upper_digit_hex: "d < 16 \<Longrightarrow> is_upper_hex (upper_digit d)"
proof -
  have "\<forall>d \<in> set [0..<16]. is_upper_hex (upper_digit d)" by (simp add: is_upper_hex_def upper_digit_def upt_rec char_of_eq_iff)
  then show "d < 16 \<Longrightarrow> is_upper_hex (upper_digit d)" by simp
qed

lemma of_char_upper_digit: "d < 16 \<Longrightarrow> (of_char (upper_digit d) :: nat) = (if d < 10 then 48 + d else 55 + d)"
  by (simp add: upper_digit_def)

lemma upper_digit_inject:
  assumes "d < 16" and "e < 16" and "upper_digit d = upper_digit e"
  shows "d = e"
proof -
  have "(of_char (upper_digit d) :: nat) = of_char (upper_digit e)" by (simp only: assms(3))
  then have "(if d < 10 then 48 + d else 55 + d) = (if e < 10 then 48 + e else 55 + e)"
    by (simp only: of_char_upper_digit assms(1,2))
  then show ?thesis by (cases "d < 10"; cases "e < 10") simp_all
qed

lemma hex2_inject: "hex2 a = hex2 b \<Longrightarrow> a = b"
proof -
  assume h: "hex2 a = hex2 b"
  have l: "unat a < 256" "unat b < 256" using unsigned_less [of a, where 'a = nat] unsigned_less [of b, where 'a = nat] by simp_all
  then have "unat a div 16 = unat b div 16" "unat a mod 16 = unat b mod 16"
    using h by (auto simp: hex2_def intro!: upper_digit_inject)
  then have "unat a = unat b" by (metis div_mult_mod_eq)
  then show "a = b" by (simp add: word_unat_eq_iff)
qed

lemma colons_inject: "colons as = colons bs \<Longrightarrow> as = bs"
proof (induction as arbitrary: bs rule: colons.induct)
  case 1
  then have "length (colons bs) = 0" by (simp only: colons.simps list.size)
  then have "bs = []" by (cases bs) (simp_all add: length_colons)
  then show ?case by simp
next
  case (2 a)
  then have "length (colons bs) = 2" by (metis colons.simps(2) length_hex2)
  then have "length bs = 1" by (simp add: length_colons)
  then obtain b where "bs = [b]" by (metis One_nat_def length_0_conv length_Suc_conv)
  with 2 show ?case by (simp add: hex2_inject)
next
  case (3 a x xs)
  then have "length (colons bs) = 3 * length (a # x # xs) - 1" by (metis length_colons)
  then have "length bs = length (a # x # xs)" by (simp add: length_colons)
  then obtain b y ys where bs: "bs = b # y # ys" by (metis length_Suc_conv list.size(4))
  with 3 have "hex2 a @ '':'' @ colons (x # xs) = hex2 b @ '':'' @ colons (y # ys)" by simp
  then have "hex2 a = hex2 b" "colons (x # xs) = colons (y # ys)" by (simp_all add: append_eq_append_conv)
  with 3 bs show ?case using hex2_inject by metis
qed

lemma colons_nth:
  "i < length (colons bs) \<Longrightarrow> (if i mod 3 = 2 then colons bs ! i = CHR '':'' else is_upper_hex (colons bs ! i))"
proof (induction bs arbitrary: i rule: colons.induct)
  case (3 b x xs)
  have h: "is_upper_hex (hex2 b ! j)" if "j < 2" for j
    using that unsigned_less [of b, where 'a = nat] upper_digit_hex [of "unat b div 16"] upper_digit_hex [of "unat b mod 16"]
    by (auto simp: hex2_def less_2_cases_iff)
  consider "i < 2" | "i = 2" | j where "i = j + 3" by (metis add.commute le_Suc_ex linorder_not_less less_Suc_eq numeral_3_eq_3 numeral_2_eq_2)
  then show ?case
  proof cases
    case 1
    then show ?thesis using h by (auto simp: nth_append)
  next
    case 2
    then show ?thesis by (simp add: nth_append)
  next
    case 3
    then have "colons (b # x # xs) ! i = colons (x # xs) ! j" by (simp add: nth_append)
    moreover have "j < length (colons (x # xs))" using 3 "3.prems" by simp
    ultimately show ?thesis using "3.IH" [of j] 3 by simp
  qed
next
  case (2 b)
  then show ?case
    using unsigned_less [of b, where 'a = nat] upper_digit_hex [of "unat b div 16"] upper_digit_hex [of "unat b mod 16"]
    by (auto simp: hex2_def less_Suc_eq)
qed simp

lemma colons_take: "0 < k \<Longrightarrow> take (3 * k - 1) (colons bs) = colons (take k bs)"
proof (induction bs arbitrary: k rule: colons.induct)
  case (3 b x xs)
  show ?case
  proof (cases "k = 1")
    case False
    then obtain j where k: "k = Suc j" "0 < j" using 3(2) by (cases k) auto
    then have "3 * k - 1 = length (hex2 b) + Suc (3 * j - 1)" by simp
    then have "take (3 * k - 1) (colons (b # x # xs)) = hex2 b @ CHR '':'' # take (3 * j - 1) (colons (x # xs))"
      by (simp only: colons.simps take_append) simp
    moreover have "take (3 * j - 1) (colons (x # xs)) = colons (take j (x # xs))" using "3.IH" k(2) by blast
    moreover have "colons (take k (b # x # xs)) = hex2 b @ CHR '':'' # colons (take j (x # xs))"
      using k by (cases j) simp_all
    ultimately show ?thesis by simp
  qed simp
qed (auto split: nat.splits simp: take_Cons)

section \<open>Lemmas: the handshakes\<close>

definition first_cert :: "bytes list \<Rightarrow> bytes" where
  "first_cert certs = (case certs of [] \<Rightarrow> [] | cert # _ \<Rightarrow> cert)"

lemma dial_cases:
  assumes "dial lib d t w = (res, w')"
  shows "later w w' \<and> (\<exists>k. w_log w' = w_log w @ take k [Bound (w_socks w) (local_bind_for (sock_ip t)), Shook t])
    \<and> (\<forall>out. res = Some (Inr out) \<longrightarrow>
         w_log w' = w_log w @ [Bound (w_socks w) (local_bind_for (sock_ip t)), Shook t]
         \<and> (\<exists>delay certs profile. w_dtls w t = (delay, Inr (certs, profile)) \<and> delay \<le> d - w_now w
              \<and> fingerprint_sha256 out = sha256_fingerprint lib (first_cert certs)
              \<and> srtp_profile out = profile \<and> peer_cert_len out = length (first_cert certs)))"
proof -
  let ?b = "local_bind_for (sock_ip t)"
  obtain bound w1 where 1: "udp_bind ?b w = (bound, w1)" by fastforce
  obtain t0 w2 where 2: "instant_now w1 = (t0, w2)" by fastforce
  obtain shook w3 where 3: "within (d - w_now w2) (w_dtls w2 t) (logged (Shook t) w2) = (shook, w3)" by fastforce
  obtain ms w4 where 4: "elapsed_ms t0 w3 = (ms, w4)" by fastforce
  have dt: "w_dtls w2 = w_dtls w" using 1 2 by (auto simp: udp_bind_def instant_now_def split: list.splits option.splits)
  note steps = udp_bind_step [OF 1] instant_now_step [OF 2] within_step [OF 3] elapsed_ms_step [OF 4]
  note run = assms [unfolded dial_def, simplified 1 2 3 4 Let_def prod.case]
  consider (bind) e where "bound = Inl e" | (prep) s e where "bound = Inr s" "res = Some (Inl e)" "w' = w1"
    | (shake) s where "bound = Inr s" "dl_connect lib t = None" "client_config lib = None"
    using run by (cases bound) (auto split: option.splits)
  then show ?thesis
  proof cases
    case bind
    then have "w' = w1" "res = Some (Inl e)" using run by simp_all
    moreover have "w_log w1 = w_log w @ take 0 [Bound (w_socks w) ?b, Shook t]" "later w w1"
      using steps(1) bind by (simp_all add: later_def)
    ultimately show ?thesis by blast
  next
    case prep
    have "w_log w1 = w_log w @ take 1 [Bound (w_socks w) ?b, Shook t]" "later w w1"
      using steps(1) prep(1) by (simp_all add: later_def)
    with prep show ?thesis by blast
  next
    case shake
    have l3: "w_log w3 = w_log w @ take 2 [Bound (w_socks w) ?b, Shook t]" "later w w3"
      "w_log w4 = w_log w3" "later w w4" "w_now w \<le> w_now w2"
      using steps shake by (auto simp: later_def)
    show ?thesis
    proof (cases "\<exists>out. res = Some (Inr out)")
      case False
      then have "w' = w3" using run shake by (auto split: option.splits sum.splits)
      with l3 False show ?thesis by blast
    next
      case True
      then obtain out certs profile where o: "shook = Some (Inr (certs, profile))" and w': "w' = w4"
        and res: "res = Some (Inr out)" "fingerprint_sha256 out = sha256_fingerprint lib (first_cert certs)"
          "srtp_profile out = profile" "peer_cert_len out = length (first_cert certs)"
        using run shake by (auto simp: first_cert_def split: option.splits sum.splits)
      have "w_dtls w t = (fst (w_dtls w t), Inr (certs, profile))" "fst (w_dtls w t) \<le> d - w_now w"
        using steps(3) o l3(5) by (auto simp: dt prod_eq_iff)
      moreover have lg: "w_log w4 = w_log w @ take 2 [Bound (w_socks w) ?b, Shook t]" using l3 by simp
      moreover have "take 2 [Bound (w_socks w) ?b, Shook t] = [Bound (w_socks w) ?b, Shook t]" by simp
      ultimately show ?thesis using l3(4) res unfolding w' by (intro conjI) (assumption | blast | force)+
    qed
  qed
qed

lemma finish_Ok:
  "finish_pass i n st out lab ctx w = Ok (r, ctx', w') \<Longrightarrow>
     r_id r = i \<and> r_name r = n \<and> r_status r = Pass \<and> ctx' = ctx \<and> later w w' \<and> w_log w' = w_log w"
  "finish_fail i n st msg ctx w = Ok (r, ctx', w') \<Longrightarrow>
     r_id r = i \<and> r_name r = n \<and> r_status r = Fail \<and> ctx' = ctx \<and> later w w' \<and> w_log w' = w_log w"
  by (auto simp: finish_pass_def finish_fail_def later_def dest!: elapsed_ms_step split: prod.splits)

lemma finish_total: "\<exists>r ctx' w'. finish_pass i n st out lab ctx w = Ok (r, ctx', w')"
  "\<exists>r ctx' w'. finish_fail i n st msg ctx w = Ok (r, ctx', w')"
  by (simp_all add: finish_pass_def finish_fail_def split: prod.splits)

lemma remote_run_total: "\<exists>r ctx' w'. remote_run lib ctx w = Ok (r, ctx', w')"
  using finish_total by (auto simp: remote_run_def Let_def split: option.splits list.splits prod.splits sum.splits)

lemma loopback_run_total: "\<exists>r ctx' w'. loopback_run lib ctx w = Ok (r, ctx', w')"
  using finish_total by (auto simp: loopback_run_def Let_def split: option.splits list.splits prod.splits sum.splits)

lemma remote_run_cases:
  assumes "remote_run lib ctx w = Ok (r, ctx', w')"
  shows "r_id r = remote_id \<and> r_name r = remote_name \<and> ctx' = ctx \<and> later w w'
    \<and> (if r_status r = Pass then \<exists>ip ips port delay certs profile. resolved_ips ctx = ip # ips \<and> ctx_port ctx = Some port
           \<and> w_log w' = w_log w @ [Bound (w_socks w) (local_bind_for ip), Shook (sock_new ip port)]
           \<and> w_dtls w (sock_new ip port) = (delay, Inr (certs, profile)) \<and> delay \<le> budget_from ctx
           \<and> (\<exists>ms. r_detail r = Some (JObj [(''handshake_ms'', JNum ms),
                (''fingerprint_sha256'', JStr (sha256_fingerprint lib (first_cert certs))),
                (''srtp_profile'', JStr profile), (''peer_cert_der_bytes'', JNum (length (first_cert certs))),
                (''transport'', JStr (''via '' @ show_sock (sock_new ip port)))]))
       else w_log w' = w_log w \<or> (\<exists>ip ips port k. resolved_ips ctx = ip # ips \<and> ctx_port ctx = Some port
           \<and> w_log w' = w_log w @ take k [Bound (w_socks w) (local_bind_for ip), Shook (sock_new ip port)]))"
proof (cases "ctx_port ctx = None \<or> resolved_ips ctx = []")
  case True
  then show ?thesis using assms by (auto simp: remote_run_def split: option.splits list.splits)
next
  case False
  then obtain port ip ips where p: "ctx_port ctx = Some port" "resolved_ips ctx = ip # ips"
    by (auto simp: neq_Nil_conv)
  obtain t0 w1 where 1: "instant_now w = (t0, w1)" by fastforce
  let ?t = "sock_new ip port"
  obtain res w2 where 2: "dial lib (w_now w1 + budget_from ctx) ?t w1 = (res, w2)" by fastforce
  have dt: "w_dtls w1 = w_dtls w" using 1 by (auto simp: instant_now_def split: list.splits)
  note st = instant_now_step [OF 1]
  then have l1: "later w w1" by (simp add: later_def)
  note d = dial_cases [OF 2, unfolded sock_new_sel]
  note run = assms [unfolded remote_run_def run_remote_handshake_def, simplified p 1 2 option.case list.case Let_def prod.case]
  show ?thesis
  proof (cases "\<exists>out. res = Some (Inr out)")
    case False
    then obtain st msg where "finish_fail remote_id remote_name st msg ctx w2 = Ok (r, ctx', w')"
      using run by (cases res) (auto split: sum.splits)
    note f = finish_Ok(2) [OF this]
    obtain k where "w_log w2 = w_log w1 @ take k [Bound (w_socks w1) (local_bind_for ip), Shook ?t]" using d by blast
    with f st have "w_log w' = w_log w @ take k [Bound (w_socks w) (local_bind_for ip), Shook ?t]" by simp
    moreover have "later w w'" using l1 d f later_trans by blast
    ultimately show ?thesis using f p by (simp only: ) auto
  next
    case True
    then obtain out where res: "res = Some (Inr out)" by blast
    with run have fp: "finish_pass remote_id remote_name t0 out (''via '' @ show_sock ?t) ctx w2 = Ok (r, ctx', w')" by simp
    note f = finish_Ok(1) [OF fp]
    from d res obtain delay certs profile where
      lg: "w_log w2 = w_log w1 @ [Bound (w_socks w1) (local_bind_for ip), Shook ?t]"
      and sh: "w_dtls w ?t = (delay, Inr (certs, profile))" "delay \<le> budget_from ctx"
      and out: "fingerprint_sha256 out = sha256_fingerprint lib (first_cert certs)" "srtp_profile out = profile"
        "peer_cert_len out = length (first_cert certs)" unfolding dt by auto
    have "r_detail r = Some (JObj [(''handshake_ms'', JNum (unat (handshake_ms out))),
                (''fingerprint_sha256'', JStr (sha256_fingerprint lib (first_cert certs))),
                (''srtp_profile'', JStr profile), (''peer_cert_der_bytes'', JNum (length (first_cert certs))),
                (''transport'', JStr (''via '' @ show_sock ?t))])"
      using fp out by (auto simp: finish_pass_def with_detail_def split: prod.splits)
    moreover have "later w w'" using l1 d f later_trans by blast
    moreover have "w_log w' = w_log w @ [Bound (w_socks w) (local_bind_for ip), Shook ?t]" using lg f st by simp
    ultimately show ?thesis using f p sh by (simp only: if_P) blast
  qed
qed

lemma dial_later: "dial lib deadline target w = (out, w') \<Longrightarrow> later w w'"
  using dial_cases by blast

lemma loopback_run_cases:
  assumes "loopback_run lib ctx w = Ok (r, ctx', w')"
  shows "r_id r = loopback_id \<and> r_name r = loopback_name \<and> ctx' = ctx \<and> later w w' \<and> r_status r \<in> {Pass, Fail}
    \<and> (r_status r = Pass \<longrightarrow> dl_cert lib ''webrtc-doctor-server'' = None \<and> snd (dl_server lib) = None
         \<and> (\<exists>addr delay certs profile. dl_listen lib (SockV4 0x7F000001 0) = Inr addr
              \<and> w_dtls w addr = (delay, Inr (certs, profile)) \<and> delay \<le> budget_from ctx
              \<and> w_log w' = w_log w @ [Bound (w_socks w) (local_bind_for (sock_ip addr)), Shook addr]))"
proof -
  obtain t0 w1 where 1: "instant_now w = (t0, w1)" by fastforce
  have dt: "w_dtls w1 = w_dtls w" using 1 by (auto simp: instant_now_def split: list.splits)
  note st = instant_now_step [OF 1]
  then have l1: "later w w1" by (simp add: later_def)
  obtain res w2 where 2: "run_loopback_handshake lib (w_now w1 + budget_from ctx) w1 = (res, w2)" by fastforce
  note run = assms [unfolded loopback_run_def, simplified 1 2 Let_def prod.case]
  have lb: "later w1 w2 \<and> (\<forall>out. res = Some (Inr out) \<longrightarrow> dl_cert lib ''webrtc-doctor-server'' = None \<and> snd (dl_server lib) = None
     \<and> (\<exists>addr w3. dl_listen lib (SockV4 0x7F000001 0) = Inr addr
          \<and> dial lib (w_now w1 + budget_from ctx) addr w1 = (Some (Inr out), w3)
          \<and> w_now w3 \<le> w_now w2 \<and> w_log w2 = w_log w3))"
  proof (cases "dl_cert lib ''webrtc-doctor-server'' = None \<and> (\<exists>addr. dl_listen lib (SockV4 0x7F000001 0) = Inr addr)")
    case True
    then obtain addr where a: "dl_cert lib ''webrtc-doctor-server'' = None" "dl_listen lib (SockV4 0x7F000001 0) = Inr addr"
      by blast
    obtain o3 w3 where 3: "dial lib (w_now w1 + budget_from ctx) addr w1 = (o3, w3)" by fastforce
    note later3 = dial_later [OF 3]
    show ?thesis
    proof (cases "\<exists>out. o3 = Some (Inr out)")
      case False
      then have "res = o3 \<and> w2 = w3" using 2 3 a
        by (cases o3) (auto simp: run_loopback_handshake_def split: sum.splits)
      then show ?thesis using later3 False by auto
    next
      case True
      then obtain out where o: "o3 = Some (Inr out)" by blast
      obtain o4 w4 where 4: "within (w_now w1 + budget_from ctx - w_now w3) (dl_server lib) w3 = (o4, w4)" by fastforce
      note s4 = within_step [OF 4]
      have "w2 = w4" "res = Some (Inr out') \<Longrightarrow> out' = out \<and> o4 = Some None" for out'
        using 2 3 a o 4 by (auto simp: run_loopback_handshake_def split: option.splits)
      moreover have "o4 = Some None \<Longrightarrow> snd (dl_server lib) = None"
        using 4 by (auto simp: within_def split: prod.splits if_splits)
      moreover have "later w1 w4" using later3 s4 by (auto simp: later_def)
      ultimately show ?thesis using a 3 o s4 by auto
    qed
  qed (use 2 in \<open>auto simp: run_loopback_handshake_def split: option.splits sum.splits\<close>)
  show ?thesis
  proof (cases "\<exists>out. res = Some (Inr out)")
    case False
    then obtain st msg where "finish_fail loopback_id loopback_name st msg ctx w2 = Ok (r, ctx', w')"
      using run by (cases res) (auto split: sum.splits)
    from finish_Ok(2) [OF this] lb l1 show ?thesis by (auto intro: later_trans)
  next
    case True
    then obtain out where res: "res = Some (Inr out)" by blast
    with run have "finish_pass loopback_id loopback_name t0 out ''loopback'' ctx w2 = Ok (r, ctx', w')" by simp
    note f = finish_Ok(1) [OF this]
    from lb res obtain addr w3 where a: "dl_cert lib ''webrtc-doctor-server'' = None" "snd (dl_server lib) = None"
      "dl_listen lib (SockV4 0x7F000001 0) = Inr addr"
      and d: "dial lib (w_now w1 + budget_from ctx) addr w1 = (Some (Inr out), w3)" "w_log w2 = w_log w3" by blast
    from dial_cases [OF d(1)] obtain delay certs profile where
      "w_log w2 = w_log w1 @ [Bound (w_socks w1) (local_bind_for (sock_ip addr)), Shook addr]"
      "w_dtls w addr = (delay, Inr (certs, profile))" "delay \<le> budget_from ctx" unfolding dt d(2) by auto
    moreover have "later w w'" using l1 lb f later_trans by blast
    ultimately show ?thesis using a f st by auto
  qed
qed

interpretation dtls_remote: check_contract "remote_check lib" for lib
proof
  show "\<exists>r ctx' w'. c_run (remote_check lib) ctx w = Ok (r, ctx', w')" for ctx w
    using remote_run_total by (simp add: remote_check_def)
  fix ctx w r ctx' w'
  assume "c_run (remote_check lib) ctx w = Ok (r, ctx', w')"
  then have run: "remote_run lib ctx w = Ok (r, ctx', w')" by (simp add: remote_check_def)
  show "r_id r = c_id (remote_check lib) \<and> r_name r = c_name (remote_check lib)" "later w w'"
    "ctx_config ctx' = ctx_config ctx"
    using remote_run_cases [OF run] by (simp_all add: remote_check_def)
qed

interpretation dtls_loopback: check_contract "loopback_check lib" for lib
proof
  show "\<exists>r ctx' w'. c_run (loopback_check lib) ctx w = Ok (r, ctx', w')" for ctx w
    using loopback_run_total by (simp add: loopback_check_def)
  fix ctx w r ctx' w'
  assume "c_run (loopback_check lib) ctx w = Ok (r, ctx', w')"
  then have run: "loopback_run lib ctx w = Ok (r, ctx', w')" by (simp add: loopback_check_def)
  show "r_id r = c_id (loopback_check lib) \<and> r_name r = c_name (loopback_check lib)" "later w w'"
    "ctx_config ctx' = ctx_config ctx"
    using loopback_run_cases [OF run] by (simp_all add: loopback_check_def)
qed

text \<open>The test peer reports each accepted client once, in order, and survives every failed accept.\<close>

lemma serves_peers: "serves accepts peers \<longleftrightarrow> peers = map projr (filter (\<lambda>a. \<exists>p. a = Inr p) accepts)"
proof
  show "serves accepts peers \<Longrightarrow> peers = map projr (filter (\<lambda>a. \<exists>p. a = Inr p) accepts)"
    by (induction rule: serves.induct) (auto elim: serve_step.cases)
  have "serves accepts (map projr (filter (\<lambda>a. \<exists>p. a = Inr p) accepts))"
  proof (induction accepts rule: rev_induct)
    case (snoc a accepts)
    then show ?case
      by (cases a) (auto intro!: serves.next_accept [OF snoc] serve_step.intros)
  qed (simp add: serves.start)
  then show "peers = map projr (filter (\<lambda>a. \<exists>p. a = Inr p) accepts) \<Longrightarrow> serves accepts peers" by simp
qed

section \<open>Properties\<close>

text \<open>C23: The fingerprint of a certificate has the shape SDP prescribes: 32 bytes as two upper-case hex
  digits each, with a colon between two bytes and nowhere else; and it determines the
  digest.  The first 23 characters, which the summary shows, are the first eight bytes.\<close>

theorem fingerprint_canonical:
  assumes "\<forall>m. length (dl_sha256 lib m) = 32" and "der \<noteq> []"
  shows "length (sha256_fingerprint lib der) = 95
    \<and> (\<forall>i < 95. if i mod 3 = 2 then sha256_fingerprint lib der ! i = CHR '':''
         else is_upper_hex (sha256_fingerprint lib der ! i))
    \<and> (\<forall>der2. der2 \<noteq> [] \<longrightarrow> sha256_fingerprint lib der2 = sha256_fingerprint lib der
         \<longrightarrow> dl_sha256 lib der2 = dl_sha256 lib der)
    \<and> take 23 (sha256_fingerprint lib der) = colons (take 8 (dl_sha256 lib der))"
proof -
  have eq: "sha256_fingerprint lib d = colons (dl_sha256 lib d)" if "d \<noteq> []" for d
    using that by (simp add: sha256_fingerprint_def fingerprint_loop_colons)
  have len: "length (colons (dl_sha256 lib der)) = 95" using assms(1) by (simp add: length_colons)
  have "if i mod 3 = 2 then colons (dl_sha256 lib der) ! i = CHR '':''
         else is_upper_hex (colons (dl_sha256 lib der) ! i)" if "i < 95" for i
    using colons_nth [of i "dl_sha256 lib der"] that len by simp
  moreover have "take 23 (colons (dl_sha256 lib der)) = colons (take 8 (dl_sha256 lib der))"
    using colons_take [of 8 "dl_sha256 lib der"] assms(1) by simp
  moreover have "dl_sha256 lib d = dl_sha256 lib der" if "d \<noteq> []" "colons (dl_sha256 lib d) = colons (dl_sha256 lib der)" for d
    using colons_inject that(2) by blast
  ultimately show ?thesis using len by (simp add: eq assms(2))
qed

text \<open>C20: When the remote DTLS check passes it bound one socket of the target's address family and shook hands
  with the first resolved address, within the budget; the report carries the SHA-256 fingerprint of
  the certificate that peer presented first.  In no outcome is the context changed.\<close>

theorem dtls_remote_report:
  assumes "remote_run lib ctx w = Ok (r, ctx', w')"
  shows "ctx' = ctx \<and> (r_status r = Pass \<longrightarrow> (\<exists>ip ips port delay certs profile ms. resolved_ips ctx = ip # ips
      \<and> ctx_port ctx = Some port
      \<and> w_log w' = w_log w @ [Bound (w_socks w) (local_bind_for ip), Shook (sock_new ip port)]
      \<and> w_dtls w (sock_new ip port) = (delay, Inr (certs, profile)) \<and> delay \<le> budget_from ctx
      \<and> r_detail r = Some (JObj [(''handshake_ms'', JNum ms),
           (''fingerprint_sha256'', JStr (sha256_fingerprint lib (first_cert certs))),
           (''srtp_profile'', JStr profile), (''peer_cert_der_bytes'', JNum (length (first_cert certs))),
           (''transport'', JStr (''via '' @ show_sock (sock_new ip port)))])))"
  using remote_run_cases [OF assms] by (simp split: if_splits)

definition example_dtls :: dtls_lib where
  "example_dtls = \<lparr>dl_cert = (\<lambda>_. None), dl_connect = (\<lambda>_. None), dl_listen = (\<lambda>_. Inr (SockV4 0x7F000001 5684)),
     dl_server = (0, None), dl_sha256 = (\<lambda>m. replicate 32 0xAB)\<rparr>"

theorem fingerprint_canonical_witness:
  "length (sha256_fingerprint example_dtls [1, 2]) = 95
     \<and> take 23 (sha256_fingerprint example_dtls [1, 2]) = ''AB:AB:AB:AB:AB:AB:AB:AB''"
proof -
  have h: "hex2 0xAB = ''AB''" by (simp add: hex2_def upper_digit_def char_of_eq_iff)
  have sz: "\<forall>m. length (dl_sha256 example_dtls m) = 32" by (simp add: example_dtls_def)
  have "take 8 (dl_sha256 example_dtls [1, 2]) = [0xAB, 0xAB, 0xAB, 0xAB, 0xAB, 0xAB, 0xAB, 0xAB]"
    by (simp add: example_dtls_def) (simp add: numeral_eq_Suc)
  then have "colons (take 8 (dl_sha256 example_dtls [1, 2])) = ''AB:AB:AB:AB:AB:AB:AB:AB''"
    by (simp only: colons.simps h append.simps)
  moreover have "[1, 2] \<noteq> ([] :: bytes)" by simp
  ultimately show ?thesis using fingerprint_canonical [OF sz, of "[1, 2]"] by metis
qed

theorem dtls_remote_report_witness:
  "\<exists>r w'. remote_run example_dtls example_ctx
       (quiet_world\<lparr>w_dtls := (\<lambda>_. (0, Inr ([[1, 2]], ''Unsupported'')))\<rparr>) = Ok (r, example_ctx, w')
     \<and> r_status r = Pass \<and> w_log w' = [Bound 0 (SockV4 0 0), Shook (SockV4 1 3478)]
     \<and> (\<exists>ms. r_detail r = Some (JObj [(''handshake_ms'', JNum ms),
           (''fingerprint_sha256'', JStr (sha256_fingerprint example_dtls [1, 2])),
           (''srtp_profile'', JStr ''Unsupported''), (''peer_cert_der_bytes'', JNum 2),
           (''transport'', JStr (''via '' @ show_sock (SockV4 1 3478)))]))"
proof -
  let ?w = "quiet_world\<lparr>w_dtls := (\<lambda>_. (0, Inr ([[1, 2]], ''Unsupported'')))\<rparr>"
  obtain r ctx' w' where run: "remote_run example_dtls example_ctx ?w = Ok (r, ctx', w')" using remote_run_total by blast
  then have p: "r_status r = Pass"
    by (simp add: remote_run_def run_remote_handshake_def dial_def client_config_def within_def logged_def finish_pass_def
        world_eval example_dtls_def example_ctx_def Let_def) (auto simp: with_detail_def pass_result_def)
  have c: "resolved_ips example_ctx = [V4 1]" "ctx_port example_ctx = Some 3478"
    "w_log quiet_world = []" "w_socks quiet_world = 0"
    by (simp_all add: example_ctx_def world_eval)
  show ?thesis using dtls_remote_report [OF run] run p by (auto simp: c first_cert_def local_bind_for_def)
qed

end
