(* ===== verification/Console.thy ===== *)
theory Console
  imports Stun_Codec
begin

text \<open>
  The standard streams of the process, as far as \<open>crates/webrtc-doctor/src/main.rs\<close> and \<open>render.rs\<close> use
  them: lines read from stdin, prompts and notices on stderr, the report on stdout.  What the streams will
  do is part of the record \<open>console\<close> and arbitrary: the bytes that will be read, the error a read meets
  after them (the end of the input when there is none), whether stdin is a terminal, and how many writes
  to stdout and to stderr succeed (\<open>None\<close>: all).  The macros \<open>println!\<close>, \<open>eprint!\<close> and \<open>eprintln!\<close>
  panic when the write fails, so the first write that is refused is \<open>Panic\<close>; a write is one use of a macro.
\<close>

record console =
  con_in :: string
  con_in_error :: "string option"
  con_tty :: bool
  con_err :: "nat option"
  con_out :: "nat option"

section \<open>Writing\<close>

fun take_write :: "nat option \<Rightarrow> ('e, nat option) res" where
  "take_write None = Ok None"
| "take_write (Some 0) = Panic"
| "take_write (Some (Suc n)) = Ok (Some n)"

text \<open>\<open>eprint!\<close> or \<open>eprintln!\<close>.\<close>

definition eprint :: "console \<Rightarrow> (string, console) res" where
  "eprint con = bind_res (take_write (con_err con)) (\<lambda>room. Ok (con\<lparr>con_err := room\<rparr>))"

text \<open>One \<open>println!\<close> for each line.\<close>

fun print_lines :: "string list \<Rightarrow> nat option \<Rightarrow> ('e, string list) res" where
  "print_lines [] stdout = Ok []"
| "print_lines (line # lines) stdout =
     bind_res (take_write stdout) (\<lambda>stdout. bind_res (print_lines lines stdout) (\<lambda>out. Ok (line # out)))"

section \<open>Reading a line\<close>

text \<open>Whether bytes are UTF-8: every step of the decoder consumes a well-formed sequence.\<close>

function valid_utf8 :: "bytes \<Rightarrow> bool" where
  "valid_utf8 bs =
     (if bs = [] then True
      else (case utf8_len bs of Inr n \<Rightarrow> valid_utf8 (drop n bs) | Inl _ \<Rightarrow> False))"
  by pat_completeness auto
termination
  by (relation "measure length") (auto dest: utf8_len_pos)

declare valid_utf8.simps [simp del]

text \<open>\<open>BufRead::read_until\<close>: up to and including the newline, or to the end of what can be read.\<close>

fun read_until_newline :: "string \<Rightarrow> string \<times> string" where
  "read_until_newline [] = ([], [])"
| "read_until_newline (c # cs) =
     (if c = CHR 0x0A then ([c], cs) else (let (l, rest) = read_until_newline cs in (c # l, rest)))"

text \<open>\<open>BufRead::read_line\<close>: an error of the read comes first, then what is read has to be UTF-8.\<close>

definition read_line :: "console \<Rightarrow> (string, string \<times> console) res" where
  "read_line con =
     (let (line, rest) = read_until_newline (con_in con) in
      case (if CHR 0x0A \<in> set line then None else con_in_error con) of
        Some e \<Rightarrow> Err e
      | None \<Rightarrow>
          if valid_utf8 (as_bytes line) then Ok (line, con\<lparr>con_in := rest\<rparr>)
          else Err ''stream did not contain valid UTF-8'')"

section \<open>Lemmas\<close>

text \<open>Whether a stream takes so many more writes.\<close>

fun room :: "nat option \<Rightarrow> nat \<Rightarrow> bool" where
  "room None k = True"
| "room (Some n) k = (k \<le> n)"

lemma room_0 [simp]: "room s 0"
  by (cases s) auto

lemma room_mono: "room s k \<Longrightarrow> j \<le> k \<Longrightarrow> room s j"
  by (cases s) auto

lemma print_lines_room: "print_lines lines s = (if room s (length lines) then Ok lines else Panic)"
  by (induction lines s rule: print_lines.induct) (auto split: option.splits, (case_tac stdout rule: take_write.cases; force)+)

lemma eprint_room:
  assumes "room (con_err con) (Suc k)"
  obtains con' where "eprint con = Ok con'" and "room (con_err con') k"
  using assms by (cases "con_err con" rule: take_write.cases) (simp_all add: eprint_def)

lemma eprint_not_err: "eprint con \<noteq> Err e"
  by (cases "con_err con" rule: take_write.cases) (simp_all add: eprint_def)

lemma read_line_no_panic: "read_line con \<noteq> Panic"
  by (auto simp: read_line_def split: prod.split option.split)

lemma read_until_newline_append:
  "CHR 0x0A \<notin> set l \<Longrightarrow> read_until_newline (l @ CHR 0x0A # rest) = (l @ [CHR 0x0A], rest)"
  by (induction l) auto

lemma read_until_newline_end: "CHR 0x0A \<notin> set l \<Longrightarrow> read_until_newline l = (l, [])"
  by (induction l) auto

lemma valid_utf8_Nil [simp]: "valid_utf8 []"
  by (simp add: valid_utf8.simps)

text \<open>A byte below 128 ends a sequence: what stands before it and what follows are valid on their own.\<close>

lemma ascii_not_cont: "x < 0x80 \<Longrightarrow> x AND 192 \<noteq> (128 :: u8)"
proof
  assume x: "x < 0x80" and a: "x AND 192 = 128"
  have "unat x < 128" using x by (simp add: word_less_nat_alt)
  then have "\<not> bit (unat x) 7" by (simp add: bit_iff_odd)
  then have "\<not> bit x 7" by (simp add: bit_unsigned_iff)
  moreover have "bit (128 :: u8) 7" by (simp add: bit_numeral_rec)
  ultimately show False using a by (metis bit_and_iff)
qed

lemma utf8_len_ascii_after:
  assumes "x < 0x80" and "bs \<noteq> []"
  shows "utf8_len (bs @ x # xs) = utf8_len bs"
proof -
  have c: "is_cont (bs @ x # xs) i = is_cont bs i" if "i \<le> length bs" for i
    using that ascii_not_cont [OF assms(1)] by (auto simp: is_cont_def nth_append)
  have b: "byte_in (bs @ x # xs) i lo hi = byte_in bs i lo hi" if "i \<le> length bs" "0x80 \<le> lo" for i lo hi
    using that assms(1) by (auto simp: byte_in_def nth_append)
  have l: "1 \<le> length bs" using assms(2) by (cases bs) auto
  have h: "(bs @ x # xs) ! 0 = bs ! 0" using assms(2) by (simp add: nth_append)
  have bytes: "byte_in (bs @ x # xs) 1 0xA0 0xBF = byte_in bs 1 0xA0 0xBF" "byte_in (bs @ x # xs) 1 0x80 0x9F = byte_in bs 1 0x80 0x9F"
    "byte_in (bs @ x # xs) 1 0x80 0xBF = byte_in bs 1 0x80 0xBF" "byte_in (bs @ x # xs) 1 0x90 0xBF = byte_in bs 1 0x90 0xBF"
    "byte_in (bs @ x # xs) 1 0x80 0x8F = byte_in bs 1 0x80 0x8F" by (rule b [OF l], simp)+
  have 2: "is_cont (bs @ x # xs) 2 = is_cont bs 2"
    if "if p then byte_in bs 1 l1 h1 else if q then byte_in bs 1 l2 h2 else byte_in bs 1 l3 h3" for p q l1 l2 l3 h1 h2 h3
    using that by (intro c) (simp add: byte_in_def split: if_splits)
  have 3: "is_cont (bs @ x # xs) 3 = is_cont bs 3" if "is_cont bs 2"
    using that by (intro c) (simp add: is_cont_def)
  show ?thesis unfolding utf8_len_def h Let_def c [OF l] bytes
    by (intro if_cong refl) (erule 2 3)+
qed

lemma utf8_len_le: "utf8_len bs = Inr n \<Longrightarrow> bs \<noteq> [] \<Longrightarrow> n \<le> length bs"
  by (cases bs) (auto simp: utf8_len_def Let_def is_cont_def byte_in_def Suc_le_eq split: if_splits)

lemma valid_utf8_ascii_after: "x < 0x80 \<Longrightarrow> valid_utf8 (bs @ x # xs) \<longleftrightarrow> valid_utf8 bs \<and> valid_utf8 xs"
proof (induction bs rule: length_induct)
  case (1 bs)
  show ?case
  proof (cases "bs = []")
    case True
    have "utf8_len (x # xs) = Inr 1" using 1(2) by (simp add: utf8_len_def)
    then show ?thesis using True by (simp add: valid_utf8.simps [of "x # xs"])
  next
    case False
    note len = utf8_len_ascii_after [OF 1(2) False, of xs]
    show ?thesis
    proof (cases "utf8_len bs")
      case (Inr n)
      have "length (drop n bs) < length bs" using False utf8_len_pos(1) [OF Inr] by simp
      then show ?thesis using 1 utf8_len_le [OF Inr False] len False Inr
        by (simp add: valid_utf8.simps [of bs] valid_utf8.simps [of "bs @ x # xs"])
    qed (simp add: valid_utf8.simps [of bs] valid_utf8.simps [of "bs @ x # xs"] len False)
  qed
qed

lemma valid_utf8_ascii: "\<forall>b \<in> set bs. b < 0x80 \<Longrightarrow> valid_utf8 bs"
  using valid_utf8_ascii_after [of _ "[]"] by (induction bs) auto

end
