(* ===== verification/Target.thy ===== *)
theory Target
  imports Net_Text Console
begin

text \<open>
  What the command line parses: the target URIs of \<open>crates/webrtc-doctor/src/target.rs\<close>, the
  \<open>host:port\<close> of the \<open>dtls\<close> subcommand and the secrets read from stdin (both in
  \<open>crates/webrtc-doctor/src/main.rs\<close>; the streams themselves are in \<open>Console\<close>).  Strings are UTF-8 bytes; all the separators are
  ASCII, so splitting bytes is splitting characters.
\<close>

section \<open>String operations of the standard library\<close>

fun split_once :: "char \<Rightarrow> string \<Rightarrow> (string \<times> string) option" where
  "split_once c [] = None"
| "split_once c (x # xs) =
     (if x = c then Some ([], xs) else map_option (\<lambda>(a, b). (x # a, b)) (split_once c xs))"

fun rsplit_once :: "char \<Rightarrow> string \<Rightarrow> (string \<times> string) option" where
  "rsplit_once c [] = None"
| "rsplit_once c (x # xs) =
     (case rsplit_once c xs of
        Some (a, b) \<Rightarrow> Some (x # a, b)
      | None \<Rightarrow> if x = c then Some ([], xs) else None)"

definition ascii_lower :: "char \<Rightarrow> char" where
  "ascii_lower c = (if 65 \<le> (of_char c :: nat) \<and> (of_char c :: nat) \<le> 90 then char_of (of_char c + 32 :: nat) else c)"

definition to_ascii_lowercase :: "string \<Rightarrow> string" where
  "to_ascii_lowercase s = map ascii_lower s"

definition trim_matches :: "(char \<Rightarrow> bool) \<Rightarrow> string \<Rightarrow> string" where
  "trim_matches p s = rev (dropWhile p (rev (dropWhile p s)))"

datatype int_error = IntEmpty | InvalidDigit | PosOverflow

fun show_int_error :: "int_error \<Rightarrow> string" where
  "show_int_error IntEmpty = ''cannot parse integer from empty string''"
| "show_int_error InvalidDigit = ''invalid digit found in string''"
| "show_int_error PosOverflow = ''number too large to fit in target type''"

text \<open>\<open>str::parse::<u16>\<close>: digit by digit, with a leading plus sign allowed.\<close>

fun u16_digits :: "string \<Rightarrow> nat \<Rightarrow> (int_error, u16) res" where
  "u16_digits [] acc = Ok (word_of_nat acc)"
| "u16_digits (c # cs) acc =
     (case to_digit 10 c of
        None \<Rightarrow> Err InvalidDigit
      | Some d \<Rightarrow> if 65535 < acc * 10 \<or> 65535 < acc * 10 + d then Err PosOverflow else u16_digits cs (acc * 10 + d))"

definition parse_u16 :: "string \<Rightarrow> (int_error, u16) res" where
  "parse_u16 s =
     (if s = [] then Err IntEmpty
      else if s = ''+'' \<or> s = ''-'' then Err InvalidDigit
      else if hd s = CHR ''+'' then u16_digits (tl s) 0
      else u16_digits s 0)"

section \<open>Target URIs\<close>

record target =
  t_host :: string
  t_port :: u16

datatype target_error =
  MissingScheme string
| WrongScheme "string list" string string
| InvalidPort string
| EmptyHost string

fun show_expected :: "string list \<Rightarrow> string" where
  "show_expected [one] = [CHR ''a'', CHR '' '', CHR 0x27] @ one @ [CHR '':'', CHR 0x27] @ '' URI''"
| "show_expected many =
     (let quoted = map (\<lambda>s. [CHR 0x27] @ s @ [CHR '':'', CHR 0x27]) many
      in ''one of: '' @ (case quoted of [] \<Rightarrow> '''' | q # qs \<Rightarrow> q @ concat (map (\<lambda>x. '', '' @ x) qs)))"

fun show_target_error :: "target_error \<Rightarrow> string" where
  "show_target_error (MissingScheme url) = ''missing scheme in '' @ backquote url @ '' (expected e.g. stun:host:port)''"
| "show_target_error (WrongScheme allowed scheme url) =
     ''this subcommand expects '' @ show_expected allowed @ '', got '' @ [CHR 0x27] @ scheme @ [CHR '':'', CHR 0x27]
       @ '' (in '' @ backquote url @ '')''"
| "show_target_error (InvalidPort url) = ''invalid port in '' @ backquote url"
| "show_target_error (EmptyHost url) = ''empty host in '' @ backquote url"

definition is_bracket :: "char \<Rightarrow> bool" where
  "is_bracket c \<longleftrightarrow> c = CHR ''['' \<or> c = CHR '']''"

definition parse_stun_like :: "string \<Rightarrow> string list \<Rightarrow> u16 \<Rightarrow> (target_error, target) res" where
  "parse_stun_like url allowed_schemes default_port =
     bind_res (ok_or (split_once (CHR '':'') url) (MissingScheme url)) (\<lambda>(scheme, rest).
     let scheme_lc = to_ascii_lowercase scheme in
     if scheme_lc \<notin> set allowed_schemes then Err (WrongScheme allowed_schemes scheme url)
     else
       bind_res (case rsplit_once (CHR '':'') rest of
           Some (h, p) \<Rightarrow>
             bind_res (map_err (\<lambda>_. InvalidPort url) (parse_u16 p)) (\<lambda>port. Ok (trim_matches is_bracket h, port))
         | None \<Rightarrow> Ok (rest, default_port)) (\<lambda>(host, port).
       if host = [] then Err (EmptyHost url)
       else Ok \<lparr>t_host = host, t_port = port\<rparr>))"

section \<open>\<open>host:port\<close>\<close>

definition parse_host_port :: "string \<Rightarrow> (string, string \<times> u16) res" where
  "parse_host_port s =
     bind_res
       (if s \<noteq> [] \<and> hd s = CHR ''['' then
          bind_res (ok_or (split_once (CHR '']'') (tl s)) (''missing closing '' @ backquote '']'' @ '' for IPv6 literal''))
            (\<lambda>(host, after).
          if after \<noteq> [] \<and> hd after = CHR '':'' then Ok (host, tl after)
          else Err (''expected '' @ backquote '':port'' @ '' after '' @ backquote '']''))
        else
          bind_res (ok_or (rsplit_once (CHR '':'') s) (''expected '' @ backquote ''host:port'')) (\<lambda>(h, p).
          if CHR '':'' \<in> set h then Err (''IPv6 literal must be bracketed, e.g. '' @ backquote ''[::1]:5684'')
          else Ok (h, p)))
     (\<lambda>(host, port).
     if host = [] then Err ''empty host''
     else bind_res (map_err (\<lambda>e. ''bad port: '' @ show_int_error e) (parse_u16 port)) (\<lambda>port. Ok (host, port)))"

section \<open>Secrets from stdin\<close>

definition strip_newlines :: "string \<Rightarrow> string" where
  "strip_newlines line = rev (dropWhile (\<lambda>c. c = CHR 0x0A \<or> c = CHR 0x0D) (rev line))"

text \<open>The prompt is only for a terminal; a stderr that refuses it ends the program.\<close>

definition prompt :: "console \<Rightarrow> (string, console) res" where
  "prompt con = (if con_tty con then eprint con else Ok con)"

definition read_line_from_stdin :: "string \<Rightarrow> console \<Rightarrow> (string, string \<times> console) res" where
  "read_line_from_stdin label con =
     bind_res (prompt con) (\<lambda>con.
     bind_res (read_line con) (\<lambda>(line, con).
     let line = strip_newlines line in
     if line = [] then Err (''got empty input for '' @ label @ '' on stdin'')
     else Ok (line, con)))"

definition resolve_secret :: "string option \<Rightarrow> bool \<Rightarrow> string \<Rightarrow> console \<Rightarrow> (string, string option \<times> console) res" where
  "resolve_secret flag_value from_stdin label con =
     (if \<not> from_stdin then Ok (flag_value, con)
      else bind_res (read_line_from_stdin label con) (\<lambda>(line, con). Ok (Some line, con)))"

section \<open>Lemmas\<close>

lemma split_once_iff: "split_once c s = Some (a, b) \<longleftrightarrow> s = a @ c # b \<and> c \<notin> set a"
proof (induction s arbitrary: a)
  case (Cons x xs)
  show ?case by (cases a) (auto simp: Cons.IH)
qed simp

lemma split_once_None: "split_once c s = None \<longleftrightarrow> c \<notin> set s"
  by (induction s) auto

lemma rsplit_once_None: "rsplit_once c s = None \<longleftrightarrow> c \<notin> set s"
  by (induction s) (auto split: option.splits)

lemma rsplit_once_iff: "rsplit_once c s = Some (a, b) \<longleftrightarrow> s = a @ c # b \<and> c \<notin> set b"
proof (induction s arbitrary: a)
  case Nil
  then show ?case by simp
next
  case (Cons x xs)
  show ?case
  proof (cases "c \<in> set xs")
    case True
    then obtain a' b' where r: "rsplit_once c xs = Some (a', b')"
      using rsplit_once_None [of c xs] by (cases "rsplit_once c xs") auto
    then show ?thesis using Cons.IH True by (cases a) (auto)
  next
    case False
    then have "rsplit_once c xs = None" by (simp add: rsplit_once_None)
    then show ?thesis using False by (cases a) auto
  qed
qed

lemma u16_digits_no_panic: "u16_digits cs acc \<noteq> Panic"
  by (induction cs acc rule: u16_digits.induct) (auto split: option.splits)

lemma parse_u16_no_panic: "parse_u16 s \<noteq> Panic"
  by (simp add: parse_u16_def u16_digits_no_panic)

lemma parse_stun_like_no_panic: "parse_stun_like url allowed dp \<noteq> Panic"
  by (auto simp: parse_stun_like_def res_simps parse_u16_no_panic Let_def split: if_splits option.splits prod.splits)

lemma parse_host_port_no_panic: "parse_host_port s \<noteq> Panic"
  by (auto simp: parse_host_port_def res_simps parse_u16_no_panic split: if_splits prod.splits)

text \<open>The digits printed for a port are read back.\<close>

lemma u16_digits_val:
  assumes "\<forall>c \<in> set ds. is_dig 10 c" and "foldl (\<lambda>acc c. acc * 10 + the (to_digit 10 c)) acc ds \<le> 65535"
  shows "u16_digits ds acc = Ok (word_of_nat (foldl (\<lambda>acc c. acc * 10 + the (to_digit 10 c)) acc ds))"
  using assms
proof (induction ds arbitrary: acc)
  case (Cons c ds)
  obtain d where d: "to_digit 10 c = Some d" using Cons.prems(1) by (auto simp: is_dig_def)
  have mono: "a \<le> foldl (\<lambda>acc c. acc * 10 + the (to_digit 10 c)) a ds" for a :: nat
  proof (induction ds arbitrary: a)
    case (Cons c ds)
    show ?case using Cons [of "a * 10 + the (to_digit 10 c)"] by simp
  qed simp
  have "acc * 10 + d \<le> 65535" using Cons.prems(2) mono [of "acc * 10 + d"] by (simp add: d)
  then show ?case using Cons d by simp
qed simp

lemma parse_u16_show: "parse_u16 (show_word (p :: u16)) = Ok p"
proof -
  let ?s = "dec (unat p)"
  have dig: "\<forall>c \<in> set ?s. is_dig 10 c" using radix_str_digits [of 10] by simp
  have "hd ?s \<in> set ?s" by simp
  moreover have "\<not> is_dig 10 CHR ''+''" "\<not> is_dig 10 CHR ''-''" by (simp_all add: is_dig_def to_digit_def)
  ultimately have "hd ?s \<noteq> CHR ''+''" "?s \<noteq> ''+''" "?s \<noteq> ''-''" using dig by force+
  moreover have "u16_digits ?s 0 = Ok p"
    using u16_digits_val [OF dig, of 0] digits_val_radix [of 10 "unat p"] unsigned_less [of p, where 'a = nat]
    by (simp add: digits_val_def)
  ultimately show ?thesis by (simp add: parse_u16_def show_word_def)
qed

lemma show_word_no_colon: "CHR '':'' \<notin> set (show_word (p :: u16))"
  using radix_str_digits [of 10 "CHR '':''" "unat p"] by (auto simp: show_word_def)

lemma trim_brackets:
  assumes "\<forall>c \<in> set h. \<not> is_bracket c"
  shows "trim_matches is_bracket h = h" and "trim_matches is_bracket (''['' @ h @ '']'') = h"
proof -
  have dw: "dropWhile is_bracket s = s" if "\<forall>c \<in> set s. \<not> is_bracket c" for s
    using that by (cases s) auto
  have d: "dropWhile is_bracket h = h" "dropWhile is_bracket (rev h) = rev h" using assms by (intro dw; simp)+
  show "trim_matches is_bracket h = h" by (simp add: trim_matches_def d)
  have b: "is_bracket CHR ''[''" "is_bracket CHR '']''" by (simp_all add: is_bracket_def)
  have "dropWhile is_bracket (h @ '']'') = (if h = [] then [] else h @ '']'')"
    using assms b by (cases h) auto
  then show "trim_matches is_bracket (''['' @ h @ '']'') = h"
    using b d by (simp add: trim_matches_def)
qed

text \<open>No port ends in a bracket.\<close>

lemma u16_digits_not_ok: "to_digit 10 c = None \<Longrightarrow> \<exists>e. u16_digits (ds @ [c]) acc = Err e"
  by (induction ds arbitrary: acc) (auto split: option.splits)

lemma parse_u16_bracket: "\<exists>e. parse_u16 (s @ '']'') = Err e"
proof -
  have "to_digit 10 CHR '']'' = None" by (simp add: to_digit_def)
  note d = u16_digits_not_ok [OF this]
  show ?thesis
  proof (cases s)
    case Nil
    then show ?thesis using d [of "[]" 0] by (simp add: parse_u16_def)
  next
    case (Cons c cs)
    then show ?thesis using d [of cs 0] d [of s 0] by (simp add: parse_u16_def)
  qed
qed

lemma bracketed_without_port:
  "\<exists>e. parse_host_port (''['' @ b @ '']'') = Err e"
  "CHR '':'' \<in> set b \<Longrightarrow> CHR '':'' \<notin> set scheme \<Longrightarrow> \<exists>e. parse_stun_like (scheme @ '':['' @ b @ '']'') allowed d = Err e"
proof -
  obtain host after where a: "split_once (CHR '']'') (b @ '']'') = Some (host, after)"
    using split_once_None [of "CHR '']''" "b @ '']''"] by (cases "split_once (CHR '']'') (b @ '']'')") auto
  then have "b @ '']'' = host @ CHR '']'' # after" by (simp add: split_once_iff)
  then have l: "after = [] \<or> after = butlast after @ '']''"
    by (cases after rule: rev_cases) (auto simp flip: append_assoc append_Cons)
  show "\<exists>e. parse_host_port (''['' @ b @ '']'') = Err e"
  proof (cases "after \<noteq> [] \<and> hd after = CHR '':''")
    case True
    then obtain x xs where x: "butlast after = x # xs" using l by (cases "butlast after") auto
    then have "tl after = xs @ '']''" using l True by (cases after) auto
    then obtain e where "parse_u16 (tl after) = Err e" using parse_u16_bracket [of xs] by auto
    then show ?thesis using True a by (simp add: parse_host_port_def)
  qed (use a in \<open>auto simp: parse_host_port_def\<close>)
  assume "CHR '':'' \<in> set b" and s: "CHR '':'' \<notin> set scheme"
  then obtain h p where hp: "rsplit_once (CHR '':'') (''['' @ b @ '']'') = Some (h, p)"
    using rsplit_once_None [of "CHR '':''" "''['' @ b @ '']''"] by (cases "rsplit_once (CHR '':'') (''['' @ b @ '']'')") auto
  then have "''['' @ b @ '']'' = h @ CHR '':'' # p" by (simp only: rsplit_once_iff)
  then have "last (''['' @ b @ '']'') = last (h @ CHR '':'' # p)" by (simp only:)
  then have "p \<noteq> []" "last p = CHR '']''" by (cases p; simp split: if_splits)+
  then have "p = butlast p @ '']''" using append_butlast_last_id [of p] by simp
  then obtain e where "parse_u16 p = Err e" using parse_u16_bracket [of "butlast p"] by auto
  moreover have "split_once (CHR '':'') (scheme @ CHR '':'' # ''['' @ b @ '']'') = Some (scheme, ''['' @ b @ '']'')"
    using s by (simp add: split_once_iff)
  ultimately show "\<exists>e. parse_stun_like (scheme @ '':['' @ b @ '']'') allowed d = Err e"
    using hp by (simp add: parse_stun_like_def Let_def)
qed

section \<open>Lemmas: lines from stdin\<close>

lemma prompt_room:
  assumes "con_tty con \<longrightarrow> room (con_err con) (Suc k)"
  obtains err where "prompt con = Ok (con\<lparr>con_err := err\<rparr>)" and "con_tty con \<longrightarrow> room err k"
    and "\<not> con_tty con \<longrightarrow> err = con_err con"
proof (cases "con_tty con")
  case True
  with assms that show thesis
    by (cases "con_err con" rule: take_write.cases) (auto simp: prompt_def eprint_def)
next
  case False
  with that [of "con_err con"] show thesis by (simp add: prompt_def)
qed

text \<open>With room on stderr for the prompt a secret is read without a panic, and the rest of the console is kept.\<close>

lemma resolve_secret_room:
  assumes "con_tty con \<longrightarrow> room (con_err con) (Suc k)"
  shows "resolve_secret f s l con \<noteq> Panic"
    and "resolve_secret f s l con = Ok (v, con') \<Longrightarrow>
      (con_tty con' \<longrightarrow> room (con_err con') k) \<and> con_tty con' = con_tty con \<and> con_out con' = con_out con"
proof -
  obtain err where p: "prompt con = Ok (con\<lparr>con_err := err\<rparr>)" "con_tty con \<longrightarrow> room err k"
    using prompt_room [OF assms] by blast
  show "resolve_secret f s l con \<noteq> Panic"
    using read_line_no_panic by (auto simp: resolve_secret_def read_line_from_stdin_def p(1) Let_def res_simps)
  show "resolve_secret f s l con = Ok (v, con') \<Longrightarrow>
      (con_tty con' \<longrightarrow> room (con_err con') k) \<and> con_tty con' = con_tty con \<and> con_out con' = con_out con"
    using assms p(2) room_mono [of "con_err con" "Suc k" k]
    by (auto simp: resolve_secret_def read_line_from_stdin_def p(1) Let_def res_simps read_line_def
        split: if_splits prod.splits option.splits)
qed

text \<open>A line of valid text, with its newline taken off.\<close>

lemma strip_line:
  assumes "\<forall>c \<in> set s. c \<noteq> CHR 0x0A \<and> c \<noteq> CHR 0x0D" and "set nl \<subseteq> {CHR 0x0A, CHR 0x0D}"
  shows "strip_newlines (s @ nl) = s"
proof -
  have "dropWhile (\<lambda>c. c = CHR 0x0A \<or> c = CHR 0x0D) (rev nl @ rev s) = dropWhile (\<lambda>c. c = CHR 0x0A \<or> c = CHR 0x0D) (rev s)"
    using assms(2) by (intro dropWhile_append2) auto
  also have "\<dots> = rev s" using assms(1) by (cases s rule: rev_cases) auto
  finally show ?thesis by (simp add: strip_newlines_def)
qed

lemma byte_of_char_ascii: "byte_of_char CHR 0x0A < 0x80" "byte_of_char CHR 0x0D < 0x80"
  by (simp_all add: byte_of_char_def)

lemma read_line_newline:
  assumes "CHR 0x0A \<notin> set l" and "con_in con = l @ CHR 0x0A # tail"
  shows "read_line con = (if valid_utf8 (as_bytes l) then Ok (l @ [CHR 0x0A], con\<lparr>con_in := tail\<rparr>)
     else Err ''stream did not contain valid UTF-8'')"
  using assms valid_utf8_ascii_after [OF byte_of_char_ascii(1), of "as_bytes l" "[]"]
  by (simp add: read_line_def read_until_newline_append as_bytes_def)

lemma read_line_end:
  assumes "CHR 0x0A \<notin> set (con_in con)"
  shows "read_line con = (case con_in_error con of Some e \<Rightarrow> Err e | None \<Rightarrow>
     if valid_utf8 (as_bytes (con_in con)) then Ok (con_in con, con\<lparr>con_in := []\<rparr>) else Err ''stream did not contain valid UTF-8'')"
  using assms by (simp add: read_line_def read_until_newline_end)

lemma read_line_stripped:
  assumes "\<forall>c \<in> set s. c \<noteq> CHR 0x0A \<and> c \<noteq> CHR 0x0D" and "valid_utf8 (as_bytes s)"
    and "nl = [CHR 0x0A] \<or> nl = [CHR 0x0D, CHR 0x0A]" and "con_in con = s @ nl @ tail"
  shows "\<exists>line. read_line con = Ok (line, con\<lparr>con_in := tail\<rparr>) \<and> strip_newlines line = s"
proof -
  have "set nl \<subseteq> {CHR 0x0A, CHR 0x0D}" using assms(3) by (elim disjE) simp_all
  from strip_line [OF assms(1) this] have strip: "strip_newlines (s @ nl) = s" .
  have lf: "CHR 0x0A \<notin> set s" using assms(1) by blast
  from assms(3) show ?thesis
  proof
    assume nl: "nl = [CHR 0x0A]"
    have "con_in con = s @ CHR 0x0A # tail" using assms(4) nl by simp
    from read_line_newline [OF lf this] show ?thesis using strip assms(2) nl by (intro exI [of _ "s @ [CHR 0x0A]"]) simp
  next
    assume nl: "nl = [CHR 0x0D, CHR 0x0A]"
    have "con_in con = (s @ [CHR 0x0D]) @ CHR 0x0A # tail" "CHR 0x0A \<notin> set (s @ [CHR 0x0D])" using assms(4) nl lf by simp_all
    moreover have "valid_utf8 (as_bytes (s @ [CHR 0x0D]))"
      using assms(2) valid_utf8_ascii_after [OF byte_of_char_ascii(2), of "as_bytes s" "[]"] by (simp add: as_bytes_def)
    ultimately show ?thesis
      using read_line_newline [of "s @ [CHR 0x0D]" con tail] strip nl by (intro exI [of _ "s @ nl"]) simp
  qed
qed

lemma resolve_secret_prompted:
  assumes "prompt con = Ok con1"
  shows "resolve_secret f True l con = bind_res (read_line con1) (\<lambda>(line, con).
     if strip_newlines line = [] then Err (''got empty input for '' @ l @ '' on stdin'')
     else Ok (Some (strip_newlines line), con))"
  by (cases "read_line con1") (auto simp: resolve_secret_def read_line_from_stdin_def assms Let_def split: prod.split)

lemma resolve_secret_line:
  assumes "prompt con = Ok con1" and "con_in con1 = s @ nl @ tail" and "s \<noteq> []" and "valid_utf8 (as_bytes s)"
    and "\<forall>c \<in> set s. c \<noteq> CHR 0x0A \<and> c \<noteq> CHR 0x0D" and "nl = [CHR 0x0A] \<or> nl = [CHR 0x0D, CHR 0x0A]"
  shows "resolve_secret f True l con = Ok (Some s, con1\<lparr>con_in := tail\<rparr>)"
proof -
  obtain line where "read_line con1 = Ok (line, con1\<lparr>con_in := tail\<rparr>)" "strip_newlines line = s"
    using read_line_stripped [OF assms(5,4,6,2)] by blast
  then show ?thesis using assms(3) by (simp add: resolve_secret_prompted [OF assms(1)])
qed

lemma resolve_secret_empty:
  assumes "prompt con = Ok con1" and "con_in con1 = nl @ tail \<and> (nl = [CHR 0x0A] \<or> nl = [CHR 0x0D, CHR 0x0A])
    \<or> con_in con1 = [] \<and> con_in_error con1 = None"
  shows "resolve_secret f True l con = Err (''got empty input for '' @ l @ '' on stdin'')"
proof -
  have "\<exists>line tail. read_line con1 = Ok (line, con1\<lparr>con_in := tail\<rparr>) \<and> strip_newlines line = []" using assms(2)
  proof
    assume "con_in con1 = nl @ tail \<and> (nl = [CHR 0x0A] \<or> nl = [CHR 0x0D, CHR 0x0A])"
    then show ?thesis using read_line_stripped [of "[]" nl con1 tail] by (simp add: as_bytes_def) blast
  qed (use read_line_end [of con1] in \<open>auto simp: as_bytes_def strip_newlines_def\<close>)
  then show ?thesis by (auto simp: resolve_secret_prompted [OF assms(1)])
qed

section \<open>Properties\<close>

text \<open>C12: What \<open>parse_stun_like\<close> accepts: a scheme up to the first colon, allowed after lower-casing.
  When a colon follows, what stands after the last one is the port and what stands before it, trimmed of
  square brackets at its ends, the host; otherwise the port is the default and the rest is the host as it
  is, brackets included.  The host is never empty.\<close>

theorem parse_stun_like_accepts:
  "parse_stun_like url allowed default_port = Ok t \<longleftrightarrow>
     (\<exists>scheme rest. url = scheme @ CHR '':'' # rest \<and> CHR '':'' \<notin> set scheme
        \<and> to_ascii_lowercase scheme \<in> set allowed \<and> t_host t \<noteq> []
        \<and> (CHR '':'' \<notin> set rest \<and> t_host t = rest \<and> t_port t = default_port
          \<or> (\<exists>h p. rest = h @ CHR '':'' # p \<and> CHR '':'' \<notin> set p \<and> parse_u16 p = Ok (t_port t)
               \<and> t_host t = trim_matches is_bracket h)))"
proof -
  have t: "\<lparr>t_host = h, t_port = p\<rparr> = t \<longleftrightarrow> h = t_host t \<and> p = t_port t" for h p by (cases t) auto
  let ?rhs = "\<exists>scheme rest. split_once (CHR '':'') url = Some (scheme, rest)
      \<and> to_ascii_lowercase scheme \<in> set allowed \<and> t_host t \<noteq> []
      \<and> (rsplit_once (CHR '':'') rest = None \<and> t_host t = rest \<and> t_port t = default_port
        \<or> (\<exists>h p. rsplit_once (CHR '':'') rest = Some (h, p) \<and> parse_u16 p = Ok (t_port t)
             \<and> t_host t = trim_matches is_bracket h))"
  have "parse_stun_like url allowed default_port = Ok t \<longleftrightarrow> ?rhs"
  proof (cases "split_once (CHR '':'') url")
    case (Some p)
    then obtain scheme rest where s: "split_once (CHR '':'') url = Some (scheme, rest)" by (cases p) auto
    show ?thesis
    proof (cases "rsplit_once (CHR '':'') rest")
      case None
      then show ?thesis by (auto simp: parse_stun_like_def s t)
    next
      case (Some q)
      obtain h p where hp: "q = (h, p)" by fastforce
      show ?thesis using parse_u16_no_panic [of p]
        by (cases "parse_u16 p") (auto simp: parse_stun_like_def s Some hp t)
    qed
  qed (simp add: parse_stun_like_def)
  then show ?thesis unfolding split_once_iff rsplit_once_iff rsplit_once_None by (simp only: conj_assoc)
qed

text \<open>A URI made of an allowed scheme in any letter case, a host without brackets and a decimal
  port is parsed back to host and port: IPv6 literals in brackets, other hosts as they are,
  with the default port when none is given.\<close>

theorem stun_uri_roundtrip:
  assumes "CHR '':'' \<notin> set scheme" and "to_ascii_lowercase scheme \<in> set allowed"
    and "host \<noteq> []" and "\<forall>c \<in> set host. \<not> is_bracket c"
  shows "parse_stun_like (scheme @ '':['' @ host @ '']:'' @ show_word (port :: u16)) allowed d
           = Ok \<lparr>t_host = host, t_port = port\<rparr>
     \<and> (CHR '':'' \<notin> set host \<longrightarrow>
          parse_stun_like (scheme @ '':'' @ host @ '':'' @ show_word port) allowed d = Ok \<lparr>t_host = host, t_port = port\<rparr>
          \<and> parse_stun_like (scheme @ '':'' @ host) allowed d = Ok \<lparr>t_host = host, t_port = d\<rparr>)"
proof -
  have s: "split_once (CHR '':'') (scheme @ CHR '':'' # rest) = Some (scheme, rest)" for rest
    using assms(1) by (simp add: split_once_iff)
  have r: "rsplit_once (CHR '':'') (h @ CHR '':'' # show_word port) = Some (h, show_word port)" for h
    using show_word_no_colon [of port] by (simp add: rsplit_once_iff)
  have p: "parse_stun_like (scheme @ '':'' @ h @ '':'' @ show_word port) allowed d = Ok \<lparr>t_host = host, t_port = port\<rparr>"
    if "trim_matches is_bracket h = host" for h
    using assms(2,3) s [of "h @ CHR '':'' # show_word port"] that by (simp add: parse_stun_like_def r parse_u16_show)
  have n: "parse_stun_like (scheme @ '':'' @ host) allowed d = Ok \<lparr>t_host = host, t_port = d\<rparr>" if "CHR '':'' \<notin> set host"
    using assms(2,3) s [of host] that rsplit_once_None [of "CHR '':''" host] by (simp add: parse_stun_like_def)
  from p [of "''['' @ host @ '']''"] p [of host] n trim_brackets [OF assms(4)] show ?thesis by simp
qed

theorem stun_uri_roundtrip_witness:
  "parse_stun_like (''TURN:'' @ ''relay'' @ '':'' @ show_word (443 :: u16)) [''stun'', ''turn''] 3478
     = Ok \<lparr>t_host = ''relay'', t_port = 443\<rparr>
   \<and> parse_stun_like (''TURN:['' @ ''fd00::1'' @ '']:'' @ show_word (443 :: u16)) [''stun'', ''turn''] 3478
     = Ok \<lparr>t_host = ''fd00::1'', t_port = 443\<rparr>"
proof -
  have l: "to_ascii_lowercase ''TURN'' = ''turn''"
    by (simp add: to_ascii_lowercase_def ascii_lower_def char_of_eq_iff)
  show ?thesis
    using stun_uri_roundtrip [of "''TURN''" "[''stun'', ''turn'']" "''relay''" 443 3478]
      stun_uri_roundtrip [of "''TURN''" "[''stun'', ''turn'']" "''fd00::1''" 443 3478]
    by (simp add: l is_bracket_def)
qed

text \<open>C40: An IPv6 literal without brackets is not refused: the part after its last colon is taken as
  the port, when it reads as one, and the rest as the host.  The \<open>host:port\<close> parser of the
  \<open>dtls\<close> subcommand refuses the same text.  A bracketed text with a colon in it and no port after the
  bracket, so every bracketed IPv6 literal without a port, is refused by both.\<close>

theorem unbracketed_ipv6_misread:
  assumes "CHR '':'' \<in> set h" and "\<forall>c \<in> set h. \<not> is_bracket c"
  shows "parse_stun_like (''stun:'' @ h @ '':'' @ show_word (p :: u16)) [''stun''] d = Ok \<lparr>t_host = h, t_port = p\<rparr>
     \<and> (\<exists>e. parse_host_port (h @ '':'' @ show_word p) = Err e)
     \<and> (\<forall>b. CHR '':'' \<in> set b \<longrightarrow>
          (\<exists>e. parse_stun_like (''stun:['' @ b @ '']'') [''stun''] d = Err e) \<and> (\<exists>e. parse_host_port (''['' @ b @ '']'') = Err e))"
proof -
  have low: "to_ascii_lowercase ''stun'' = ''stun''" by (simp add: to_ascii_lowercase_def ascii_lower_def)
  have r: "rsplit_once (CHR '':'') (h @ CHR '':'' # show_word p) = Some (h, show_word p)"
    using show_word_no_colon [of p] by (simp add: rsplit_once_iff)
  have ne: "h \<noteq> []" "hd (h @ x) \<noteq> CHR ''[''" for x using assms by (cases h; auto simp: is_bracket_def)+
  have 1: "parse_stun_like (''stun:'' @ h @ '':'' @ show_word p) [''stun''] d = Ok \<lparr>t_host = h, t_port = p\<rparr>"
    using ne trim_brackets(1) [OF assms(2)] by (simp add: parse_stun_like_def low r parse_u16_show)
  have 2: "\<exists>e. parse_host_port (h @ '':'' @ show_word p) = Err e"
    using ne assms(1) by (simp add: parse_host_port_def r)
  have 3: "\<exists>e. parse_stun_like (''stun:['' @ b @ '']'') [''stun''] d = Err e" if "CHR '':'' \<in> set b" for b
    using bracketed_without_port(2) [OF that, of "''stun''" "[''stun'']" d] by simp
  from 1 2 3 bracketed_without_port(1) show ?thesis by blast
qed

theorem unbracketed_ipv6_misread_witness:
  "parse_stun_like (''stun:'' @ ''2001:db8:'' @ '':'' @ show_word (5 :: u16)) [''stun''] 3478
     = Ok \<lparr>t_host = ''2001:db8:'', t_port = 5\<rparr>
   \<and> (\<exists>e. parse_stun_like (''stun:['' @ ''fd00::1'' @ '']'') [''stun''] 3478 = Err e)"
proof -
  have "CHR '':'' \<in> set ''2001:db8:''" "\<forall>c \<in> set ''2001:db8:''. \<not> is_bracket c" "CHR '':'' \<in> set ''fd00::1''"
    by (simp_all add: is_bracket_def)
  then show ?thesis using unbracketed_ipv6_misread [of "''2001:db8:''" 5 3478] by blast
qed

text \<open>The \<open>host:port\<close> parser reads back every host without colons, and every bracketed host
  without a closing bracket inside, with any port; it never panics.\<close>

theorem host_port_roundtrip:
  assumes "host \<noteq> []"
  shows "(CHR '']'' \<notin> set host \<longrightarrow> parse_host_port (''['' @ host @ '']:'' @ show_word (port :: u16)) = Ok (host, port))
     \<and> (CHR '':'' \<notin> set host \<and> hd host \<noteq> CHR ''['' \<longrightarrow> parse_host_port (host @ '':'' @ show_word port) = Ok (host, port))
     \<and> parse_host_port s \<noteq> Panic"
proof -
  have 1: "parse_host_port (''['' @ host @ '']:'' @ show_word port) = Ok (host, port)" if "CHR '']'' \<notin> set host"
  proof -
    have "split_once (CHR '']'') (host @ CHR '']'' # CHR '':'' # show_word port) = Some (host, CHR '':'' # show_word port)"
      using that by (simp add: split_once_iff)
    then show ?thesis using assms by (simp add: parse_host_port_def parse_u16_show)
  qed
  have 2: "parse_host_port (host @ '':'' @ show_word port) = Ok (host, port)"
    if "CHR '':'' \<notin> set host" "hd host \<noteq> CHR ''[''"
  proof -
    have "rsplit_once (CHR '':'') (host @ CHR '':'' # show_word port) = Some (host, show_word port)"
      using show_word_no_colon [of port] by (simp add: rsplit_once_iff)
    then show ?thesis using assms that by (simp add: parse_host_port_def parse_u16_show)
  qed
  from 1 2 show ?thesis by (simp add: parse_host_port_no_panic)
qed

theorem host_port_roundtrip_witness:
  "parse_host_port (''[fd00::1]:'' @ show_word (5684 :: u16)) = Ok (''fd00::1'', 5684)
   \<and> parse_host_port (''peer:'' @ show_word (5684 :: u16)) = Ok (''peer'', 5684)"
  using host_port_roundtrip [of "''fd00::1''" 5684] host_port_roundtrip [of "''peer''" 5684] by simp


definition example_console :: console where
  "example_console = \<lparr>con_in = [], con_in_error = None, con_tty = False, con_err = None, con_out = None\<rparr>"


end
