(* ===== verification/Cli.thy ===== *)
theory Cli
  imports Ice_Gather Target
begin

text \<open>
  The subcommands of \<open>crates/webrtc-doctor/src/main.rs\<close>: what each makes of its arguments
  (header line, context and pipeline), and what the process then does with the report.
  Errors of the argument handling are the texts the user sees.
\<close>

section \<open>Pipelines\<close>

definition stun_suite :: "check list" where
  "stun_suite = pipeline_push (pipeline_push pipeline_new dns_check) stun_check"

lemma stun_suite_checks: "stun_suite = [dns_check, stun_check]"
  by (simp add: stun_suite_def pipeline_push_def pipeline_new_def)

definition turn_suite :: "crypto \<Rightarrow> check list" where
  "turn_suite c = pipeline_push (pipeline_push (pipeline_push (pipeline_push pipeline_new dns_check) stun_check) (turn_alloc_check c)) (turn_echo_check c)"

lemma turn_suite_checks: "turn_suite c = [dns_check, stun_check, turn_alloc_check c, turn_echo_check c]"
  by (simp add: turn_suite_def pipeline_push_def pipeline_new_def)

definition ice_suite :: "crypto \<Rightarrow> bool \<Rightarrow> check list" where
  "ice_suite c is_turn =
     (let pipeline = pipeline_push (pipeline_push pipeline_new dns_check) stun_check;
          pipeline = (if is_turn then pipeline_push pipeline (turn_alloc_check c) else pipeline)
      in pipeline_push pipeline ice_check)"

lemma ice_suite_checks:
  "ice_suite c is_turn = [dns_check, stun_check] @ (if is_turn then [turn_alloc_check c] else []) @ [ice_check]"
  by (simp add: ice_suite_def pipeline_push_def pipeline_new_def)

section \<open>Subcommands\<close>

type_synonym prepared = "string \<times> probe_ctx \<times> check list"

definition target_ctx :: "target \<Rightarrow> probe_ctx" where
  "target_ctx t = ctx_new\<lparr>ctx_host := Some (t_host t), ctx_port := Some (t_port t)\<rparr>"

definition stun_command :: "string \<Rightarrow> (string, prepared) res" where
  "stun_command url =
     bind_res (map_err show_target_error (parse_stun_like url [''stun''] 3478)) (\<lambda>t.
     Ok (''probing '' @ t_host t @ '' (stun)'', target_ctx t, stun_suite))"

definition turn_command ::
  "crypto \<Rightarrow> string \<Rightarrow> string option \<Rightarrow> string option \<Rightarrow> bool \<Rightarrow> bool \<Rightarrow> u32 \<Rightarrow> console \<Rightarrow> (string, prepared \<times> console) res"
where
  "turn_command c url user pass user_stdin pass_stdin count con =
     bind_res (map_err show_target_error (parse_stun_like url [''turn''] 3478)) (\<lambda>t.
     bind_res (resolve_secret user user_stdin ''TURN username'' con) (\<lambda>(tu, con).
     bind_res (resolve_secret pass pass_stdin ''TURN password'' con) (\<lambda>(tp, con).
     Ok ((''probing '' @ t_host t @ '' (turn)'',
          (target_ctx t)\<lparr>turn_user := tu, turn_pass := tp, echo_count := count\<rparr>, turn_suite c), con))))"

definition ice_command ::
  "crypto \<Rightarrow> string \<Rightarrow> string option \<Rightarrow> string option \<Rightarrow> bool \<Rightarrow> bool \<Rightarrow> console \<Rightarrow> (string, prepared \<times> console) res"
where
  "ice_command c url user pass user_stdin pass_stdin con =
     bind_res (map_err show_target_error (parse_stun_like url [''stun'', ''turn''] 3478)) (\<lambda>t.
     let is_turn = starts_with url ''turn:''; ctx = target_ctx t;
         header = ''probing '' @ t_host t @ '' (ice)''
     in if is_turn then
          bind_res (resolve_secret user user_stdin ''TURN username'' con) (\<lambda>(tu, con).
          bind_res (resolve_secret pass pass_stdin ''TURN password'' con) (\<lambda>(tp, con).
          Ok ((header, ctx\<lparr>turn_user := tu, turn_pass := tp\<rparr>, ice_suite c True), con)))
        else if user \<noteq> None \<or> pass \<noteq> None \<or> user_stdin \<or> pass_stdin then
          Err (''credentials supplied but URL scheme is '' @ backquote ''stun:'' @ ''; use a '' @ backquote ''turn:''
                 @ '' URL to collect a relay candidate'')
        else Ok ((header, ctx, ice_suite c False), con))"

text \<open>The end of \<open>main\<close>: run the pipeline; the verdict is the exit code.\<close>

definition run_prepared :: "prepared \<Rightarrow> world \<Rightarrow> (unit, report \<times> int \<times> world) res" where
  "run_prepared p w =
     (case p of (_, ctx, pipeline) \<Rightarrow>
        bind_res (pipeline_run pipeline ctx w) (\<lambda>(rep, _, w). Ok (rep, exit_code (report_verdict rep), w)))"

section \<open>The pipelines keep the contract of their checks\<close>

interpretation stun_suite: probe_suite stun_suite
proof (rule probe_suite.intro)
  fix c assume "c \<in> set stun_suite"
  then show "check_contract c"
    using dns.check_contract_axioms stun.check_contract_axioms by (auto simp: stun_suite_checks)
qed

interpretation turn_suite: probe_suite "turn_suite c" for c
proof (rule probe_suite.intro)
  fix d assume "d \<in> set (turn_suite c)"
  then show "check_contract d"
    using dns.check_contract_axioms stun.check_contract_axioms turn_alloc.check_contract_axioms
      turn_echo.check_contract_axioms by (auto simp: turn_suite_checks)
qed

interpretation ice_suite: probe_suite "ice_suite c b" for c b
proof (rule probe_suite.intro)
  fix d assume "d \<in> set (ice_suite c b)"
  then show "check_contract d"
    using dns.check_contract_axioms stun.check_contract_axioms turn_alloc.check_contract_axioms
      ice.check_contract_axioms by (auto simp: ice_suite_checks split: if_splits)
qed

section \<open>Lemmas\<close>

lemmas check_ids = dns_id_def stun_id_def turn_alloc_id_def echo_id_def ice_id_def

lemma pipeline_run_checks:
  assumes "pipeline_run cs ctx w = Ok (rep, ctx', w')"
  shows "\<exists>t w1 w2. instant_now w = (t, w1) \<and> run_checks cs {} ctx w1 = Ok (results rep, ctx', w2)
    \<and> w_now w2 \<le> w_now w' \<and> w_log w' = w_log w2 \<and> w_log w1 = w_log w \<and> w_socks w1 = w_socks w \<and> w_inbox w1 = w_inbox w"
proof -
  obtain t w1 where 1: "instant_now w = (t, w1)" by fastforce
  obtain rs c2 w2 where 2: "run_checks cs {} ctx w1 = Ok (rs, c2, w2)"
    using assms 1 by (cases "run_checks cs {} ctx w1") (auto simp: pipeline_run_def)
  obtain ms w3 where 3: "elapsed_ms t w2 = (ms, w3)" by fastforce
  have "results rep = rs" "ctx' = c2" "w' = w3"
    using assms 1 2 3 by (auto simp: pipeline_run_def)
  then show ?thesis
    using 1 2 instant_now_step [OF 1] elapsed_ms_step [OF 3] instant_now_inbox [OF 1] by auto
qed

lemma run_checks_ConsD:
  assumes "run_checks (d # ds) passed ctx w = Ok (rs, ctx', w')"
  obtains r c1 w1 rs' where "rs = r # rs'" "run_one passed d ctx w = Ok (r, c1, w1)"
    "run_checks ds (if r_status r = Pass then insert (c_id d) passed else passed) c1 w1 = Ok (rs', ctx', w')"
proof -
  obtain r c1 w1 where 1: "run_one passed d ctx w = Ok (r, c1, w1)"
    using assms by (cases "run_one passed d ctx w") auto
  obtain rs' c2 w2 where 2: "run_checks ds (if r_status r = Pass then insert (c_id d) passed else passed) c1 w1 = Ok (rs', c2, w2)"
    using assms 1
    by (cases "run_checks ds (if r_status r = Pass then insert (c_id d) passed else passed) c1 w1") auto
  show thesis using assms 1 2 by (intro that [of r rs' c1 w1]) auto
qed

text \<open>The run of the TURN pipeline, check by check.\<close>

lemma turn_suite_chain:
  assumes "run_checks (turn_suite c) {} ctx w = Ok (rs, ctx', w')"
  shows "\<exists>r0 c0 w0 r1 c1 w1 r2 c2 w2 r3. rs = [r0, r1, r2, r3]
     \<and> dns_run ctx w = Ok (r0, c0, w0)
     \<and> (if r_status r0 = Pass then stun_run c0 w0 = Ok (r1, c1, w1) else r_status r1 = Skip \<and> c1 = c0 \<and> w1 = w0)
     \<and> (if r_status r0 = Pass then turn_alloc_run c c1 w1 = Ok (r2, c2, w2) else r_status r2 = Skip \<and> c2 = c1 \<and> w2 = w1)
     \<and> (if r_status r1 = Pass \<and> r_status r2 = Pass then turn_echo_run c c2 w2 = Ok (r3, ctx', w')
        else r_status r3 = Skip \<and> ctx' = c2 \<and> w' = w2)"
proof -
  let ?p1 = "\<lambda>r0. if r_status r0 = Pass then {dns_id} else {}"
  let ?p2 = "\<lambda>r0 r1. if r_status r1 = Pass then insert stun_id (?p1 r0) else ?p1 r0"
  let ?p3 = "\<lambda>r0 r1 r2. if r_status r2 = Pass then insert turn_alloc_id (?p2 r0 r1) else ?p2 r0 r1"
  have ids: "c_id dns_check = dns_id" "c_id stun_check = stun_id" "c_id (turn_alloc_check c) = turn_alloc_id"
    by (simp_all add: dns_check_def stun_check_def turn_alloc_check_def)
  obtain r0 c0 w0 rs1 where 0: "rs = r0 # rs1" "run_one {} dns_check ctx w = Ok (r0, c0, w0)"
    and run1: "run_checks [stun_check, turn_alloc_check c, turn_echo_check c] (?p1 r0) c0 w0 = Ok (rs1, ctx', w')"
    using assms unfolding turn_suite_checks by (rule run_checks_ConsD) (simp only: ids)
  obtain r1 c1 w1 rs2 where 1: "rs1 = r1 # rs2" "run_one (?p1 r0) stun_check c0 w0 = Ok (r1, c1, w1)"
    and run2: "run_checks [turn_alloc_check c, turn_echo_check c] (?p2 r0 r1) c1 w1 = Ok (rs2, ctx', w')"
    using run1 by (rule run_checks_ConsD) (simp only: ids)
  obtain r2 c2 w2 rs3 where 2: "rs2 = r2 # rs3" "run_one (?p2 r0 r1) (turn_alloc_check c) c1 w1 = Ok (r2, c2, w2)"
    and run3: "run_checks [turn_echo_check c] (?p3 r0 r1 r2) c2 w2 = Ok (rs3, ctx', w')"
    using run2 by (rule run_checks_ConsD) (simp only: ids)
  obtain r3 c3 w3 where 3: "rs3 = [r3]" "run_one (?p3 r0 r1 r2) (turn_echo_check c) c2 w2 = Ok (r3, ctx', w')"
    using run3 by (elim run_checks_ConsD) auto
  have rs: "rs = [r0, r1, r2, r3]" using 0 1 2 3 by simp
  have "dns_run ctx w = Ok (r0, c0, w0)" using 0(2) by (simp add: run_one_def dns_check_def)
  moreover have "if r_status r0 = Pass then stun_run c0 w0 = Ok (r1, c1, w1) else r_status r1 = Skip \<and> c1 = c0 \<and> w1 = w0"
    using 1(2) by (auto simp: run_one_def stun_check_def Let_def check_ids)
  moreover have "if r_status r0 = Pass then turn_alloc_run c c1 w1 = Ok (r2, c2, w2) else r_status r2 = Skip \<and> c2 = c1 \<and> w2 = w1"
    using 2(2) by (auto simp: run_one_def turn_alloc_check_def Let_def check_ids split: if_splits)
  moreover have "if r_status r1 = Pass \<and> r_status r2 = Pass then turn_echo_run c c2 w2 = Ok (r3, ctx', w')
        else r_status r3 = Skip \<and> ctx' = c2 \<and> w' = w2"
    using 3(2) by (auto simp: run_one_def turn_echo_check_def Let_def check_ids split: if_splits)
  ultimately show ?thesis using rs by blast
qed

section \<open>What the checks of the TURN pipeline hand on\<close>


lemma dns_run_ctx:
  assumes "dns_run ctx w = Ok (r, ctx', w')"
  shows "ctx' = ctx\<lparr>resolved_ips := resolved_ips ctx'\<rparr>" and "w_inbox w' = w_inbox w" and "w_socks w' = w_socks w"
proof -
  show "ctx' = ctx\<lparr>resolved_ips := resolved_ips ctx'\<rparr>"
    using assms by (auto simp: dns_run_def Let_def split: option.splits sum.splits prod.splits if_splits)
  show "w_inbox w' = w_inbox w"
    using assms by (auto simp: dns_run_def Let_def lookup_host_def split: option.splits sum.splits prod.splits if_splits
        dest!: instant_now_inbox elapsed_ms_inbox)
  show "w_socks w' = w_socks w"
    using assms by (auto simp: dns_run_def Let_def lookup_host_def split: option.splits sum.splits prod.splits if_splits
        dest!: instant_now_step elapsed_ms_step)
qed

lemma turn_echo_run_skip:
  assumes "turn_echo_run c ctx w = Ok (r, ctx', w')"
  shows "r_status r = Skip \<longleftrightarrow> ctx_session ctx = None \<or> Option.bind (scratch ctx ''srflx'') parse_sock = None"
  using turn_echo_run_spec [of c ctx w] assms by (auto split: if_splits)

lemma stun_run_srflx:
  assumes "stun_run ctx w = Ok (r, ctx', w')" and "r_status r = Pass"
  obtains srflx where "ctx' = ctx\<lparr>scratch := (scratch ctx)(''srflx'' \<mapsto> show_sock srflx)\<rparr>"
    "Option.bind (scratch ctx' ''srflx'') parse_sock = Some (clear_flow srflx)"
  using stun_run_cases [OF assms(1)] assms(2) by (auto simp: parse_show_sock)

lemma stun_run_session: "stun_run ctx w = Ok (r, ctx', w') \<Longrightarrow> ctx_session ctx' = ctx_session ctx"
  by (drule stun_run_cases) (auto split: if_splits)

lemma dns_run_session: "dns_run ctx w = Ok (r, ctx', w') \<Longrightarrow> ctx_session ctx' = ctx_session ctx"
  by (metis dns_run_ctx(1) probe_ctx.ext_inject probe_ctx.surjective probe_ctx.update_convs(4))

text \<open>A good echo result: the permission was asked for, then all the payloads were sent.\<close>

lemma turn_echo_run_good:
  assumes "turn_echo_run c ctx w = Ok (r, ctx', w')" and "r_status r = Pass \<or> r_status r = Warn"
  shows "\<exists>s srflx t a tx cp es. ctx_session ctx = Some s \<and> Option.bind (scratch ctx ''srflx'') parse_sock = Some srflx
     \<and> build_create_permission c t a (ts_username s) (ts_realm s) (ts_nonce s) (ts_key s) srflx = Ok (tx, cp)
     \<and> w_log w' = w_log w @ es \<and> ctx' = ctx
     \<and> filter is_sent es = Sent (ts_socket s) cp (ts_server s)
         # map (echo_sent (ts_socket s) (ts_relayed s)) [0..<unat (max (echo_count ctx) 1)]"
proof -
  have "r_status r \<noteq> Fail" "r_status r \<noteq> Skip" using assms(2) by auto
  then show ?thesis using turn_echo_run_spec [of c ctx w] assms by (simp split: if_splits) blast+
qed

text \<open>The checks of a \<open>turn\<close> pipeline whose echo check passed or warned.\<close>

lemma turn_suite_good:
  assumes "pipeline_run (turn_suite c) ctx w = Ok (rep, ctx', w')"
    and "r_status (results rep ! 3) = Pass \<or> r_status (results rep ! 3) = Warn"
  obtains r0 c0 v0 r1 c1 v1 r2 c2 v2 r3 w1 w2 where "dns_run ctx w1 = Ok (r0, c0, v0)"
    "stun_run c0 v0 = Ok (r1, c1, v1)" "r_status r1 = Pass"
    "turn_alloc_run c c1 v1 = Ok (r2, c2, v2)" "r_status r2 = Pass"
    "turn_echo_run c c2 v2 = Ok (r3, ctx', w2)" "r_status r3 = Pass \<or> r_status r3 = Warn"
    "w_log w' = w_log w2" "w_log v0 = w_log w" "w_socks v0 = w_socks w" "ctx_config c0 = ctx_config ctx"
    "ctx_session c0 = ctx_session ctx"
proof -
  obtain t w1 w2 where run: "run_checks (turn_suite c) {} ctx w1 = Ok (results rep, ctx', w2)"
    and lg: "w_log w' = w_log w2" "w_log w1 = w_log w" "w_socks w1 = w_socks w"
    using pipeline_run_checks [OF assms(1)] by blast
  from turn_suite_chain [OF run] obtain r0 c0 v0 r1 c1 v1 r2 c2 v2 r3 where
    rs: "results rep = [r0, r1, r2, r3]" and 0: "dns_run ctx w1 = Ok (r0, c0, v0)"
    and 1: "if r_status r0 = Pass then stun_run c0 v0 = Ok (r1, c1, v1) else r_status r1 = Skip \<and> c1 = c0 \<and> v1 = v0"
    and 2: "if r_status r0 = Pass then turn_alloc_run c c1 v1 = Ok (r2, c2, v2) else r_status r2 = Skip \<and> c2 = c1 \<and> v2 = v1"
    and 3: "if r_status r1 = Pass \<and> r_status r2 = Pass then turn_echo_run c c2 v2 = Ok (r3, ctx', w2)
        else r_status r3 = Skip \<and> ctx' = c2 \<and> w2 = v2" by blast
  have r3: "r_status r3 = Pass \<or> r_status r3 = Warn" using assms(2) rs by (simp add: numeral_eq_Suc)
  then have p: "r_status r1 = Pass" "r_status r2 = Pass" using 3 by (auto split: if_splits)
  then have "stun_run c0 v0 = Ok (r1, c1, v1)" "turn_alloc_run c c1 v1 = Ok (r2, c2, v2)"
    "turn_echo_run c c2 v2 = Ok (r3, ctx', w2)" using 1 2 3 by (auto split: if_splits)
  moreover have "w_log v0 = w_log w" "w_socks v0 = w_socks w" "ctx_config c0 = ctx_config ctx" "ctx_session c0 = ctx_session ctx"
    using dns_run_keeps(4,5) [OF 0] dns_run_ctx(3) [OF 0] dns_run_session [OF 0] lg by simp_all
  ultimately show thesis using that 0 p r3 lg(1) by blast
qed

lemma config_same:
  "ctx_config a = ctx_config b \<longleftrightarrow> default_timeout a = default_timeout b \<and> ctx_host a = ctx_host b
     \<and> ctx_port a = ctx_port b \<and> turn_user a = turn_user b \<and> turn_pass a = turn_pass b \<and> echo_count a = echo_count b"
  by (simp add: ctx_config_def)

end
