(* ===== verification/Full.thy ===== *)
theory Full
  imports Cli Turns_Alloc Signaling Dtls
begin

text \<open>
  The remaining subcommands of \<open>crates/webrtc-doctor/src/main.rs\<close>: \<open>turns\<close>, \<open>signaling\<close>, \<open>dtls\<close>
  with its test peer, and \<open>full\<close>, which runs one pipeline per URL and concatenates the
  results.  An error of \<open>full\<close> carries the world it leaves, because a malformed URL is found only
  when its turn comes, after the pipelines before it have run.
\<close>

section \<open>Pipelines\<close>

definition turns_suite :: "crypto \<Rightarrow> (string \<Rightarrow> bool) \<Rightarrow> check list" where
  "turns_suite c name_ok = pipeline_push (pipeline_push pipeline_new dns_check) (turns_alloc_check c name_ok)"

lemma turns_suite_checks: "turns_suite c name_ok = [dns_check, turns_alloc_check c name_ok]"
  by (simp add: turns_suite_def pipeline_push_def pipeline_new_def)

definition signaling_suite :: "web \<Rightarrow> signaling \<Rightarrow> check list" where
  "signaling_suite web s = pipeline_push (pipeline_push pipeline_new dns_check) (signaling_check web s)"

lemma signaling_suite_checks: "signaling_suite web s = [dns_check, signaling_check web s]"
  by (simp add: signaling_suite_def pipeline_push_def pipeline_new_def)

definition dtls_suite :: "dtls_lib \<Rightarrow> check list" where
  "dtls_suite lib = pipeline_push (pipeline_push pipeline_new dns_check) (remote_check lib)"

lemma dtls_suite_checks: "dtls_suite lib = [dns_check, remote_check lib]"
  by (simp add: dtls_suite_def pipeline_push_def pipeline_new_def)

definition loopback_suite :: "dtls_lib \<Rightarrow> check list" where
  "loopback_suite lib = pipeline_push pipeline_new (loopback_check lib)"

lemma loopback_suite_checks: "loopback_suite lib = [loopback_check lib]"
  by (simp add: loopback_suite_def pipeline_push_def pipeline_new_def)

section \<open>Subcommands\<close>

definition turns_command ::
  "crypto \<Rightarrow> (string \<Rightarrow> bool) \<Rightarrow> string \<Rightarrow> string option \<Rightarrow> string option \<Rightarrow> bool \<Rightarrow> bool \<Rightarrow> console
     \<Rightarrow> (string, prepared \<times> console) res"
where
  "turns_command c name_ok url user pass user_stdin pass_stdin con =
     bind_res (map_err show_target_error (parse_stun_like url [''turns''] 5349)) (\<lambda>t.
     bind_res (resolve_secret user user_stdin ''TURN username'' con) (\<lambda>(tu, con).
     bind_res (resolve_secret pass pass_stdin ''TURN password'' con) (\<lambda>(tp, con).
     Ok ((''probing '' @ t_host t @ '' (turns)'',
          (target_ctx t)\<lparr>turn_user := tu, turn_pass := tp\<rparr>, turns_suite c name_ok), con))))"

definition ws_scheme_ok :: "string \<Rightarrow> bool" where
  "ws_scheme_ok url \<longleftrightarrow> starts_with url ''ws://'' \<or> starts_with url ''wss://''"

text \<open>The check for a URL, with the header when there is one.\<close>

definition signaling_for :: "string \<Rightarrow> string option \<Rightarrow> signaling" where
  "signaling_for url auth =
     (let sig = signaling_new url in case auth of Some h \<Rightarrow> with_auth_header sig h | None \<Rightarrow> sig)"

definition signaling_command ::
  "web \<Rightarrow> string \<Rightarrow> string option \<Rightarrow> bool \<Rightarrow> console \<Rightarrow> (string, prepared \<times> console) res"
where
  "signaling_command web url auth_header auth_header_stdin con =
     (if \<not> ws_scheme_ok url then
        Err (''signaling expects a ws:// or wss:// URL, got '' @ backquote url @ '' (example: ''
               @ backquote ''wss://signal.example.com/'' @ '')'')
      else
        bind_res (ok_or (host_from_url web url) (''could not parse host from '' @ backquote url)) (\<lambda>host.
        bind_res (resolve_secret auth_header auth_header_stdin ''Authorization header'' con) (\<lambda>(auth, con).
        Ok ((''probing '' @ host @ '' (signaling)'', ctx_new\<lparr>ctx_host := Some host\<rparr>,
             signaling_suite web (signaling_for url auth)), con))))"

definition dtls_command :: "dtls_lib \<Rightarrow> string option \<Rightarrow> (string, prepared) res" where
  "dtls_command lib target =
     (case target of
        Some t \<Rightarrow>
          bind_res (map_err (\<lambda>e. ''dtls target must be '' @ backquote ''host:port'' @ '', got '' @ backquote t @ '' ('' @ e @ '')'')
                      (parse_host_port t)) (\<lambda>(host, port).
          Ok (''probing '' @ host @ '':'' @ show_word port @ '' (dtls)'',
              ctx_new\<lparr>ctx_host := Some host, ctx_port := Some port\<rparr>, dtls_suite lib))
      | None \<Rightarrow> Ok (''dtls loopback (in-process)'', ctx_new, loopback_suite lib))"

text \<open>\<open>dtls --serve\<close>: two notices on stderr, then the test peer.  It returns only when the set-up
  fails; otherwise the loop of the test peer runs.\<close>

definition serve_command :: "dtls_lib \<Rightarrow> string \<Rightarrow> console \<Rightarrow> (string, sockaddr) res" where
  "serve_command lib bind con =
     bind_res (ok_or (parse_sock bind)
        (''--bind expects an addr:port, got '' @ backquote bind @ '' (invalid socket address syntax)'')) (\<lambda>bind_addr.
     bind_res (eprint con) (\<lambda>con.
     bind_res (eprint con) (\<lambda>con.
     map_err (\<lambda>e. ''serve failed: '' @ e) (serve_start lib bind_addr))))"

section \<open>The full suite\<close>

record full_args =
  fa_stun :: "string option"
  fa_turn :: "string option"
  fa_turns :: "string option"
  fa_signaling :: "string option"
  fa_user :: "string option"
  fa_pass :: "string option"
  fa_user_stdin :: bool
  fa_pass_stdin :: bool
  fa_auth_header :: "string option"
  fa_auth_header_stdin :: bool
  fa_echo_count :: u32

text \<open>Secrets are read before anything runs, in a fixed order.\<close>

definition full_secrets ::
  "full_args \<Rightarrow> console \<Rightarrow> (string, (string option \<times> string option \<times> string option) \<times> console) res"
where
  "full_secrets a con =
     bind_res (resolve_secret (fa_user a) (fa_user_stdin a) ''TURN username'' con) (\<lambda>(tu, con).
     bind_res (resolve_secret (fa_pass a) (fa_pass_stdin a) ''TURN password'' con) (\<lambda>(tp, con).
     bind_res (resolve_secret (fa_auth_header a) (fa_auth_header_stdin a) ''Authorization header'' con) (\<lambda>(auth, con).
     Ok ((tu, tp, auth), con))))"

text \<open>One block: nothing without a URL; else part of the header line, context and pipeline, which is run.\<close>

type_synonym full_state = "string list \<times> check_result list \<times> world"

definition full_block ::
  "string option \<Rightarrow> (string \<Rightarrow> (string, prepared) res) \<Rightarrow> full_state \<Rightarrow> (string \<times> world, full_state) res"
where
  "full_block url prepare st =
     (case url of
        None \<Rightarrow> Ok st
      | Some u \<Rightarrow>
          (case st of (parts, rs, w) \<Rightarrow>
             bind_res (map_err (\<lambda>e. (e, w)) (prepare u)) (\<lambda>(part, ctx, pipeline).
             (case pipeline_run pipeline ctx w of
                Ok (rep, _, w') \<Rightarrow> Ok (parts @ [part], rs @ results rep, w')
              | _ \<Rightarrow> Panic))))"

definition full_signaling :: "web \<Rightarrow> string option \<Rightarrow> string \<Rightarrow> (string, prepared) res" where
  "full_signaling web auth url =
     (if \<not> ws_scheme_ok url then Err (''--signaling expects a ws:// or wss:// URL, got '' @ backquote url)
      else
        bind_res (ok_or (host_from_url web url) (''could not parse host from --signaling '' @ backquote url)) (\<lambda>host.
        Ok (''signaling '' @ host, ctx_new\<lparr>ctx_host := Some host\<rparr>, signaling_suite web (signaling_for url auth))))"

definition full_stun :: "string \<Rightarrow> (string, prepared) res" where
  "full_stun url =
     bind_res (map_err show_target_error (parse_stun_like url [''stun''] 3478)) (\<lambda>t.
     Ok (''stun '' @ t_host t, target_ctx t, stun_suite))"

definition full_turn :: "crypto \<Rightarrow> string option \<Rightarrow> string option \<Rightarrow> u32 \<Rightarrow> string \<Rightarrow> (string, prepared) res" where
  "full_turn c tu tp count url =
     bind_res (map_err show_target_error (parse_stun_like url [''turn''] 3478)) (\<lambda>t.
     Ok (''turn '' @ t_host t, (target_ctx t)\<lparr>turn_user := tu, turn_pass := tp, echo_count := count\<rparr>, turn_suite c))"

definition full_turns ::
  "crypto \<Rightarrow> (string \<Rightarrow> bool) \<Rightarrow> string option \<Rightarrow> string option \<Rightarrow> string \<Rightarrow> (string, prepared) res"
where
  "full_turns c name_ok tu tp url =
     bind_res (map_err show_target_error (parse_stun_like url [''turns''] 5349)) (\<lambda>t.
     Ok (''turns '' @ t_host t, (target_ctx t)\<lparr>turn_user := tu, turn_pass := tp\<rparr>, turns_suite c name_ok))"

definition run_full ::
  "crypto \<Rightarrow> (string \<Rightarrow> bool) \<Rightarrow> web \<Rightarrow> full_args \<Rightarrow> console \<Rightarrow> world \<Rightarrow> (string \<times> world, string \<times> report \<times> world) res"
where
  "run_full c name_ok web a con w =
     (if fa_stun a = None \<and> fa_turn a = None \<and> fa_turns a = None \<and> fa_signaling a = None then
        Err (backquote ''full'' @ '' needs at least one of --stun / --turn / --turns / --signaling'', w)
      else
        bind_res (map_err (\<lambda>e. (e, w)) (full_secrets a con)) (\<lambda>((tu, tp, auth), con).
        let (started, w) = instant_now w in
        bind_res (full_block (fa_signaling a) (full_signaling web auth) ([], [], w)) (\<lambda>st.
        bind_res (full_block (fa_stun a) full_stun st) (\<lambda>st.
        bind_res (full_block (fa_turn a) (full_turn c tu tp (fa_echo_count a)) st) (\<lambda>st.
        bind_res (full_block (fa_turns a) (full_turns c name_ok tu tp) st) (\<lambda>(parts, rs, w).
        let (ms, w) = elapsed_ms started w in
        Ok (''probing '' @ join '' + '' parts @ '' (full)'', \<lparr>results = rs, total_ms = ms\<rparr>, w)))))))"

section \<open>The pipelines keep the contract of their checks\<close>

interpretation turns_suite: probe_suite "turns_suite c ok" for c ok
proof (rule probe_suite.intro)
  fix d assume "d \<in> set (turns_suite c ok)"
  then show "check_contract d"
    using dns.check_contract_axioms turns_alloc.check_contract_axioms by (auto simp: turns_suite_checks)
qed

interpretation signaling_suite: probe_suite "signaling_suite web s" for web s
proof (rule probe_suite.intro)
  fix d assume "d \<in> set (signaling_suite web s)"
  then show "check_contract d"
    using dns.check_contract_axioms signaling.check_contract_axioms by (auto simp: signaling_suite_checks)
qed

interpretation dtls_suite: probe_suite "dtls_suite lib" for lib
proof (rule probe_suite.intro)
  fix d assume "d \<in> set (dtls_suite lib)"
  then show "check_contract d"
    using dns.check_contract_axioms dtls_remote.check_contract_axioms by (auto simp: dtls_suite_checks)
qed

interpretation loopback_suite: probe_suite "loopback_suite lib" for lib
proof (rule probe_suite.intro)
  fix d assume "d \<in> set (loopback_suite lib)"
  then show "check_contract d"
    using dtls_loopback.check_contract_axioms by (auto simp: loopback_suite_checks)
qed

section \<open>Lemmas: \<open>full\<close> as a plan of pipelines\<close>

text \<open>The reference: what each given URL prepares, in the order of the blocks, and running them all.\<close>

definition full_plan ::
  "crypto \<Rightarrow> (string \<Rightarrow> bool) \<Rightarrow> web \<Rightarrow> full_args \<Rightarrow> string option \<times> string option \<times> string option
     \<Rightarrow> (string, prepared) res list"
where
  "full_plan c name_ok web a secrets =
     (case secrets of (tu, tp, auth) \<Rightarrow>
        map (full_signaling web auth) (case fa_signaling a of None \<Rightarrow> [] | Some u \<Rightarrow> [u])
      @ map full_stun (case fa_stun a of None \<Rightarrow> [] | Some u \<Rightarrow> [u])
      @ map (full_turn c tu tp (fa_echo_count a)) (case fa_turn a of None \<Rightarrow> [] | Some u \<Rightarrow> [u])
      @ map (full_turns c name_ok tu tp) (case fa_turns a of None \<Rightarrow> [] | Some u \<Rightarrow> [u]))"

primrec run_all :: "prepared list \<Rightarrow> world \<Rightarrow> report list \<times> world" where
  "run_all [] w = ([], w)"
| "run_all (p # ps) w =
     (case p of (_, ctx, pipeline) \<Rightarrow>
        case pipeline_run pipeline ctx w of
          Ok (rep, _, w') \<Rightarrow> (case run_all ps w' of (reps, w'') \<Rightarrow> (rep # reps, w''))
        | _ \<Rightarrow> ([], w))"

text \<open>The blocks one after the other, on a list.\<close>

fun run_plan :: "(string, prepared) res list \<Rightarrow> full_state \<Rightarrow> (string \<times> world, full_state) res" where
  "run_plan [] st = Ok st"
| "run_plan (p # ps) st = bind_res (full_block (Some '''') (\<lambda>_. p) st) (run_plan ps)"

lemma run_plan_append: "run_plan (ps @ qs) st = bind_res (run_plan ps st) (run_plan qs)"
proof (induction ps arbitrary: st)
  case (Cons p ps)
  then have "run_plan (ps @ qs) = (\<lambda>st. bind_res (run_plan ps st) (run_plan qs))" by (intro ext)
  then show ?case by (simp add: bind_res_assoc)
qed simp

lemma full_block_plan:
  "full_block url f st = run_plan (map f (case url of None \<Rightarrow> [] | Some u \<Rightarrow> [u])) st"
proof -
  have "bind_res r Ok = r" for r :: "(string \<times> world, full_state) res" by (cases r) simp_all
  moreover have "run_plan [] = Ok" by (rule ext) simp
  ultimately show ?thesis by (cases url) (simp_all add: full_block_def)
qed

lemma run_full_plan:
  assumes "\<not> (fa_stun a = None \<and> fa_turn a = None \<and> fa_turns a = None \<and> fa_signaling a = None)"
    and "full_secrets a con = Ok (secrets, rest)" and "instant_now w = (started, w0)"
  shows "run_full c ok web a con w = bind_res (run_plan (full_plan c ok web a secrets) ([], [], w0)) (\<lambda>(parts, rs, w1).
     Ok (''probing '' @ join '' + '' parts @ '' (full)'',
         \<lparr>results = rs, total_ms = fst (elapsed_ms started w1)\<rparr>, snd (elapsed_ms started w1)))"
proof -
  obtain tu tp auth where s: "secrets = (tu, tp, auth)" by (cases secrets)
  show ?thesis using assms
    by (simp only: run_full_def if_False s full_plan_def prod.case run_plan_append full_block_plan bind_res_assoc
        map_err.simps bind_res.simps Let_def case_prod_beta fst_conv snd_conv)
qed

definition plan_ok :: "(string, prepared) res \<Rightarrow> bool" where
  "plan_ok p \<longleftrightarrow> p \<noteq> Panic \<and> (\<forall>part ctx cs. p = Ok (part, ctx, cs) \<longrightarrow> probe_suite cs)"

lemma prepare_ok:
  "plan_ok (full_signaling web auth u)" "plan_ok (full_stun u)" "plan_ok (full_turn c tu tp n u)"
  "plan_ok (full_turns c ok tu tp u)"
proof -
  note ps = signaling_suite.probe_suite_axioms stun_suite.probe_suite_axioms turn_suite.probe_suite_axioms
    turns_suite.probe_suite_axioms
  have p: "parse_stun_like u al d \<noteq> Panic" for al d by (rule parse_stun_like_no_panic)
  show "plan_ok (full_signaling web auth u)"
    using ps by (cases "host_from_url web u") (auto simp: plan_ok_def full_signaling_def)
  show "plan_ok (full_stun u)"
    using ps p by (cases "parse_stun_like u [''stun''] 3478") (auto simp: plan_ok_def full_stun_def)
  show "plan_ok (full_turn c tu tp n u)"
    using ps p by (cases "parse_stun_like u [''turn''] 3478") (auto simp: plan_ok_def full_turn_def)
  show "plan_ok (full_turns c ok tu tp u)"
    using ps p by (cases "parse_stun_like u [''turns''] 5349") (auto simp: plan_ok_def full_turns_def)
qed

lemma full_plan_ok: "p \<in> set (full_plan c ok web a secrets) \<Longrightarrow> plan_ok p"
  by (auto simp: full_plan_def prepare_ok split: prod.splits option.splits)

text \<open>A plan of well-formed URLs runs every pipeline; the first malformed one ends it.\<close>

lemma run_plan_all:
  assumes "\<forall>p \<in> set ps. probe_suite (snd (snd p))" and "run_all ps w = (reps, w')"
  shows "run_plan (map Ok ps) (parts, rs, w) = Ok (parts @ map fst ps, rs @ concat (map results reps), w')
    \<and> length reps = length ps \<and> later w w'
    \<and> map (map r_id \<circ> results) reps = map (map c_id \<circ> snd \<circ> snd) ps"
  using assms
proof (induction ps arbitrary: parts rs w reps)
  case (Cons p ps)
  obtain part ctx cs where p: "p = (part, ctx, cs)" by (cases p)
  have "probe_suite cs" using Cons.prems(1) p by simp
  then obtain rep ctx' w1 where 1: "pipeline_run cs ctx w = Ok (rep, ctx', w1)"
    "map r_id (results rep) = map c_id cs" "later w w1"
    using probe_suite.pipeline_ends by blast
  obtain reps1 w2 where 2: "run_all ps w1 = (reps1, w2)" by fastforce
  have "reps = rep # reps1" "w' = w2" using Cons.prems(2) p 1 2 by simp_all
  then show ?case using Cons.IH [of w1 reps1 "parts @ [part]" "rs @ results rep"] Cons.prems(1) 1 2 p
    by (auto simp: full_block_def intro: later_trans)
qed simp

lemma run_plan_error:
  assumes "\<forall>p \<in> set ps. probe_suite (snd (snd p))"
  shows "run_plan (map Ok ps @ Err e # qs) (parts, rs, w) = Err (e, snd (run_all ps w))"
proof -
  obtain reps w' where "run_all ps w = (reps, w')" by fastforce
  with run_plan_all [OF assms this, of parts rs] show ?thesis by (simp add: run_plan_append full_block_def)
qed

lemma plan_split:
  assumes "\<forall>p \<in> set plan. p \<noteq> Panic"
  obtains ps where "plan = map Ok ps" | ps e qs where "plan = map Ok ps @ Err e # qs"
proof -
  have "(\<exists>ps. plan = map Ok ps) \<or> (\<exists>ps e qs. plan = map Ok ps @ Err e # qs)" using assms
  proof (induction plan)
    case (Cons p plan)
    then have IH: "(\<exists>ps. plan = map Ok ps) \<or> (\<exists>ps e qs. plan = map Ok ps @ Err e # qs)" by simp
    show ?case
    proof (cases p)
      case (Ok x)
      then show ?thesis using IH by (metis append_Cons list.simps(9))
    next
      case (Err e)
      then show ?thesis by (metis append_Nil list.simps(8))
    qed (use Cons.prems in simp)
  qed simp
  with that show thesis by blast
qed

lemma fold_max_from: "fold max xs a = max a (fold max xs Healthy)" for a :: verdict
  using fold_max_append [of "[a]" xs Healthy] by (simp add: max.absorb1)

lemma verdict_concat:
  "report_verdict \<lparr>results = concat (map results reps), total_ms = t\<rparr> = fold max (map report_verdict reps) Healthy"
proof (induction reps)
  case (Cons rep reps)
  let ?h = "\<lambda>rs. fold max (map (severity \<circ> r_status) rs) Healthy"
  have v: "report_verdict rep = ?h (results rep)" for rep by (simp add: report_verdict_def verdict_loop_max)
  have "?h (concat (map results (rep # reps))) = max (?h (results rep)) (?h (concat (map results reps)))"
    by (simp add: fold_max_from [of _ "?h (results rep)"])
  moreover have "fold max (map report_verdict (rep # reps)) Healthy
      = max (report_verdict rep) (fold max (map report_verdict reps) Healthy)"
    by (simp add: fold_max_from [of _ "report_verdict rep"])
  ultimately show ?case
    using Cons v [of "\<lparr>results = concat (map results reps), total_ms = t\<rparr>"] v [of rep]
      v [of "\<lparr>results = concat (map results (rep # reps)), total_ms = t\<rparr>"]
    by (simp only: report.select_convs)
qed (simp add: report_verdict_def)

lemma prepare_ids:
  "full_signaling web auth u = Ok p \<Longrightarrow> map c_id (snd (snd p)) = [dns_id, signaling_id]"
  "full_stun u = Ok p \<Longrightarrow> map c_id (snd (snd p)) = [dns_id, stun_id]"
  "full_turn c tu tp n u = Ok p \<Longrightarrow> map c_id (snd (snd p)) = [dns_id, stun_id, turn_alloc_id, echo_id]"
  "full_turns c ok tu tp u = Ok p \<Longrightarrow> map c_id (snd (snd p)) = [dns_id, turns_id]"
  by (auto simp: full_signaling_def full_stun_def full_turn_def full_turns_def bind_res_eq_Ok
      signaling_suite_checks stun_suite_checks turn_suite_checks turns_suite_checks dns_check_def signaling_check_def stun_check_def
      turn_alloc_check_def turn_echo_check_def turns_alloc_check_def split: if_splits)

fun plan_entry_ids :: "(string, prepared) res \<Rightarrow> string list" where
  "plan_entry_ids (Ok p) = map c_id (snd (snd p))"
| "plan_entry_ids _ = []"

lemma plan_segment:
  assumes "\<forall>p \<in> set (map f (case url of None \<Rightarrow> [] | Some u \<Rightarrow> [u])). \<exists>x. p = Ok x"
    and "\<And>u x. f u = Ok x \<Longrightarrow> map c_id (snd (snd x)) = ids"
  shows "map plan_entry_ids (map f (case url of None \<Rightarrow> [] | Some u \<Rightarrow> [u])) = (if url = None then [] else [ids])"
  using assms by (cases url) auto

lemma plan_ids:
  assumes "full_plan c ok web a secrets = map Ok ps"
  shows "map (map c_id \<circ> snd \<circ> snd) ps =
      (if fa_signaling a = None then [] else [[dns_id, signaling_id]])
      @ (if fa_stun a = None then [] else [[dns_id, stun_id]])
      @ (if fa_turn a = None then [] else [[dns_id, stun_id, turn_alloc_id, echo_id]])
      @ (if fa_turns a = None then [] else [[dns_id, turns_id]])"
proof -
  obtain tu tp auth where s: "secrets = (tu, tp, auth)" by (cases secrets)
  have ok: "\<forall>p \<in> set (full_plan c ok web a secrets). \<exists>x. p = Ok x" using assms by auto
  have "map plan_entry_ids (full_plan c ok web a secrets) =
      (if fa_signaling a = None then [] else [[dns_id, signaling_id]])
      @ (if fa_stun a = None then [] else [[dns_id, stun_id]])
      @ (if fa_turn a = None then [] else [[dns_id, stun_id, turn_alloc_id, echo_id]])
      @ (if fa_turns a = None then [] else [[dns_id, turns_id]])"
    using ok unfolding s full_plan_def prod.case map_append set_append ball_Un
    by (intro arg_cong2 [of _ _ _ _ append] plan_segment) (blast, rule prepare_ids, assumption)+
  moreover have "map plan_entry_ids (map Ok ps) = map (map c_id \<circ> snd \<circ> snd) ps" by simp
  ultimately show ?thesis using assms by simp
qed

text \<open>With room on stderr for three prompts the secrets are read without a panic.\<close>

lemma full_secrets_no_panic:
  assumes "con_tty con \<longrightarrow> room (con_err con) 3"
  shows "full_secrets a con \<noteq> Panic"
proof
  have r: "con_tty con \<longrightarrow> room (con_err con) (Suc (Suc (Suc 0)))" using assms by (simp add: numeral_eq_Suc)
  assume "full_secrets a con = Panic"
  then consider "resolve_secret (fa_user a) (fa_user_stdin a) ''TURN username'' con = Panic"
    | tu con1 where "resolve_secret (fa_user a) (fa_user_stdin a) ''TURN username'' con = Ok (tu, con1)"
        "resolve_secret (fa_pass a) (fa_pass_stdin a) ''TURN password'' con1 = Panic"
    | tu con1 tp con2 where "resolve_secret (fa_user a) (fa_user_stdin a) ''TURN username'' con = Ok (tu, con1)"
        "resolve_secret (fa_pass a) (fa_pass_stdin a) ''TURN password'' con1 = Ok (tp, con2)"
        "resolve_secret (fa_auth_header a) (fa_auth_header_stdin a) ''Authorization header'' con2 = Panic"
    unfolding full_secrets_def by (auto simp: bind_res_eq_Panic)
  then show False
  proof cases
    case 1
    then show ?thesis using resolve_secret_room(1) [OF r] by simp
  next
    case 2
    then show ?thesis using resolve_secret_room(1) resolve_secret_room(2) [OF r 2(1)] by blast
  next
    case 3
    then show ?thesis using resolve_secret_room(1) resolve_secret_room(2) [OF _ 3(2)] resolve_secret_room(2) [OF r 3(1)] by blast
  qed
qed

lemma full_runs:
  assumes "fa_stun a \<noteq> None \<or> fa_turn a \<noteq> None \<or> fa_turns a \<noteq> None \<or> fa_signaling a \<noteq> None"
    and "full_secrets a con = Ok (secrets, rest)"
    and "full_plan c ok web a secrets = map Ok ps" and "instant_now w = (started, w0)"
  shows "\<exists>reps w1 rep. run_all ps w0 = (reps, w1)
     \<and> run_full c ok web a con w
         = Ok (''probing '' @ join '' + '' (map fst ps) @ '' (full)'', rep, snd (elapsed_ms started w1))
     \<and> results rep = concat (map results reps)
     \<and> report_verdict rep = fold max (map report_verdict reps) Healthy
     \<and> map r_id (results rep) =
         (if fa_signaling a = None then [] else [dns_id, signaling_id])
         @ (if fa_stun a = None then [] else [dns_id, stun_id])
         @ (if fa_turn a = None then [] else [dns_id, stun_id, turn_alloc_id, echo_id])
         @ (if fa_turns a = None then [] else [dns_id, turns_id])"
proof -
  obtain reps w1 where r: "run_all ps w0 = (reps, w1)" by fastforce
  have "probe_suite (snd (snd p))" if "p \<in> set ps" for p
    using full_plan_ok [of "Ok p" c ok web a secrets] that assms(3) by (cases p) (auto simp: plan_ok_def)
  then have run: "run_plan (map Ok ps) ([], [], w0) = Ok (map fst ps, concat (map results reps), w1)"
    and ids: "map (map r_id \<circ> results) reps = map (map c_id \<circ> snd \<circ> snd) ps"
    using run_plan_all [OF _ r, of "[]" "[]"] by auto
  let ?rep = "\<lparr>results = concat (map results reps), total_ms = fst (elapsed_ms started w1)\<rparr>"
  have "\<not> (fa_stun a = None \<and> fa_turn a = None \<and> fa_turns a = None \<and> fa_signaling a = None)" using assms(1) by blast
  from run_full_plan [OF this assms(2,4)] have
    "run_full c ok web a con w = Ok (''probing '' @ join '' + '' (map fst ps) @ '' (full)'', ?rep, snd (elapsed_ms started w1))"
    by (simp only: assms(3) run bind_res.simps prod.case)
  moreover have "map r_id (results ?rep) = concat (map (map c_id \<circ> snd \<circ> snd) ps)"
    using ids by (simp add: map_concat comp_def)
  moreover have "map (map c_id \<circ> snd \<circ> snd) ps =
      (if fa_signaling a = None then [] else [[dns_id, signaling_id]])
      @ (if fa_stun a = None then [] else [[dns_id, stun_id]])
      @ (if fa_turn a = None then [] else [[dns_id, stun_id, turn_alloc_id, echo_id]])
      @ (if fa_turns a = None then [] else [[dns_id, turns_id]])"
    by (rule plan_ids [OF assms(3)])
  ultimately show ?thesis using r verdict_concat [of reps] by (intro exI conjI) (assumption | simp)+
qed

definition no_url :: "full_args \<Rightarrow> bool" where
  "no_url a \<longleftrightarrow> fa_stun a = None \<and> fa_turn a = None \<and> fa_turns a = None \<and> fa_signaling a = None"

lemma full_no_url:
  "no_url a \<Longrightarrow> run_full c ok web a con w
     = Err (backquote ''full'' @ '' needs at least one of --stun / --turn / --turns / --signaling'', w)"
  by (simp add: run_full_def no_url_def)

lemma full_no_secret:
  "\<not> no_url a \<Longrightarrow> full_secrets a con = Err e \<Longrightarrow> run_full c ok web a con w = Err (e, w)"
  "\<not> no_url a \<Longrightarrow> full_secrets a con = Panic \<Longrightarrow> run_full c ok web a con w = Panic"
  unfolding no_url_def run_full_def by (simp_all only: if_False map_err.simps bind_res.simps)

lemma full_late:
  assumes "\<not> no_url a"
    and "full_secrets a con = Ok (secrets, rest)" and "full_plan c ok web a secrets = map Ok ps @ Err e # qs"
    and "instant_now w = (started, w0)"
  shows "run_full c ok web a con w = Err (e, snd (run_all ps w0))
    \<and> map (map r_id \<circ> results) (fst (run_all ps w0)) = map (map c_id \<circ> snd \<circ> snd) ps"
proof -
  have "plan_ok (Ok p)" if "p \<in> set ps" for p
    by (rule full_plan_ok [of _ c ok web a secrets]) (use that assms(3) in simp)
  then have ps: "\<forall>p \<in> set ps. probe_suite (snd (snd p))" by (fastforce simp: plan_ok_def)
  note run = run_plan_error [OF ps, of e qs "[]" "[]" w0]
  obtain reps w1 where "run_all ps w0 = (reps, w1)" by fastforce
  with run_plan_all [OF ps this] show ?thesis
    by (simp only: run_full_plan [OF assms(1) [unfolded no_url_def] assms(2,4)] assms(3) run bind_res.simps) simp
qed

text \<open>How \<open>full\<close> ends.\<close>

lemma run_full_ends:
  obtains (no_url) "no_url a"
  | (no_secret) e where "\<not> no_url a" and "full_secrets a con = Err e"
  | (refused) "\<not> no_url a" and "full_secrets a con = Panic"
  | (malformed) secrets rest ps e qs where "\<not> no_url a" and "full_secrets a con = Ok (secrets, rest)"
      and "full_plan c ok web a secrets = map Ok ps @ Err e # qs"
  | (report) header rep w' where "run_full c ok web a con w = Ok (header, rep, w')" and "later w w'"
      and "map r_id (results rep) =
         (if fa_signaling a = None then [] else [dns_id, signaling_id])
         @ (if fa_stun a = None then [] else [dns_id, stun_id])
         @ (if fa_turn a = None then [] else [dns_id, stun_id, turn_alloc_id, echo_id])
         @ (if fa_turns a = None then [] else [dns_id, turns_id])"
proof (cases "no_url a")
  case False
  show thesis
  proof (cases "full_secrets a con")
    case (Ok s)
    obtain secrets rest where go: "full_secrets a con = Ok (secrets, rest)" using Ok by (cases s) blast
    obtain started w0 where i: "instant_now w = (started, w0)" by fastforce
    have "\<forall>p \<in> set (full_plan c ok web a secrets). p \<noteq> Panic" using full_plan_ok by (auto simp: plan_ok_def)
    then show thesis
    proof (cases rule: plan_split)
      case (1 ps)
      have url: "fa_stun a \<noteq> None \<or> fa_turn a \<noteq> None \<or> fa_turns a \<noteq> None \<or> fa_signaling a \<noteq> None"
        using False by (simp add: no_url_def)
      obtain reps w1 rep header where run: "run_all ps w0 = (reps, w1)"
          "run_full c ok web a con w = Ok (header, rep, snd (elapsed_ms started w1))"
        and ids: "map r_id (results rep) =
         (if fa_signaling a = None then [] else [dns_id, signaling_id])
         @ (if fa_stun a = None then [] else [dns_id, stun_id])
         @ (if fa_turn a = None then [] else [dns_id, stun_id, turn_alloc_id, echo_id])
         @ (if fa_turns a = None then [] else [dns_id, turns_id])"
        using full_runs [OF url go 1 i] by blast
      have "plan_ok (Ok p)" if "p \<in> set ps" for p
        by (rule full_plan_ok [of _ c ok web a secrets]) (use that 1 in simp)
      then have "\<forall>p \<in> set ps. probe_suite (snd (snd p))" by (fastforce simp: plan_ok_def)
      from run_plan_all [OF this run(1)] have "later w0 w1" by blast
      then have "later w (snd (elapsed_ms started w1))"
        using instant_now_step [OF i] elapsed_ms_step [of started w1] by (cases "elapsed_ms started w1") (auto simp: later_def)
      then show thesis using report [OF run(2)] ids by blast
    next
      case (2 ps e qs)
      show thesis by (rule malformed [OF False go 2])
    qed
  qed (use False no_secret refused in blast)+
qed (use no_url in blast)

lemma full_late_panic: "con_tty con \<longrightarrow> room (con_err con) 3 \<Longrightarrow> run_full c ok web a con w \<noteq> Panic"
proof (cases rule: run_full_ends [where a = a and con = con and c = c and ok = ok and web = web and w = w])
  case (malformed secrets rest ps e qs)
  then show ?thesis using full_late [OF malformed surjective_pairing, of w] by simp
qed (simp_all add: full_no_url full_no_secret full_secrets_no_panic)

lemma serve_command_no_panic:
  assumes "room (con_err con) 2"
  shows "serve_command lib bind con \<noteq> Panic"
proof -
  obtain con1 where 1: "eprint con = Ok con1" "room (con_err con1) 1"
    using eprint_room [of con 1] assms by (auto simp: numeral_eq_Suc)
  obtain con2 where 2: "eprint con1 = Ok con2" using eprint_room [of con1 0] 1(2) by auto
  have "serve_start lib a \<noteq> Panic" for a by (simp add: serve_start_def split: option.splits sum.splits)
  with 1 2 show ?thesis by (auto simp: serve_command_def res_simps)
qed

section \<open>Properties\<close>

text \<open>C15: \<open>full\<close> with well-formed URLs runs the pipelines of the given URLs, and only those, in the order
  signaling, STUN, TURN, TURNS, each on a context of its own; its report is the concatenation of their
  results, one per check, and its verdict the worst of their verdicts.\<close>

theorem full_runs_all:
  assumes "fa_stun a \<noteq> None \<or> fa_turn a \<noteq> None \<or> fa_turns a \<noteq> None \<or> fa_signaling a \<noteq> None"
    and "full_secrets a con = Ok (secrets, rest)"
    and "full_plan c ok web a secrets = map Ok ps" and "instant_now w = (started, w0)"
  shows "\<exists>reps w1 rep. run_all ps w0 = (reps, w1)
     \<and> run_full c ok web a con w
         = Ok (''probing '' @ join '' + '' (map fst ps) @ '' (full)'', rep, snd (elapsed_ms started w1))
     \<and> results rep = concat (map results reps)
     \<and> report_verdict rep = fold max (map report_verdict reps) Healthy
     \<and> map r_id (results rep) =
         (if fa_signaling a = None then [] else [dns_id, signaling_id])
         @ (if fa_stun a = None then [] else [dns_id, stun_id])
         @ (if fa_turn a = None then [] else [dns_id, stun_id, turn_alloc_id, echo_id])
         @ (if fa_turns a = None then [] else [dns_id, turns_id])"
  by (rule full_runs [OF assms])

text \<open>C22: When \<open>full\<close> fails, exactly: for want of a URL, or of a secret, with nothing run; or at the first
  malformed URL in the order of the blocks, with the error of that URL, when the pipelines of the URLs before
  it, and only those, have been run to their last check, with all their effects, and their results are
  lost.  It panics only when stderr refuses a prompt, before anything is run: never with stderr taking
  three prompts, or when stdin is not a terminal.\<close>

theorem full_late_error:
  "(run_full c ok web a con w = Err (e, w') \<longleftrightarrow>
       no_url a \<and> e = backquote ''full'' @ '' needs at least one of --stun / --turn / --turns / --signaling'' \<and> w' = w
     \<or> \<not> no_url a \<and> full_secrets a con = Err e \<and> w' = w
     \<or> \<not> no_url a \<and> (\<exists>secrets rest ps qs. full_secrets a con = Ok (secrets, rest)
         \<and> full_plan c ok web a secrets = map Ok ps @ Err e # qs \<and> w' = snd (run_all ps (snd (instant_now w)))
         \<and> map (map r_id \<circ> results) (fst (run_all ps (snd (instant_now w)))) = map (map c_id \<circ> snd \<circ> snd) ps))
   \<and> (run_full c ok web a con w = Panic \<longleftrightarrow> \<not> no_url a \<and> full_secrets a con = Panic)
   \<and> ((con_tty con \<longrightarrow> room (con_err con) 3) \<longrightarrow> run_full c ok web a con w \<noteq> Panic)" (is "(?run = _ \<longleftrightarrow> ?none \<or> ?secret \<or> ?url) \<and> _")
proof -
  have "instant_now w = (fst (instant_now w), snd (instant_now w))" by simp
  note late = full_late [OF _ _ _ this]
  have "?run = Err (e, w')" if "?none \<or> ?secret \<or> ?url"
    using that full_no_url [of a] full_no_secret(1) [of a con e] late [of a con] by (elim disjE exE conjE) simp_all
  moreover have "?none \<or> ?secret \<or> ?url" if r: "?run = Err (e, w')"
  proof (cases rule: run_full_ends [where a = a and con = con and c = c and ok = ok and web = web and w = w])
    case no_url
    then show ?thesis using r by (simp add: full_no_url)
  next
    case (malformed secrets rest ps e' qs)
    then show ?thesis using late [OF malformed] r by auto
  qed (use r in \<open>simp_all add: full_no_secret\<close>)
  moreover have p: "?run = Panic \<longleftrightarrow> \<not> no_url a \<and> full_secrets a con = Panic"
  proof (cases rule: run_full_ends [where a = a and con = con and c = c and ok = ok and web = web and w = w])
    case (malformed secrets rest ps e' qs)
    then show ?thesis using late [OF malformed] by simp
  next
    case (report header rep w')
    then show ?thesis using full_no_secret(2) [where a = a and con = con and c = c and ok = ok and web = web and w = w] by auto
  qed (simp_all add: full_no_url full_no_secret)
  moreover have "(con_tty con \<longrightarrow> room (con_err con) 3) \<longrightarrow> ?run \<noteq> Panic"
    using full_secrets_no_panic p by blast
  ultimately show ?thesis by blast
qed

definition example_full :: full_args where
  "example_full = \<lparr>fa_stun = Some ''stun:h'', fa_turn = None, fa_turns = None, fa_signaling = None,
     fa_user = None, fa_pass = None, fa_user_stdin = False, fa_pass_stdin = False,
     fa_auth_header = None, fa_auth_header_stdin = False, fa_echo_count = 10\<rparr>"

definition example_prepared :: prepared where
  "example_prepared = (''stun h'', target_ctx \<lparr>t_host = ''h'', t_port = 3478\<rparr>, stun_suite)"

lemma example_full_stun: "full_stun ''stun:h'' = Ok example_prepared"
proof -
  have "to_ascii_lowercase ''stun'' = ''stun''" by (simp add: to_ascii_lowercase_def ascii_lower_def)
  then show ?thesis by (simp add: full_stun_def parse_stun_like_def example_prepared_def Let_def)
qed

theorem full_runs_all_witness:
  "\<exists>rep w'. run_full zero_crypto (\<lambda>_. True) lenient_web example_full example_console quiet_world
       = Ok (''probing stun h (full)'', rep, w')
     \<and> map r_id (results rep) = [dns_id, stun_id]"
proof -
  obtain t w0 where i: "instant_now quiet_world = (t, w0)" by fastforce
  have sec: "full_secrets example_full example_console = Ok ((None, None, None), example_console)"
    by (simp add: full_secrets_def example_full_def resolve_secret_def)
  have plan: "full_plan zero_crypto (\<lambda>_. True) lenient_web example_full (None, None, None) = map Ok [example_prepared]"
    by (simp add: full_plan_def example_full_def example_full_stun)
  have urls: "fa_stun example_full \<noteq> None" "fa_turn example_full = None" "fa_turns example_full = None"
    "fa_signaling example_full = None" by (simp_all add: example_full_def)
  have "join '' + '' (map fst [example_prepared]) = ''stun h''" by (simp add: example_prepared_def)
  moreover note full_runs_all [OF disjI1 [OF urls(1)] sec plan i, unfolded
      if_not_P [OF urls(1)] if_P [OF urls(2)] if_P [OF urls(3)] if_P [OF urls(4)] append_Nil append_Nil2]
  ultimately show ?thesis by (elim exE conjE) (intro exI conjI, simp only: append.simps, assumption)
qed

theorem full_late_error_witness:
  "run_full zero_crypto (\<lambda>_. True) lenient_web (example_full\<lparr>fa_turn := Some ''h''\<rparr>) example_console quiet_world
     = Err (show_target_error (MissingScheme ''h''), snd (run_all [example_prepared] quiet_world))
   \<and> run_full zero_crypto (\<lambda>_. True) lenient_web (example_full\<lparr>fa_stun := None\<rparr>) example_console quiet_world \<noteq> Panic"
proof
  let ?a = "example_full\<lparr>fa_turn := Some ''h''\<rparr>"
  have sec: "full_secrets ?a example_console = Ok ((None, None, None), example_console)"
    by (simp add: full_secrets_def example_full_def resolve_secret_def)
  have plan: "full_plan zero_crypto (\<lambda>_. True) lenient_web ?a (None, None, None)
      = map Ok [example_prepared] @ Err (show_target_error (MissingScheme ''h'')) # []"
    by (simp add: full_plan_def example_full_def example_full_stun full_turn_def parse_stun_like_def)
  have i: "instant_now quiet_world = (0, quiet_world)" by (simp add: world_eval)
  have url: "\<not> no_url ?a" by (simp add: no_url_def example_full_def)
  from full_late [OF this sec plan i] have ids: "map (map r_id \<circ> results) (fst (run_all [example_prepared] (snd (instant_now quiet_world))))
      = map (map c_id \<circ> snd \<circ> snd) [example_prepared]" using i by simp
  have "snd (run_all [example_prepared] quiet_world) = snd (run_all [example_prepared] (snd (instant_now quiet_world)))"
    by (simp only: i snd_conv)
  then show "run_full zero_crypto (\<lambda>_. True) lenient_web ?a example_console quiet_world
     = Err (show_target_error (MissingScheme ''h''), snd (run_all [example_prepared] quiet_world))"
    using url sec plan ids by (intro full_late_error [THEN conjunct1, THEN iffD2] disjI2 conjI exI) assumption+
  show "run_full zero_crypto (\<lambda>_. True) lenient_web (example_full\<lparr>fa_stun := None\<rparr>) example_console quiet_world \<noteq> Panic"
    by (rule full_late_error [THEN conjunct2, THEN conjunct2, THEN mp]) (simp add: example_console_def)
qed

end
