(* ===== verification/Render.thy ===== *)
theory Render
  imports Ice_Gather Console
begin

text \<open>
  What the user sees: the pretty report of \<open>crates/webrtc-doctor/src/render.rs\<close> as the list of
  lines its \<open>println!\<close> calls print, the JSON tree of a report (\<open>Serialize\<close> in \<open>pipeline.rs\<close> and
  \<open>result.rs\<close>), and the end of \<open>main\<close>, where a stdout that refuses a line panics.  Colours come from the crate \<open>colored\<close>: the argument \<open>paint\<close> gives the text of a
  styled string at a minimum width.  Printing a tree as text (\<open>serde_json\<close>) is the argument \<open>print_json\<close>.
\<close>

section \<open>Text layout\<close>

text \<open>\<open>{:<width$}\<close> pads by characters: UTF-8 continuation bytes do not count.\<close>

definition char_count :: "string \<Rightarrow> nat" where
  "char_count s = length (filter (\<lambda>c. byte_of_char c AND 0xC0 \<noteq> 0x80) s)"

definition pad_right :: "nat \<Rightarrow> string \<Rightarrow> string" where
  "pad_right width s = s @ replicate (width - char_count s) (CHR '' '')"

datatype style = Green | Yellow | Red | Dimmed | Bold | Cyan | Magenta | Blue

type_synonym painter = "style list \<Rightarrow> nat \<Rightarrow> string \<Rightarrow> string"

text \<open>Colours switched off.\<close>

definition plain :: painter where
  "plain styles width s = pad_right width s"

definition max_of :: "nat list \<Rightarrow> nat" where
  "max_of ns = fold max ns 0"

definition format_endpoint :: "string \<Rightarrow> u16 \<Rightarrow> string" where
  "format_endpoint addr port =
     (if CHR '':'' \<in> set addr then ''['' @ addr @ '']:'' @ show_word port else addr @ '':'' @ show_word port)"

section \<open>Candidates\<close>

fun json_get :: "string \<Rightarrow> json \<Rightarrow> json option" where
  "json_get k (JObj kvs) = map_of kvs k"
| "json_get k _ = None"

fun as_str :: "json \<Rightarrow> string option" where
  "as_str (JStr s) = Some s"
| "as_str _ = None"

fun as_u64 :: "json \<Rightarrow> nat option" where
  "as_u64 (JNum n) = Some n"
| "as_u64 _ = None"

fun as_array :: "json \<Rightarrow> json list option" where
  "as_array (JArr js) = Some js"
| "as_array _ = None"

text \<open>Kind, endpoint and suffix of one candidate; \<open>None\<close> where a field is missing.\<close>

definition rendered_candidate :: "json \<Rightarrow> (string \<times> string \<times> string) option" where
  "rendered_candidate c =
     Option.bind (Option.bind (json_get ''kind'' c) as_str) (\<lambda>kind.
     Option.bind (Option.bind (json_get ''address'' c) as_str) (\<lambda>addr.
     Option.bind (json_get ''port'' c) (\<lambda>p.
     let port = (case as_u64 p of Some n \<Rightarrow> n | None \<Rightarrow> 0);
         endpoint = format_endpoint addr (word_of_nat port);
         suffix = (case Option.bind (json_get ''interface'' c) as_str of
             Some iface \<Rightarrow> ''('' @ iface @ '')''
           | None \<Rightarrow>
               (case Option.bind (json_get ''via'' c) as_str of
                  Some via \<Rightarrow> ''via '' @ via
                | None \<Rightarrow> ''''))
     in Some (kind, endpoint, suffix))))"

definition kind_styles :: "string \<Rightarrow> style list" where
  "kind_styles kind =
     (if kind = ''host'' then [Cyan] else if kind = ''srflx'' then [Magenta]
      else if kind = ''relay'' then [Blue] else [])"

definition print_candidates :: "painter \<Rightarrow> check_result \<Rightarrow> string list" where
  "print_candidates paint r =
     (case Option.bind (r_detail r) (\<lambda>d. Option.bind (json_get ''candidates'' d) as_array) of
        None \<Rightarrow> []
      | Some cands \<Rightarrow>
          if cands = [] then []
          else
            (let rendered = List.map_filter rendered_candidate cands;
                 addr_w = max_of (map (\<lambda>(_, a, _). length a) rendered)
             in map (\<lambda>(kind, endpoint, suffix).
                  ''      '' @ paint (kind_styles kind) 5 kind @ ''  '' @ pad_right addr_w endpoint @ ''  ''
                    @ paint [Dimmed] 0 suffix) rendered))"

section \<open>The report\<close>

definition glyph :: "check_status \<Rightarrow> style list \<times> string" where
  "glyph s =
     (case s of
        Pass \<Rightarrow> ([Green], [CHR 0xE2, CHR 0x9C, CHR 0x93])
      | Warn \<Rightarrow> ([Yellow], [CHR 0xE2, CHR 0x9A, CHR 0xA0])
      | Fail \<Rightarrow> ([Red], [CHR 0xE2, CHR 0x9C, CHR 0x97])
      | Skip \<Rightarrow> ([Dimmed], [CHR 0xC2, CHR 0xB7]))"

definition result_line :: "painter \<Rightarrow> nat \<Rightarrow> check_result \<Rightarrow> string" where
  "result_line paint max_id r =
     (let line = ''  '' @ paint (fst (glyph (r_status r))) 0 (snd (glyph (r_status r))) @ '' ''
                   @ pad_right max_id (r_id r) @ ''  '' @ r_summary r
      in if r_status r = Skip then paint [Dimmed] 0 line else line)"

definition verdict_text :: "painter \<Rightarrow> verdict \<Rightarrow> string" where
  "verdict_text paint v =
     (case v of
        Healthy \<Rightarrow> paint [Green, Bold] 0 ''HEALTHY''
      | Warnings \<Rightarrow> paint [Yellow, Bold] 0 ''WARNINGS''
      | Failed \<Rightarrow> paint [Red, Bold] 0 ''FAILED'')"

text \<open>The middle dot and the long dash, in UTF-8.\<close>

definition middot :: string where "middot = [CHR 0xC2, CHR 0xB7]"

definition result_block :: "painter \<Rightarrow> nat \<Rightarrow> check_result \<Rightarrow> string list" where
  "result_block paint max_id r =
     result_line paint max_id r # (if r_id r = ''ice.gather'' then print_candidates paint r else [])"

definition pretty :: "painter \<Rightarrow> string \<Rightarrow> report \<Rightarrow> string \<Rightarrow> string list" where
  "pretty paint version rep header =
     (let max_id = max_of (map (\<lambda>r. length (r_id r)) (results rep));
          (p, w, f, s) = report_counts rep
      in [''webrtc-doctor '' @ version @ '' '' @ dash @ '' '' @ header]
         @ concat (map (result_block paint max_id) (results rep))
         @ ['''', dec p @ '' pass '' @ middot @ '' '' @ dec w @ '' warn '' @ middot @ '' '' @ dec f @ '' fail '' @ middot
              @ '' '' @ dec s @ '' skip        verdict: '' @ verdict_text paint (report_verdict rep)])"

section \<open>JSON\<close>

definition status_json :: "check_status \<Rightarrow> json" where
  "status_json s = JStr (case s of Pass \<Rightarrow> ''pass'' | Warn \<Rightarrow> ''warn'' | Fail \<Rightarrow> ''fail'' | Skip \<Rightarrow> ''skip'')"

definition result_json :: "check_result \<Rightarrow> json" where
  "result_json r =
     JObj ([(''id'', JStr (r_id r)), (''name'', JStr (r_name r)), (''status'', status_json (r_status r)),
            (''latency_ms'', JNum (unat (r_latency_ms r))), (''summary'', JStr (r_summary r))]
       @ (case r_detail r of None \<Rightarrow> [] | Some d \<Rightarrow> [(''detail'', d)]))"

definition verdict_json :: "verdict \<Rightarrow> json" where
  "verdict_json v = JStr (case v of Healthy \<Rightarrow> ''healthy'' | Warnings \<Rightarrow> ''warnings'' | Failed \<Rightarrow> ''failed'')"

definition report_json :: "report \<Rightarrow> json" where
  "report_json rep =
     JObj [(''verdict'', verdict_json (report_verdict rep)), (''total_ms'', JNum (unat (total_ms rep))),
           (''results'', JArr (map result_json (results rep)))]"

section \<open>The end of the process\<close>

definition render_json :: "(json \<Rightarrow> string) \<Rightarrow> report \<Rightarrow> string list" where
  "render_json print_json rep = [print_json (report_json rep)]"

text \<open>What is printed (\<open>--json\<close> wins over \<open>--quiet\<close>), line by line, and the exit code.\<close>

definition report_lines ::
  "(json \<Rightarrow> string) \<Rightarrow> painter \<Rightarrow> string \<Rightarrow> bool \<Rightarrow> bool \<Rightarrow> report \<Rightarrow> string \<Rightarrow> string list"
where
  "report_lines print_json paint version json quiet rep header =
     (if json then render_json print_json rep
      else if \<not> quiet then pretty paint version rep header
      else [])"

definition process_end ::
  "(json \<Rightarrow> string) \<Rightarrow> painter \<Rightarrow> string \<Rightarrow> bool \<Rightarrow> bool \<Rightarrow> report \<Rightarrow> string \<Rightarrow> nat option \<Rightarrow> ('e, string list \<times> int) res"
where
  "process_end print_json paint version json quiet rep header stdout =
     bind_res (print_lines (report_lines print_json paint version json quiet rep header) stdout) (\<lambda>out.
     Ok (out, exit_code (report_verdict rep)))"

section \<open>Lemmas\<close>

lemma show_ipv4_no_colon: "CHR '':'' \<notin> set (show_ipv4 a)"
proof -
  have "CHR '':'' \<notin> set (show_word (b :: u8))" for b
    using radix_str_digits [of 10 "CHR '':''" "unat b"] by (auto simp: show_word_def is_dig_def to_digit_def)
  then show ?thesis by (simp add: show_ipv4_def)
qed

lemma show_ipv6_colon: "CHR '':'' \<in> set (show_ipv6 a)"
proof -
  have "CHR '':'' \<in> set (show_segs (segments a))"
    using length_segments [of a] by (cases "segments a" rule: show_segs.cases) simp_all
  then show ?thesis
    by (cases "zero_span 0 (0, 0) (0, 0) (segments a)") (simp add: show_ipv6_def Let_def)
qed

lemma format_endpoint_sock: "format_endpoint (show_ip ip) p = show_sock (sock_new ip p)"
  by (cases ip) (simp_all add: format_endpoint_def show_ipv4_no_colon show_ipv6_colon)

definition candidate_suffix :: "candidate \<Rightarrow> string" where
  "candidate_suffix c =
     (case ca_interface c of
        Some iface \<Rightarrow> ''('' @ iface @ '')''
      | None \<Rightarrow> (case ca_via c of Some via \<Rightarrow> ''via '' @ via | None \<Rightarrow> ''''))"

lemma rendered_candidate_json:
  "rendered_candidate (candidate_json c)
     = Some (ca_kind c, format_endpoint (ca_address c) (ca_port c), candidate_suffix c)"
  by (cases "ca_interface c"; cases "ca_via c")
    (simp_all add: rendered_candidate_def candidate_json_def candidate_suffix_def Let_def)

lemma rendered_candidates:
  "List.map_filter rendered_candidate (map candidate_json cs)
     = map (\<lambda>c. (ca_kind c, format_endpoint (ca_address c) (ca_port c), candidate_suffix c)) cs"
  by (induction cs) (simp_all add: List.map_filter_simps rendered_candidate_json)

lemma max_of_ge: "n \<in> set ns \<Longrightarrow> n \<le> max_of ns"
proof -
  have "fold max ns a = Max (set (a # ns))" for a by (rule Max.set_eq_fold [symmetric])
  then show "n \<in> set ns \<Longrightarrow> n \<le> max_of ns" by (simp add: max_of_def)
qed

definition ascii :: "string \<Rightarrow> bool" where
  "ascii s \<longleftrightarrow> (\<forall>c \<in> set s. of_char c < (128 :: nat))"

lemma ascii_append [simp]: "ascii (s @ t) \<longleftrightarrow> ascii s \<and> ascii t"
  by (auto simp: ascii_def)

lemma ascii_Cons [simp]: "ascii (c # s) \<longleftrightarrow> of_char c < (128 :: nat) \<and> ascii s"
  by (simp add: ascii_def)

lemma ascii_Nil [simp]: "ascii []"
  by (simp add: ascii_def)

lemma char_count_ascii: "ascii s \<Longrightarrow> char_count s = length s"
proof -
  have "byte_of_char c AND 0xC0 \<noteq> 0x80" if "of_char c < (128 :: nat)" for c
  proof -
    have "unat (byte_of_char c) < 128" using that by (simp add: byte_of_char_def unat_of_nat)
    then have "\<not> bit (unat (byte_of_char c)) 7" by (simp add: bit_iff_odd)
    then have "\<not> bit (byte_of_char c) 7" by (simp add: bit_unsigned_iff)
    moreover have "bit (0x80 :: u8) 7" by (simp add: bit_numeral_rec)
    ultimately show ?thesis by (metis bit_and_iff)
  qed
  then show "ascii s \<Longrightarrow> char_count s = length s" by (simp add: char_count_def ascii_def)
qed

lemma length_pad_right: "ascii s \<Longrightarrow> length s \<le> n \<Longrightarrow> length (pad_right n s) = n"
  by (simp add: pad_right_def char_count_ascii)

lemma ascii_radix: "2 \<le> r \<Longrightarrow> r \<le> 36 \<Longrightarrow> ascii (radix_str r n)"
proof -
  have "of_char c < (128 :: nat)" if "is_dig r c" for c
    using that by (auto simp: is_dig_def to_digit_def Let_def split: if_splits)
  then show "2 \<le> r \<Longrightarrow> r \<le> 36 \<Longrightarrow> ascii (radix_str r n)"
    using radix_str_digits unfolding ascii_def by blast
qed

lemma ascii_show_word: "ascii (show_word w)"
  by (simp add: show_word_def ascii_radix)

lemma ascii_show_segs: "ascii (show_segs gs)"
  by (induction gs rule: show_segs.induct) (simp_all add: show_seg_def ascii_radix)

lemma ascii_show_ipv4: "ascii (show_ipv4 a)"
  by (simp add: show_ipv4_def ascii_show_word)

lemma ascii_show_ip: "ascii (show_ip ip)"
  by (cases ip) (simp_all add: ascii_show_ipv4 show_ipv6_def Let_def ascii_show_segs split: prod.split)

lemma ascii_endpoint: "ascii (format_endpoint (show_ip ip) p)"
  by (simp add: format_endpoint_def ascii_show_ip ascii_show_word)


text \<open>The candidates of a run: their kinds and addresses.\<close>

lemma candidates_shape:
  assumes "c \<in> set (host_candidates ifas [] @ srflx_candidates ctx @ relay_candidates ctx)"
  obtains ip where "ca_address c = show_ip ip" and "length (ca_kind c) \<le> 5" and "ascii (ca_kind c)"
  using assms that
  by (auto simp: host_candidates_spec srflx_candidates_def relay_candidates_def split: option.splits)

lemma print_candidates_plain:
  assumes "Option.bind (r_detail r) (\<lambda>d. Option.bind (json_get ''candidates'' d) as_array) = Some (map candidate_json cs)"
  shows "print_candidates plain r = map (\<lambda>c. ''      '' @ pad_right 5 (ca_kind c) @ ''  ''
      @ pad_right (max_of (map (\<lambda>c. length (format_endpoint (ca_address c) (ca_port c))) cs))
          (format_endpoint (ca_address c) (ca_port c)) @ ''  '' @ candidate_suffix c) cs"
  unfolding print_candidates_def assms
  by (simp add: rendered_candidates Let_def plain_def comp_def) (simp add: pad_right_def)

lemma ice_candidates_detail:
  assumes "ice_run ctx w = Ok (r, ctx', w')" and "w_ifaddrs w = Inr ifas"
  shows "\<exists>counts. r_detail r = Some (JObj [(''candidates'', JArr (map candidate_json
      (host_candidates ifas [] @ srflx_candidates ctx @ relay_candidates ctx))), (''counts'', counts)])"
proof -
  obtain t w1 where i: "instant_now w = (t, w1)" by fastforce
  show ?thesis
    using assms instant_now_ifaddrs [OF i] by (auto simp: ice_run_def i Let_def split: prod.splits)
qed

lemma process_end_room:
  "process_end print_json paint version json quiet rep header stdout =
     (let lines = report_lines print_json paint version json quiet rep header
      in if room stdout (length lines) then Ok (lines, exit_code (report_verdict rep)) else Panic)"
  by (simp add: process_end_def print_lines_room Let_def)

text \<open>What a reader of the JSON sees of a result.\<close>

definition json_status :: "json \<Rightarrow> json option" where
  "json_status j = json_get ''status'' j"

lemma json_status_result: "json_status (result_json r) = Some (status_json (r_status r))"
  by (simp add: json_status_def result_json_def)

lemma status_json_inj: "status_json s = status_json t \<longleftrightarrow> s = t"
  by (cases s; cases t) (simp_all add: status_json_def)

lemma verdict_loop_iff:
  "verdict_loop rs b = (if \<exists>r \<in> set rs. r_status r = Fail then Failed
     else if b \<or> (\<exists>r \<in> set rs. r_status r = Warn) then Warnings else Healthy)"
  by (induction rs arbitrary: b) (auto split: check_status.split)

text \<open>The lines of the candidates of a run.\<close>

lemma candidate_rows:
  assumes "ice_run ctx w = Ok (r, ctx', w')" and "w_ifaddrs w = Inr ifas"
  shows "\<exists>width. list_all2 (\<lambda>c line. \<exists>ip e left.
            ca_address c = show_ip ip \<and> parse_sock e = Some (sock_new ip (ca_port c))
          \<and> left = ''      '' @ pad_right 5 (ca_kind c) @ ''  '' @ pad_right width e @ ''  ''
          \<and> line = left @ candidate_suffix c \<and> length left = 15 + width)
        (host_candidates ifas [] @ srflx_candidates ctx @ relay_candidates ctx) (print_candidates plain r)"
proof -
  let ?cs = "host_candidates ifas [] @ srflx_candidates ctx @ relay_candidates ctx"
  let ?e = "\<lambda>c. format_endpoint (ca_address c) (ca_port c)"
  let ?w = "max_of (map (\<lambda>c. length (?e c)) ?cs)"
  have "Option.bind (r_detail r) (\<lambda>d. Option.bind (json_get ''candidates'' d) as_array) = Some (map candidate_json ?cs)"
    using ice_candidates_detail [OF assms] by auto
  note lines = print_candidates_plain [OF this]
  have "\<exists>ip e left. ca_address c = show_ip ip \<and> parse_sock e = Some (sock_new ip (ca_port c))
      \<and> left = ''      '' @ pad_right 5 (ca_kind c) @ ''  '' @ pad_right ?w e @ ''  ''
      \<and> ''      '' @ pad_right 5 (ca_kind c) @ ''  '' @ pad_right ?w (?e c) @ ''  '' @ candidate_suffix c = left @ candidate_suffix c
      \<and> length left = 15 + ?w" if c: "c \<in> set ?cs" for c
  proof -
    obtain ip where ip: "ca_address c = show_ip ip" "length (ca_kind c) \<le> 5" "ascii (ca_kind c)"
      using candidates_shape [OF c] .
    let ?left = "''      '' @ pad_right 5 (ca_kind c) @ ''  '' @ pad_right ?w (?e c) @ ''  ''"
    have "length (?e c) \<le> ?w" using c by (intro max_of_ge) auto
    then have "length ?left = 15 + ?w"
      using ip ascii_endpoint [of ip "ca_port c"] by (simp add: length_pad_right)
    moreover have "parse_sock (?e c) = Some (sock_new ip (ca_port c))"
      unfolding ip(1) format_endpoint_sock parse_show_sock by (cases ip) simp_all
    ultimately show ?thesis using ip(1) by (intro exI [of _ ip] exI [of _ "?e c"] exI [of _ ?left] conjI) simp_all
  qed
  then show ?thesis unfolding lines list_all2_map2 list_all2_same by blast
qed

section \<open>Properties\<close>

text \<open>C24: Without colours the pretty report shows a gathered candidate list completely and in order: right
  after the line of the gathering check, which the lines of the results before it precede, come one line for
  each candidate and no other, then the lines of the results after it and the two of the summary.  The
  endpoint on a candidate's line is read back as the candidate's address and port, IPv6 included, and the
  provenance starts in the same column on every line.\<close>

theorem candidate_lines:
  assumes "ice_run ctx w = Ok (r, ctx', w')" and "w_ifaddrs w = Inr ifas" and "results rep = before @ r # after"
  shows "\<exists>max_id width rows summary. pretty plain version rep header
         = (''webrtc-doctor '' @ version @ '' '' @ dash @ '' '' @ header) # concat (map (result_block plain max_id) before)
           @ result_line plain max_id r # rows @ concat (map (result_block plain max_id) after) @ ['''', summary]
     \<and> list_all2 (\<lambda>c row. \<exists>ip e left.
            ca_address c = show_ip ip \<and> parse_sock e = Some (sock_new ip (ca_port c))
          \<and> left = ''      '' @ pad_right 5 (ca_kind c) @ ''  '' @ pad_right width e @ ''  ''
          \<and> row = left @ candidate_suffix c \<and> length left = 15 + width)
        (host_candidates ifas [] @ srflx_candidates ctx @ relay_candidates ctx) rows"
proof -
  obtain width where rows: "list_all2 (\<lambda>c row. \<exists>ip e left.
            ca_address c = show_ip ip \<and> parse_sock e = Some (sock_new ip (ca_port c))
          \<and> left = ''      '' @ pad_right 5 (ca_kind c) @ ''  '' @ pad_right width e @ ''  ''
          \<and> row = left @ candidate_suffix c \<and> length left = 15 + width)
        (host_candidates ifas [] @ srflx_candidates ctx @ relay_candidates ctx) (print_candidates plain r)"
    using candidate_rows [OF assms(1,2)] by blast
  have "r_id r = ''ice.gather''" using ice_run_keeps(1) [OF assms(1)] by (simp add: ice_id_def)
  then have block: "result_block plain m r = result_line plain m r # print_candidates plain r" for m
    by (simp add: result_block_def)
  show ?thesis
    by (rule exI, rule exI [of _ width], rule exI [of _ "print_candidates plain r"], rule exI, rule conjI [OF _ rows])
      (simp add: pretty_def assms(3) block Let_def case_prod_beta)
qed

theorem candidate_lines_witness:
  "\<exists>r w' max_id rows summary. ice_run example_echo_ctx (quiet_world\<lparr>w_ifaddrs := Inr [(''eth0'', V4 0x0A000005)]\<rparr>)
       = Ok (r, example_echo_ctx, w')
     \<and> pretty plain ''1'' \<lparr>results = [r], total_ms = 0\<rparr> ''probing''
         = (''webrtc-doctor '' @ ''1'' @ '' '' @ dash @ '' '' @ ''probing'') # result_line plain max_id r # rows @ ['''', summary]
     \<and> length rows = length (host_candidates [(''eth0'', V4 0x0A000005)] [] @ srflx_candidates example_echo_ctx
          @ relay_candidates example_echo_ctx)"
proof -
  let ?w = "quiet_world\<lparr>w_ifaddrs := Inr [(''eth0'', V4 0x0A000005)]\<rparr>"
  obtain r ctx' w' where run: "ice_run example_echo_ctx ?w = Ok (r, ctx', w')" using ice_run_total by blast
  have "ctx' = example_echo_ctx" using ice_run_keeps [OF run] by simp
  moreover have "w_ifaddrs ?w = Inr [(''eth0'', V4 0x0A000005)]" "results \<lparr>results = [r], total_ms = 0\<rparr> = [] @ r # []" by simp_all
  from candidate_lines [OF run this, of "''1''" "''probing''"] obtain max_id rows summary where
    p: "pretty plain ''1'' \<lparr>results = [r], total_ms = 0\<rparr> ''probing''
         = (''webrtc-doctor '' @ ''1'' @ '' '' @ dash @ '' '' @ ''probing'') # concat (map (result_block plain max_id) [])
           @ result_line plain max_id r # rows @ concat (map (result_block plain max_id) []) @ ['''', summary]"
    and l: "length (host_candidates [(''eth0'', V4 0x0A000005)] [] @ srflx_candidates example_echo_ctx
          @ relay_candidates example_echo_ctx) = length rows"
    by (blast dest: list_all2_lengthD)
  ultimately show ?thesis using run p [unfolded list.map concat.simps append_Nil] l by metis
qed

text \<open>C21: The output and the exit code agree: from the statuses in the JSON results, which are those of the
  results in order, the verdict field reads failed, warnings or healthy as the worst of them says,
  and the process exits with 1, 2 or 0 accordingly, whatever is printed; \<open>--json\<close> prints the tree even
  with \<open>--quiet\<close>, which only silences the pretty report.  The process ends this way when stdout takes every line, and
  panics when it refuses one; with \<open>--quiet\<close> alone it prints nothing and always ends.\<close>

theorem process_end_agrees:
  "\<exists>js code. json_get ''results'' (report_json rep) = Some (JArr js)
     \<and> map json_status js = map (\<lambda>r. Some (status_json (r_status r))) (results rep)
     \<and> map (json_get ''id'') js = map (\<lambda>r. Some (JStr (r_id r))) (results rep)
     \<and> (json_get ''verdict'' (report_json rep), code) =
         (if Some (JStr ''fail'') \<in> json_status ` set js then (Some (JStr ''failed''), 1)
          else if Some (JStr ''warn'') \<in> json_status ` set js then (Some (JStr ''warnings''), 2)
          else (Some (JStr ''healthy''), 0))
     \<and> (\<forall>quiet. process_end print_json paint version True quiet rep header stdout
          = (if room stdout 1 then Ok ([print_json (report_json rep)], code) else Panic))
     \<and> process_end print_json paint version False True rep header stdout = Ok ([], code)
     \<and> process_end print_json paint version False False rep header stdout
         = (if room stdout (length (pretty paint version rep header)) then Ok (pretty paint version rep header, code) else Panic)"
proof -
  let ?js = "map result_json (results rep)"
  have has: "(Some (status_json s) \<in> json_status ` set ?js) = (\<exists>r \<in> set (results rep). r_status r = s)" for s
    by (auto simp: json_status_result status_json_inj image_iff)
  have "(json_get ''verdict'' (report_json rep), exit_code (report_verdict rep)) =
      (if Some (status_json Fail) \<in> json_status ` set ?js then (Some (JStr ''failed''), 1)
       else if Some (status_json Warn) \<in> json_status ` set ?js then (Some (JStr ''warnings''), 2)
       else (Some (JStr ''healthy''), 0))"
    unfolding has by (simp add: report_json_def report_verdict_def verdict_loop_iff verdict_json_def)
  moreover have "map (json_get ''id'') ?js = map (\<lambda>r. Some (JStr (r_id r))) (results rep)"
    by (simp add: result_json_def)
  ultimately show ?thesis
    by (intro exI [of _ ?js] exI [of _ "exit_code (report_verdict rep)"])
      (simp add: report_json_def json_status_result process_end_room report_lines_def render_json_def status_json_def [of Fail] status_json_def [of Warn])
qed

end
