(* ===== verification/Program.thy ===== *)
theory Program
  imports Full Render
begin

text \<open>
  The program: \<open>main\<close> of \<open>crates/webrtc-doctor/src/main.rs\<close> from the parsed command line (\<open>Cli\<close>, filled in
  by clap) to the output and the exit code.  What is not in the repository comes in the record \<open>env\<close>, the
  standard streams in the record \<open>console\<close>.
\<close>

section \<open>The command line\<close>

datatype command =
  Stun (cmd_url: string)
| Turn (cmd_url: string) (cmd_user: "string option") (cmd_pass: "string option") (user_stdin: bool) (pass_stdin: bool)
    (cmd_echo_count: u32)
| Turns (cmd_url: string) (cmd_user: "string option") (cmd_pass: "string option") (user_stdin: bool) (pass_stdin: bool)
| Signaling (cmd_url: string) (auth_header: "string option") (auth_header_stdin: bool)
| Dtls (dtls_target: "string option") (dtls_serve: bool) (dtls_bind: string)
| Ice (cmd_url: string) (cmd_user: "string option") (cmd_pass: "string option") (user_stdin: bool) (pass_stdin: bool)
| Full full_args

record cli =
  cli_json :: bool
  cli_quiet :: bool
  cli_command :: command

record env =
  e_crypto :: crypto
  e_name_ok :: "string \<Rightarrow> bool"
  e_web :: web
  e_dtls :: dtls_lib
  e_print_json :: "json \<Rightarrow> string"
  e_paint :: painter
  e_version :: string

section \<open>The main function\<close>

text \<open>The process exits with output and code, or stays in the loop of the test peer.  An error that \<open>main\<close>
  returns is its text, with the world it leaves.\<close>

datatype ending = Exited "string list" int | Serving sockaddr

text \<open>The arms of \<open>match cli.command\<close> that give a header, a context and a pipeline.\<close>

definition prepare_command :: "env \<Rightarrow> command \<Rightarrow> console \<Rightarrow> (string, prepared) res" where
  "prepare_command e cmd con =
     (case cmd of
        Stun url \<Rightarrow> stun_command url
      | Turn url user pass us ps n \<Rightarrow>
          bind_res (turn_command (e_crypto e) url user pass us ps n con) (\<lambda>(p, con). Ok p)
      | Turns url user pass us ps \<Rightarrow>
          bind_res (turns_command (e_crypto e) (e_name_ok e) url user pass us ps con) (\<lambda>(p, con). Ok p)
      | Signaling url auth as \<Rightarrow> bind_res (signaling_command (e_web e) url auth as con) (\<lambda>(p, con). Ok p)
      | Dtls target serve bind \<Rightarrow> dtls_command (e_dtls e) target
      | Ice url user pass us ps \<Rightarrow>
          bind_res (ice_command (e_crypto e) url user pass us ps con) (\<lambda>(p, con). Ok p)
      | Full a \<Rightarrow> Panic)"

definition env_end :: "env \<Rightarrow> cli \<Rightarrow> console \<Rightarrow> report \<Rightarrow> string \<Rightarrow> ('e, string list \<times> int) res" where
  "env_end e cli con rep header =
     process_end (e_print_json e) (e_paint e) (e_version e) (cli_json cli) (cli_quiet cli) rep header (con_out con)"

text \<open>The arm of \<open>Command::Full\<close>, which reports and exits itself.\<close>

definition full_command :: "env \<Rightarrow> cli \<Rightarrow> full_args \<Rightarrow> console \<Rightarrow> world \<Rightarrow> (string \<times> world, ending \<times> world) res" where
  "full_command e cli a con w =
     bind_res (run_full (e_crypto e) (e_name_ok e) (e_web e) a con w) (\<lambda>(header, rep, w).
     bind_res (env_end e cli con rep header) (\<lambda>(out, code). Ok (Exited out code, w)))"

text \<open>Nothing before the report writes to stdout, so \<open>con_out\<close> is as it was at the start.\<close>

definition main_run :: "env \<Rightarrow> cli \<Rightarrow> console \<Rightarrow> world \<Rightarrow> (string \<times> world, ending \<times> world) res" where
  "main_run e cli con w =
     (case cli_command cli of
        Full a \<Rightarrow> full_command e cli a con w
      | cmd \<Rightarrow>
          if (case cmd of Dtls _ serve _ \<Rightarrow> serve | _ \<Rightarrow> False) then
            bind_res (map_err (\<lambda>msg. (msg, w)) (serve_command (e_dtls e) (dtls_bind cmd) con)) (\<lambda>addr. Ok (Serving addr, w))
          else
            bind_res (map_err (\<lambda>msg. (msg, w)) (prepare_command e cmd con)) (\<lambda>(header, ctx, pipeline).
            (case pipeline_run pipeline ctx w of
               Ok (rep, _, w) \<Rightarrow> bind_res (env_end e cli con rep header) (\<lambda>(out, code). Ok (Exited out code, w))
             | _ \<Rightarrow> Panic)))"

section \<open>Lemmas\<close>

text \<open>The checks of a command, by their documented ids.\<close>

definition command_ids :: "command \<Rightarrow> string list" where
  "command_ids cmd =
     (case cmd of
        Stun _ \<Rightarrow> [dns_id, stun_id]
      | Turn _ _ _ _ _ _ \<Rightarrow> [dns_id, stun_id, turn_alloc_id, echo_id]
      | Turns _ _ _ _ _ \<Rightarrow> [dns_id, turns_id]
      | Signaling _ _ _ \<Rightarrow> [dns_id, signaling_id]
      | Dtls target _ _ \<Rightarrow> (if target = None then [loopback_id] else [dns_id, remote_id])
      | Ice url _ _ _ _ \<Rightarrow> [dns_id, stun_id] @ (if starts_with url ''turn:'' then [turn_alloc_id] else []) @ [ice_id]
      | Full a \<Rightarrow>
          (if fa_signaling a = None then [] else [dns_id, signaling_id])
          @ (if fa_stun a = None then [] else [dns_id, stun_id])
          @ (if fa_turn a = None then [] else [dns_id, stun_id, turn_alloc_id, echo_id])
          @ (if fa_turns a = None then [] else [dns_id, turns_id]))"

lemmas command_defs = stun_command_def turn_command_def turns_command_def signaling_command_def dtls_command_def
  ice_command_def

lemmas suite_defs = stun_suite_checks turn_suite_checks turns_suite_checks signaling_suite_checks dtls_suite_checks
  loopback_suite_checks ice_suite_checks

lemmas check_defs = dns_check_def stun_check_def turn_alloc_check_def turn_echo_check_def turns_alloc_check_def
  signaling_check_def remote_check_def loopback_check_def ice_check_def

lemmas suites_ok = stun_suite.probe_suite_axioms turn_suite.probe_suite_axioms turns_suite.probe_suite_axioms
  signaling_suite.probe_suite_axioms dtls_suite.probe_suite_axioms loopback_suite.probe_suite_axioms
  ice_suite.probe_suite_axioms

text \<open>Two secrets, one after the other, take two prompts.\<close>

lemma two_secrets_no_panic:
  assumes "con_tty con \<longrightarrow> room (con_err con) 2"
  shows "resolve_secret f s l con \<noteq> Panic"
    and "resolve_secret f s l con = Ok (v, con') \<Longrightarrow> resolve_secret f' s' l' con' \<noteq> Panic"
proof -
  have r: "con_tty con \<longrightarrow> room (con_err con) (Suc (Suc 0))" using assms by (simp add: numeral_eq_Suc)
  show "resolve_secret f s l con \<noteq> Panic" by (rule resolve_secret_room(1) [OF r])
  show "resolve_secret f s l con = Ok (v, con') \<Longrightarrow> resolve_secret f' s' l' con' \<noteq> Panic"
    using resolve_secret_room(2) [OF r] by (intro resolve_secret_room(1)) blast
qed

lemma prepare_command_no_panic:
  assumes "\<nexists>a. cmd = Full a" and "con_tty con \<longrightarrow> room (con_err con) 2"
  shows "prepare_command e cmd con \<noteq> Panic"
  using assms parse_stun_like_no_panic parse_host_port_no_panic two_secrets_no_panic [OF assms(2)]
  by (cases cmd) (auto simp: prepare_command_def command_defs res_simps Let_def split: option.splits if_splits)

lemma prepare_command_suite:
  assumes "prepare_command e cmd con = Ok (header, ctx, cs)"
  shows "probe_suite cs \<and> map c_id cs = command_ids cmd"
proof -
  have ids: "map c_id stun_suite = [dns_id, stun_id]" "map c_id (turn_suite c) = [dns_id, stun_id, turn_alloc_id, echo_id]"
    "map c_id (turns_suite c ok) = [dns_id, turns_id]" "map c_id (signaling_suite web s) = [dns_id, signaling_id]"
    "map c_id (dtls_suite lib) = [dns_id, remote_id]" "map c_id (loopback_suite lib) = [loopback_id]"
    "map c_id (ice_suite c b) = [dns_id, stun_id] @ (if b then [turn_alloc_id] else []) @ [ice_id]" for c ok web s lib b
    by (simp_all add: suite_defs check_defs)
  have "ice_suite c True \<noteq> ice_suite c False" for c by (simp add: ice_suite_checks)
  with assms show ?thesis
    by (cases cmd) (auto simp: prepare_command_def command_defs command_ids_def res_simps Let_def ids suites_ok
        split: option.splits if_splits)
qed

lemma run_pipeline:
  assumes "probe_suite cs"
  obtains rep ctx' w' where "pipeline_run cs ctx w = Ok (rep, ctx', w')" and "map r_id (results rep) = map c_id cs"
    and "later w w'"
  using probe_suite.pipeline_ends [OF assms, of ctx w] by blast

lemma main_run_simple:
  assumes "\<nexists>a. cli_command cli = Full a" and "\<nexists>t b. cli_command cli = Dtls t True b"
  shows "main_run e cli con w =
     bind_res (map_err (\<lambda>msg. (msg, w)) (prepare_command e (cli_command cli) con)) (\<lambda>(header, ctx, pipeline).
       (case pipeline_run pipeline ctx w of
          Ok (rep, _, w) \<Rightarrow> bind_res (env_end e cli con rep header) (\<lambda>(out, code). Ok (Exited out code, w))
        | _ \<Rightarrow> Panic))"
  using assms by (cases "cli_command cli") (simp_all add: main_run_def Let_def)

lemma main_run_full:
  "cli_command cli = Full a \<Longrightarrow> main_run e cli con w =
     bind_res (run_full (e_crypto e) (e_name_ok e) (e_web e) a con w) (\<lambda>(header, rep, w).
       bind_res (env_end e cli con rep header) (\<lambda>(out, code). Ok (Exited out code, w)))"
  by (simp add: main_run_def full_command_def)

lemma main_run_serve:
  "cli_command cli = Dtls t True b \<Longrightarrow> main_run e cli con w =
     bind_res (map_err (\<lambda>msg. (msg, w)) (serve_command (e_dtls e) b con)) (\<lambda>addr. Ok (Serving addr, w))"
  by (simp add: main_run_def Let_def)

text \<open>What a finished pipeline makes of the run.\<close>

definition report_end :: "env \<Rightarrow> cli \<Rightarrow> console \<Rightarrow> report \<Rightarrow> string \<Rightarrow> world \<Rightarrow> (string \<times> world, ending \<times> world) res" where
  "report_end e cli con rep header w =
     (let lines = report_lines (e_print_json e) (e_paint e) (e_version e) (cli_json cli) (cli_quiet cli) rep header
      in if room (con_out con) (length lines) then Ok (Exited lines (exit_code (report_verdict rep)), w) else Panic)"

lemma report_end: "bind_res (env_end e cli con rep header) (\<lambda>(out, code). Ok (Exited out code, w)) = report_end e cli con rep header w"
  by (simp add: env_end_def process_end_room report_end_def Let_def)

text \<open>How a run ends.\<close>

lemma main_run_ends:
  obtains (error) msg w' where "main_run e cli con w = Err (msg, w')"
      and "w' = w \<or> (\<exists>a. cli_command cli = Full a)"
  | (serving) t b a addr where "main_run e cli con w = Ok (Serving addr, w)" and "cli_command cli = Dtls t True b"
      and "parse_sock b = Some a" and "serve_start (e_dtls e) a = Ok addr"
  | (refused) "main_run e cli con w = Panic" and "\<not> room (con_err con) 3"
      and "(\<exists>t b. cli_command cli = Dtls t True b) \<or> con_tty con"
  | (report) rep header w' where "main_run e cli con w = report_end e cli con rep header w'"
      and "later w w'" and "map r_id (results rep) = command_ids (cli_command cli)"
proof -
  consider (full) a where "cli_command cli = Full a" | (serve) t b where "cli_command cli = Dtls t True b"
    | (simple) "\<nexists>a. cli_command cli = Full a" "\<nexists>t b. cli_command cli = Dtls t True b" by blast
  then show thesis
  proof cases
    case full
    note run = main_run_full [OF full, of e con w, unfolded report_end]
    show thesis
    proof (cases "run_full (e_crypto e) (e_name_ok e) (e_web e) a con w")
      case (Ok r)
      then show thesis
      proof (cases rule: run_full_ends [where a = a and con = con and c = "e_crypto e" and ok = "e_name_ok e" and web = "e_web e" and w = w])
        case (report header rep w')
        then show thesis using that(4) [of rep header w'] full run by (simp add: command_ids_def)
      next
        case (malformed secrets rest ps er qs)
        then show thesis using Ok full_late [OF malformed surjective_pairing, of w] by simp
      qed (use Ok in \<open>simp_all add: full_no_url full_no_secret\<close>)
    next
      case (Err x)
      then show thesis using that(1) full run by (cases x) simp
    next
      case Panic
      then have "\<not> (con_tty con \<longrightarrow> room (con_err con) 3)" using full_late_panic by blast
      then show thesis using that(3) run Panic by simp
    qed
  next
    case serve
    note run = main_run_serve [OF serve, of e con w]
    show thesis
    proof (cases "serve_command (e_dtls e) b con")
      case (Ok addr)
      then obtain a where "parse_sock b = Some a" "serve_start (e_dtls e) a = Ok addr"
        by (auto simp: serve_command_def res_simps)
      then show thesis using that(2) serve Ok run by simp
    next
      case (Err msg)
      then show thesis using that(1) run by simp
    next
      case Panic
      then have "\<not> room (con_err con) 2" using serve_command_no_panic by blast
      then have "\<not> room (con_err con) 3" using room_mono [of "con_err con" 3 2] by auto
      then show thesis using that(3) serve run Panic by simp
    qed
  next
    case simple
    note run = main_run_simple [OF simple, of e con w, unfolded report_end]
    show thesis
    proof (cases "prepare_command e (cli_command cli) con")
      case (Ok p)
      obtain header ctx cs where p: "p = (header, ctx, cs)" by (cases p)
      note cs = prepare_command_suite [OF Ok [unfolded p]]
      obtain rep ctx' w' where r: "pipeline_run cs ctx w = Ok (rep, ctx', w')" "map r_id (results rep) = map c_id cs"
        "later w w'" using run_pipeline cs by blast
      then show thesis using that(4) [of rep header w'] cs run Ok p by simp
    next
      case (Err msg)
      then show thesis using that(1) run by simp
    next
      case Panic
      then have "\<not> (con_tty con \<longrightarrow> room (con_err con) 2)" using prepare_command_no_panic simple by blast
      then have "con_tty con" "\<not> room (con_err con) 3" using room_mono [of "con_err con" 3 2] by auto
      then show thesis using that(3) run Panic by simp
    qed
  qed
qed

section \<open>Properties\<close>

text \<open>C14: For any command line, streams and outside world the program reports an error, serves as test peer
  (only for \<open>dtls --serve\<close> with a readable address that could be bound), or prints the report and exits with
  0, 1 or 2, by the verdict of a report with one result for each check of the command, in the documented
  order.  Only \<open>full\<close> can have touched the network before it reports an error.  It panics only when stderr
  refuses one of at most three prompts (asked on a terminal) or notices (of \<open>--serve\<close>), or stdout a line of such a
  report: never when stdout and stderr take every line.\<close>

theorem main_ends:
  "(main_run e cli con w = Panic \<longrightarrow>
        \<not> room (con_err con) 3 \<and> ((\<exists>t b. cli_command cli = Dtls t True b) \<or> con_tty con)
      \<or> (\<exists>rep header. map r_id (results rep) = command_ids (cli_command cli)
           \<and> process_end (e_print_json e) (e_paint e) (e_version e) (cli_json cli) (cli_quiet cli) rep header (con_out con)
               = (Panic :: (string, _) res)))
   \<and> (con_out con = None \<and> con_err con = None \<longrightarrow> main_run e cli con w \<noteq> Panic)
   \<and> (\<forall>msg w'. main_run e cli con w = Err (msg, w') \<longrightarrow> w' = w \<or> (\<exists>a. cli_command cli = Full a))
   \<and> (\<forall>addr w'. main_run e cli con w = Ok (Serving addr, w') \<longrightarrow>
        w' = w \<and> (\<exists>t b a. cli_command cli = Dtls t True b \<and> parse_sock b = Some a \<and> serve_start (e_dtls e) a = Ok addr))
   \<and> (\<forall>out code w'. main_run e cli con w = Ok (Exited out code, w') \<longrightarrow>
        later w w' \<and> code \<in> {0, 1, 2}
      \<and> (\<exists>rep header. map r_id (results rep) = command_ids (cli_command cli)
           \<and> process_end (e_print_json e) (e_paint e) (e_version e) (cli_json cli) (cli_quiet cli) rep header (con_out con)
               = (Ok (out, code) :: (string, _) res)))"
proof (cases rule: main_run_ends [where e = e and cli = cli and con = con and w = w])
  case (report rep header w')
  have "exit_code (report_verdict rep) \<in> {0, 1, 2}" by (cases "report_verdict rep") simp_all
  with report show ?thesis
    by (auto simp: report_end_def process_end_room Let_def split: if_splits)
qed auto

definition example_env :: env where
  "example_env = \<lparr>e_crypto = zero_crypto, e_name_ok = (\<lambda>_. True), e_web = lenient_web, e_dtls = example_dtls,
     e_print_json = (\<lambda>_. ''''), e_paint = plain, e_version = ''1''\<rparr>"

theorem main_ends_witness:
  "\<exists>out code w'. main_run example_env \<lparr>cli_json = False, cli_quiet = False, cli_command = Dtls None False ''''\<rparr>
       example_console quiet_world = Ok (Exited out code, w') \<and> code \<in> {0, 1, 2}"
proof -
  let ?cli = "\<lparr>cli_json = False, cli_quiet = False, cli_command = Dtls None False ''''\<rparr>"
  note ends = main_ends [of example_env ?cli example_console quiet_world]
  have "prepare_command example_env (cli_command ?cli) example_console
      = Ok (''dtls loopback (in-process)'', ctx_new, loopback_suite example_dtls)"
    by (simp add: prepare_command_def dtls_command_def example_env_def)
  moreover obtain rep ctx' w' where "pipeline_run (loopback_suite example_dtls) ctx_new quiet_world = Ok (rep, ctx', w')"
    using loopback_suite.pipeline_ends by blast
  moreover have "con_out example_console = None" by (simp add: example_console_def)
  ultimately obtain out code where "main_run example_env ?cli example_console quiet_world = Ok (Exited out code, w')"
    using main_run_simple [of ?cli example_env example_console quiet_world, unfolded report_end]
    by (simp add: report_end_def Let_def)
  then show ?thesis using ends by blast
qed

end
