(* ===== verification/Turn_Protocol.thy ===== *)
theory Turn_Protocol
  imports Cli
begin

text \<open>
  The protocol a client of a TURN relay follows, as a state machine, and the \<open>turn\<close> pipeline as an
  implementation of it.  A phase holds what the client remembers; a step is one effect on the network, and
  its guards name the answer that permits it.  The answers a step rests on are the
  datagrams that arrive on its socket, in order: the client reads one after each request.
\<close>

section \<open>The machine\<close>

record protocol =
  pr_crypto :: crypto
  pr_user :: "string option"
  pr_pass :: "string option"
  pr_ips :: "ipaddr list"
  pr_port :: "u16 option"
  pr_count :: nat
  pr_inbox :: "nat \<Rightarrow> (nat \<times> (io_error + bytes \<times> sockaddr)) list"

text \<open>The \<open>i\<close>-th datagram on a socket, as read into a buffer of 1500 bytes.\<close>

definition answer :: "protocol \<Rightarrow> nat \<Rightarrow> nat \<Rightarrow> bytes option" where
  "answer P s i =
     (if i < length (pr_inbox P s)
      then (case snd (pr_inbox P s ! i) of Inl _ \<Rightarrow> None | Inr (msg, _) \<Rightarrow> Some (take 1500 msg))
      else None)"

definition to_server :: "protocol \<Rightarrow> sockaddr \<Rightarrow> bool" where
  "to_server P d \<longleftrightarrow> (\<exists>ip ips port. pr_ips P = ip # ips \<and> pr_port P = Some port \<and> d = sock_new ip port)"

text \<open>
  A phase names the socket in use and the transaction id that is outstanding.  From \<open>AllocSock\<close> on, the
  socket and transaction id of the Binding request are kept, when one was sent.
\<close>

datatype phase =
  Idle nat
| BindingSock nat
| BindingAsked nat bytes
| AllocSock nat "(nat \<times> bytes) option"
| AllocAsked nat "(nat \<times> bytes) option" bytes
| Authenticating nat "(nat \<times> bytes) option" bytes string bytes
| Permitting nat bytes sockaddr
| Echoing nat sockaddr nat
| Paused nat sockaddr nat

text \<open>The socket number to come next, before the allocation has its socket.\<close>

fun fresh_sock :: "phase \<Rightarrow> nat option" where
  "fresh_sock (Idle n) = Some n"
| "fresh_sock (BindingSock n) = Some (n + 1)"
| "fresh_sock (BindingAsked n tx) = Some (n + 1)"
| "fresh_sock _ = None"

fun binding_of :: "phase \<Rightarrow> (nat \<times> bytes) option" where
  "binding_of (BindingAsked n tx) = Some (n, tx)"
| "binding_of _ = None"

text \<open>The phases before a permission is asked for.\<close>

fun gathering :: "phase \<Rightarrow> bool" where
  "gathering (Permitting n tx relayed) = False"
| "gathering (Echoing n relayed k) = False"
| "gathering (Paused n relayed k) = False"
| "gathering _ = True"

definition session_key :: "protocol \<Rightarrow> string \<Rightarrow> bytes option" where
  "session_key P realm =
     (case (pr_user P, pr_pass P) of (Some u, Some p) \<Rightarrow> Some (long_term_key (pr_crypto P) u realm p) | _ \<Rightarrow> None)"

text \<open>The reflexive address a Binding request learned.\<close>

definition reflexive :: "protocol \<Rightarrow> (nat \<times> bytes) option \<Rightarrow> sockaddr option" where
  "reflexive P b =
     (case b of
        None \<Rightarrow> None
      | Some (s, tx) \<Rightarrow>
          (case answer P s 0 of
             None \<Rightarrow> None
           | Some buf \<Rightarrow> (case parse_binding_response buf tx of Ok a \<Rightarrow> Some (clear_flow a) | _ \<Rightarrow> None)))"

inductive turn_step :: "protocol \<Rightarrow> phase \<Rightarrow> effect \<Rightarrow> phase \<Rightarrow> bool" for P where
  bind_binding:
    "pr_ips P = ip # ips \<Longrightarrow> turn_step P (Idle n) (Bound n (local_bind_for ip)) (BindingSock n)"
| ask_binding:
    "build_binding_request cl sa = (tx, req) \<Longrightarrow> to_server P d \<Longrightarrow>
     turn_step P (BindingSock n) (Sent n req d) (BindingAsked n tx)"
| bind_alloc:
    "fresh_sock p = Some n \<Longrightarrow> pr_ips P = ip # ips \<Longrightarrow>
     turn_step P p (Bound n (local_bind_for ip)) (AllocSock n (binding_of p))"
| ask_alloc:
    "build_allocate_unauth cl sa = Ok (tx, req) \<Longrightarrow> to_server P d \<Longrightarrow>
     turn_step P (AllocSock n b) (Sent n req d) (AllocAsked n b tx)"
| authenticate:
    "answer P n 0 = Some buf \<Longrightarrow> parse_allocate_response buf tx = Ok (Unauthorized realm nonce) \<Longrightarrow>
     pr_user P = Some user \<Longrightarrow> session_key P realm = Some key \<Longrightarrow>
     build_allocate_authed (pr_crypto P) cl sa user realm nonce key = Ok (tx2, req) \<Longrightarrow> to_server P d \<Longrightarrow>
     turn_step P (AllocAsked n b tx) (Sent n req d) (Authenticating n b tx2 realm nonce)"
| permit:
    "answer P n 1 = Some buf \<Longrightarrow> parse_allocate_response buf tx = Ok (AllocSuccess relayed lifetime) \<Longrightarrow>
     pr_user P = Some user \<Longrightarrow> session_key P realm = Some key \<Longrightarrow> reflexive P b = Some peer \<Longrightarrow>
     build_create_permission (pr_crypto P) cl sa user realm nonce key peer = Ok (tx2, req) \<Longrightarrow> to_server P d \<Longrightarrow>
     turn_step P (Authenticating n b tx realm nonce) (Sent n req d) (Permitting n tx2 relayed)"
| first_echo:
    "answer P n 2 = Some buf \<Longrightarrow> parse_create_permission_response buf tx = Ok CpSuccess \<Longrightarrow> 0 < pr_count P \<Longrightarrow>
     turn_step P (Permitting n tx relayed) (Sent n (make_payload 0) relayed) (Echoing n relayed 1)"
| pause:
    "k < pr_count P \<Longrightarrow> turn_step P (Echoing n relayed k) (Slept ECHO_INTERVAL) (Paused n relayed k)"
| next_echo:
    "k < pr_count P \<Longrightarrow>
     turn_step P (Paused n relayed k) (Sent n (make_payload (word_of_nat k)) relayed) (Echoing n relayed (k + 1))"

text \<open>The effects of a run, in order.\<close>

inductive turn_path :: "protocol \<Rightarrow> phase \<Rightarrow> effect list \<Rightarrow> phase \<Rightarrow> bool" for P where
  stay: "turn_path P p [] p"
| move: "turn_path P p es q \<Longrightarrow> turn_step P q e r \<Longrightarrow> turn_path P p (es @ [e]) r"

inductive_cases turn_stepE:
  "turn_step P (AllocSock n b) e q" "turn_step P (AllocAsked n b tx) e q"
  "turn_step P (Authenticating n b tx realm nonce) e q" "turn_step P (Permitting n tx relayed) e q"
  "turn_step P (Echoing n relayed k) e q" "turn_step P (Paused n relayed k) e q"

lemma turn_path_one: "turn_step P p e q \<Longrightarrow> turn_path P p [e] q"
  using move [OF stay] by fastforce

lemma turn_path_append:
  assumes "turn_path P p es q" and "turn_path P q es' r"
  shows "turn_path P p (es @ es') r"
  using assms(2,1)
proof (induction rule: turn_path.induct)
  case (move q' es' s e t)
  then show ?case using turn_path.move [of P p "es @ es'" s e t] by simp
qed simp

lemma turn_path_cons: "turn_step P p e q \<Longrightarrow> turn_path P q es r \<Longrightarrow> turn_path P p (e # es) r"
  using turn_path_append [OF turn_path_one] by fastforce

text \<open>A run up to any of its effects is a run.\<close>

lemma turn_path_prefix:
  assumes "turn_path P p (es @ es') r"
  shows "\<exists>q. turn_path P p es q"
  using assms
proof (induction es' arbitrary: r rule: rev_induct)
  case (snoc e es')
  then have "turn_path P p ((es @ es') @ [e]) r" by simp
  then show ?case by (cases rule: turn_path.cases) (use snoc.IH in auto)
qed auto

section \<open>Invariants of the machine\<close>

definition is_payload :: "effect \<Rightarrow> bool" where
  "is_payload e = (case e of Sent _ m _ \<Rightarrow> take (length ECHO_PREFIX) m = ECHO_PREFIX | _ \<Rightarrow> False)"

definition is_pause :: "effect \<Rightarrow> bool" where
  "is_pause e = (case e of Slept _ \<Rightarrow> True | _ \<Rightarrow> False)"

text \<open>What each phase says of the effects before it and of the answers it rests on.\<close>

definition permitted :: "protocol \<Rightarrow> nat \<Rightarrow> sockaddr \<Rightarrow> bool" where
  "permitted P n relayed \<longleftrightarrow>
     pr_user P \<noteq> None \<and> pr_pass P \<noteq> None
     \<and> (\<exists>buf tx lifetime. answer P n 1 = Some buf \<and> parse_allocate_response buf tx = Ok (AllocSuccess relayed lifetime))
     \<and> (\<exists>buf tx. answer P n 2 = Some buf \<and> parse_create_permission_response buf tx = Ok CpSuccess)"

fun phase_inv :: "protocol \<Rightarrow> effect list \<Rightarrow> phase \<Rightarrow> bool" where
  "phase_inv P es (Permitting n tx relayed) \<longleftrightarrow>
     filter is_payload es = [] \<and> filter is_pause es = [] \<and> pr_user P \<noteq> None \<and> pr_pass P \<noteq> None
     \<and> (\<exists>buf tx lifetime. answer P n 1 = Some buf \<and> parse_allocate_response buf tx = Ok (AllocSuccess relayed lifetime))"
| "phase_inv P es (Echoing n relayed k) \<longleftrightarrow>
     filter is_payload es = map (echo_sent n relayed) [0..<k] \<and> 0 < k \<and> k \<le> pr_count P
     \<and> filter is_pause es = replicate (k - 1) (Slept ECHO_INTERVAL) \<and> permitted P n relayed"
| "phase_inv P es (Paused n relayed k) \<longleftrightarrow>
     filter is_payload es = map (echo_sent n relayed) [0..<k] \<and> 0 < k \<and> k < pr_count P
     \<and> filter is_pause es = replicate k (Slept ECHO_INTERVAL) \<and> permitted P n relayed"
| "phase_inv P es _ \<longleftrightarrow> filter is_payload es = [] \<and> filter is_pause es = []"

text \<open>No request looks like a payload: its first byte is zero.\<close>

lemma zero_no_payload: "take 1 m = [0] \<Longrightarrow> \<not> is_payload (Sent s m d)"
  by (cases m) (auto simp: is_payload_def ECHO_PREFIX_def as_bytes_def byte_of_char_def)

lemma payload_is_payload [simp]: "is_payload (Sent s (make_payload k) d)"
  by (simp add: is_payload_def make_payload_def)

lemma not_payload [simp]: "\<not> is_payload (Bound s a)" "\<not> is_payload (Slept d)"
  by (simp_all add: is_payload_def)

lemma pause_simps [simp]: "is_pause (Slept d)" "\<not> is_pause (Bound s a)" "\<not> is_pause (Sent s m a)"
  by (simp_all add: is_pause_def)

lemma attach_mi_type:
  assumes "attach_message_integrity c (stun_header mt tx @ body) key = Ok m" and "length tx = 12"
  shows "take 1 m = [ucast (drop_bit 8 mt)]"
proof -
  have "take 2 m = to_be 2 mt"
    using assms
    by (auto simp: attach_message_integrity_def copy_length_field stun_header_append Let_def simp del: length_append)
  then have "take 1 (take 2 m) = take 1 (to_be 2 mt)" by simp
  then show ?thesis by (simp add: to_be_2)
qed

lemma request_types: "ucast (drop_bit 8 BINDING_REQUEST) = (0 :: 8 word)" "ucast (drop_bit 8 ALLOCATE_REQUEST) = (0 :: 8 word)"
  "ucast (drop_bit 8 CREATE_PERMISSION_REQUEST) = (0 :: 8 word)"
  by (simp_all add: BINDING_REQUEST_def ALLOCATE_REQUEST_def CREATE_PERMISSION_REQUEST_def)

lemma requests_no_payload:
  "build_binding_request cl sa = (tx, m) \<Longrightarrow> \<not> is_payload (Sent s m d)"
  "build_allocate_unauth cl sa = Ok (tx, m) \<Longrightarrow> \<not> is_payload (Sent s m d)"
  "build_allocate_authed c cl sa u r n key = Ok (tx, m) \<Longrightarrow> \<not> is_payload (Sent s m d)"
  "build_create_permission c cl sa u r n key peer = Ok (tx, m) \<Longrightarrow> \<not> is_payload (Sent s m d)"
proof -
  show "build_binding_request cl sa = (tx, m) \<Longrightarrow> \<not> is_payload (Sent s m d)"
    by (rule zero_no_payload) (auto simp: build_binding_request_message message_def to_be_2 request_types)
  show "build_allocate_unauth cl sa = Ok (tx, m) \<Longrightarrow> \<not> is_payload (Sent s m d)"
    by (rule zero_no_payload) (auto simp: build_allocate_unauth_message message_def to_be_2 request_types)
  show "build_allocate_authed c cl sa u r n key = Ok (tx, m) \<Longrightarrow> \<not> is_payload (Sent s m d)"
    by (rule zero_no_payload)
      (auto simp: build_allocate_authed_def append_attr_enc Let_def request_types res_simps dest!: attach_mi_type)
  show "build_create_permission c cl sa u r n key peer = Ok (tx, m) \<Longrightarrow> \<not> is_payload (Sent s m d)"
    by (rule zero_no_payload)
      (auto simp: build_create_permission_def append_attr_enc Let_def request_types res_simps dest!: attach_mi_type)
qed

lemma session_key_Some: "session_key P realm = Some key \<Longrightarrow> pr_user P \<noteq> None \<and> pr_pass P \<noteq> None"
  by (auto simp: session_key_def split: option.splits)

lemma phase_inv_step:
  assumes "turn_step P p e q" and "phase_inv P es p"
  shows "phase_inv P (es @ [e]) q"
  using assms
proof (cases rule: turn_step.cases)
  case (bind_alloc n ip ips)
  then show ?thesis using assms(2) by (cases p) auto
next
  case (permit n buf tx relayed lifetime user realm key b peer cl sa tx2 req d nonce)
  then show ?thesis using assms(2) session_key_Some requests_no_payload(4) by auto
next
  case (pause k n relayed)
  then show ?thesis using assms(2) by (cases k) (auto simp: replicate_append_same)
qed (use assms(2) in \<open>auto simp: requests_no_payload permitted_def echo_sent_def\<close>)

lemma phase_inv_path:
  assumes "turn_path P (Idle n) es p"
  shows "phase_inv P es p"
  using assms by (induction "Idle n" es p rule: turn_path.induct) (auto intro: phase_inv_step)

section \<open>The checks follow the machine\<close>

text \<open>A context whose addresses, port and credentials are the machine's, and sockets not yet used.\<close>

definition protocol_of :: "crypto \<Rightarrow> probe_ctx \<Rightarrow> ipaddr list \<Rightarrow> world \<Rightarrow> protocol" where
  "protocol_of c ctx ips w =
     \<lparr>pr_crypto = c, pr_user = turn_user ctx, pr_pass = turn_pass ctx, pr_ips = ips, pr_port = ctx_port ctx,
      pr_count = unat (max (echo_count ctx) 1), pr_inbox = w_inbox w\<rparr>"

definition untouched :: "protocol \<Rightarrow> world \<Rightarrow> bool" where
  "untouched P w \<longleftrightarrow> (\<forall>s \<ge> w_socks w. w_inbox w s = pr_inbox P s)"

lemma stun_follows:
  assumes "stun_run ctx w = Ok (r, ctx', w')"
    and P: "pr_ips P = resolved_ips ctx" "pr_port P = ctx_port ctx" "untouched P w"
  shows "\<exists>es p. w_log w' = w_log w @ es \<and> turn_path P (Idle (w_socks w)) es p
     \<and> fresh_sock p = Some (w_socks w') \<and> untouched P w'
     \<and> (r_status r = Pass \<longrightarrow> (\<exists>srflx. scratch ctx' ''srflx'' = Some (show_sock srflx)
          \<and> reflexive P (binding_of p) = Some (clear_flow srflx)))"
proof -
  let ?n = "w_socks w"
  have bind: "turn_path P (Idle ?n) [Bound ?n (local_bind_for ip)] (BindingSock ?n)" if "resolved_ips ctx = ip # ips" for ip ips
    using P that by (auto intro: turn_path_one bind_binding)
  from stun_run_stages [OF assms(1)] show ?thesis
  proof (elim disjE exE conjE)
    assume "r_status r \<noteq> Pass" "w_inbox w' = w_inbox w" "w_log w' = w_log w" "w_socks w' = ?n"
    then show ?thesis using P(3) by (intro exI [of _ "[]"] exI [of _ "Idle ?n"]) (simp add: stay untouched_def)
  next
    fix ip ips assume "resolved_ips ctx = ip # ips"
    note b = bind [OF this]
    assume "r_status r \<noteq> Pass" "w_inbox w' = w_inbox w" "w_socks w' = ?n + 1" "w_log w' = w_log w @ [Bound ?n (local_bind_for ip)]"
    then show ?thesis using P(3) b
      by (intro exI [of _ "[Bound ?n (local_bind_for ip)]"] exI [of _ "BindingSock ?n"]) (simp add: untouched_def)
  next
    assume "stun_asked ctx w r ctx' w'"
    then obtain ip ips port cl sa txid request where i: "resolved_ips ctx = ip # ips" and p: "ctx_port ctx = Some port"
      and b: "build_binding_request cl sa = (txid, request)"
      and w': "w_log w' = w_log w @ [Bound ?n (local_bind_for ip), Sent ?n request (sock_new ip port)]"
        "w_socks w' = ?n + 1" "\<forall>s. s \<noteq> ?n \<longrightarrow> w_inbox w' s = w_inbox w s"
      and pass: "r_status r = Pass \<longrightarrow> (\<exists>t msg from rest srflx. w_inbox w ?n = (t, Inr (msg, from)) # rest
             \<and> parse_binding_response (take 1500 msg) txid = Ok srflx
             \<and> ctx' = ctx\<lparr>scratch := (scratch ctx)(''srflx'' \<mapsto> show_sock srflx)\<rparr>)" unfolding stun_asked_def by blast
    have srv: "to_server P (sock_new ip port)" using P p i by (simp add: to_server_def)
    note path = move [OF bind [OF i] ask_binding [OF b srv]]
    have "\<exists>srflx. scratch ctx' ''srflx'' = Some (show_sock srflx) \<and> reflexive P (Some (?n, txid)) = Some (clear_flow srflx)"
      if ok: "r_status r = Pass"
    proof -
      from pass ok obtain t msg from' rest srflx where m: "w_inbox w ?n = (t, Inr (msg, from')) # rest"
        "parse_binding_response (take 1500 msg) txid = Ok srflx"
        "ctx' = ctx\<lparr>scratch := (scratch ctx)(''srflx'' \<mapsto> show_sock srflx)\<rparr>" by blast
      then have "answer P ?n 0 = Some (take 1500 msg)" using P(3) by (simp add: answer_def untouched_def)
      then show ?thesis using m by (auto simp: reflexive_def)
    qed
    moreover have "untouched P w'" using P(3) w' by (auto simp: untouched_def)
    ultimately show ?thesis using path w'
      by (intro exI [of _ "[Bound ?n (local_bind_for ip), Sent ?n request (sock_new ip port)]"] exI [of _ "BindingAsked ?n txid"]) simp
  qed
qed

text \<open>Round 2 of the allocation, with the answer a session rests on.\<close>

lemma round2_follows:
  assumes "turn_alloc_round2 c st sock sv rl nc us pw ctx w = Ok (r, ctx', w')"
  defines "key \<equiv> long_term_key c us rl pw"
  shows "\<exists>cl sa tx req. build_allocate_authed c cl sa us rl nc key = Ok (tx, req)
     \<and> (w_log w' = w_log w \<and> ctx' = ctx
      \<or> w_log w' = w_log w @ [Sent sock req sv]
        \<and> (ctx' = ctx
          \<or> (\<exists>t msg src rest relayed lifetime. w_inbox w sock = (t, Inr (msg, src)) # rest \<and> w_inbox w' sock = rest
               \<and> parse_allocate_response (take 1500 msg) tx = Ok (AllocSuccess relayed lifetime)
               \<and> scratch ctx' ''srflx'' = scratch ctx ''srflx''
               \<and> ctx_session ctx' = Some \<lparr>ts_socket = sock, ts_server = sv, ts_relayed = relayed, ts_realm = rl,
                   ts_nonce = nc, ts_key = key, ts_username = us\<rparr>)))"
proof -
  obtain cl sa w1 where 1: "next_seed w = ((cl, sa), w1)" by (metis surj_pair)
  obtain tx req where m: "build_allocate_authed c cl sa us rl nc key = Ok (tx, req)"
    using build_allocate_authed_total by blast
  obtain sent w2 where 2: "udp_send sock req sv w1 = (sent, w2)" by fastforce
  obtain got w3 where 3: "udp_recv sock (recv_timeout_of ctx) w2 = (got, w3)" by fastforce
  have in2: "w_inbox w2 = w_inbox w" using next_seed_inbox [OF 1] udp_send_inbox [OF 2] by simp
  note steps = next_seed_step [OF 1] udp_send_step [OF 2] udp_recv_step [OF 3]
  note run = assms(1) [unfolded turn_alloc_round2_def, folded key_def, simplified Let_def 1 2 m prod.case bind_res.simps]
  show ?thesis
  proof (cases "sent = None \<and> ctx' \<noteq> ctx")
    case False
    then have "(w_log w' = w_log w \<or> w_log w' = w_log w @ [Sent sock req sv]) \<and> ctx' = ctx"
      using run steps 3
      by (cases sent) (auto dest!: fail_now_Ok elapsed_ms_step
          split: recv_result.splits res.splits allocate_outcome.splits prod.splits)
    then show ?thesis using m by blast
  next
    case True
    then obtain buf src where g: "got = RecvOk buf src" using run 3 by (cases got) (auto dest!: fail_now_Ok)
    obtain relayed lifetime where o: "parse_allocate_response buf tx = Ok (AllocSuccess relayed lifetime)"
      using run True 3 g by (auto dest!: fail_now_Ok split: res.splits allocate_outcome.splits prod.splits)
    obtain ms w4 where 4: "elapsed_ms st w3 = (ms, w4)" by fastforce
    from udp_recv_inbox [OF 3 [unfolded g]] obtain t msg rest where
      b: "w_inbox w sock = (t, Inr (msg, src)) # rest" "buf = take 1500 msg" "w_inbox w3 sock = rest" unfolding in2 by auto
    have "w' = w4" "scratch ctx' ''srflx'' = scratch ctx ''srflx''"
      "ctx_session ctx' = Some \<lparr>ts_socket = sock, ts_server = sv, ts_relayed = relayed, ts_realm = rl,
         ts_nonce = nc, ts_key = key, ts_username = us\<rparr>"
      using run True 3 g o 4 by auto
    moreover have "w_log w4 = w_log w @ [Sent sock req sv]" "w_inbox w4 sock = rest"
      using steps True elapsed_ms_step [OF 4] elapsed_ms_inbox [OF 4] b by auto
    ultimately show ?thesis using m o b by blast
  qed
qed

text \<open>The session and the phase it stands for.\<close>

definition session_phase :: "protocol \<Rightarrow> (nat \<times> bytes) option \<Rightarrow> turn_session \<Rightarrow> world \<Rightarrow> phase \<Rightarrow> bool" where
  "session_phase P b s w p \<longleftrightarrow>
     (\<exists>tx buf lifetime. p = Authenticating (ts_socket s) b tx (ts_realm s) (ts_nonce s)
        \<and> answer P (ts_socket s) 1 = Some buf \<and> parse_allocate_response buf tx = Ok (AllocSuccess (ts_relayed s) lifetime))
     \<and> pr_user P = Some (ts_username s) \<and> session_key P (ts_realm s) = Some (ts_key s) \<and> to_server P (ts_server s)
     \<and> w_inbox w (ts_socket s) = drop 2 (pr_inbox P (ts_socket s))"

lemma answer_first: "pr_inbox P s = (t, Inr (msg, src)) # rest \<Longrightarrow> answer P s 0 = Some (take 1500 msg)"
  by (simp add: answer_def)

lemma answer_second: "pr_inbox P s = a # (t, Inr (msg, src)) # rest \<Longrightarrow> answer P s (Suc 0) = Some (take 1500 msg)"
  by (simp add: answer_def)

lemma challenged_follows:
  assumes run: "turn_alloc_challenged c st sock sv o1 ctx w = Ok (r, ctx', w')"
    and P: "pr_crypto P = c" "pr_user P = turn_user ctx" "pr_pass P = turn_pass ctx" "to_server P sv"
    and in1: "pr_inbox P sock = (t, Inr (msg, src)) # w_inbox w sock"
    and o1: "parse_allocate_response (take 1500 msg) tx1 = Ok o1"
    and none: "ctx_session ctx = None"
  shows "\<exists>es p. w_log w' = w_log w @ es \<and> turn_path P (AllocAsked sock b tx1) es p
     \<and> scratch ctx' ''srflx'' = scratch ctx ''srflx'' \<and> gathering p
     \<and> (ctx_session ctx' = None \<or> (\<exists>s. ctx_session ctx' = Some s \<and> session_phase P b s w' p))"
proof (cases "ctx_session ctx' = None \<and> w_log w' = w_log w")
  case True
  moreover have "scratch ctx' ''srflx'' = scratch ctx ''srflx''"
    using turn_alloc_challenged_ctx [OF run] by auto
  ultimately show ?thesis by (intro exI [of _ "[]"] exI [of _ "AllocAsked sock b tx1"]) (simp add: stay)
next
  case False
  then obtain realm nonce user pass where o: "o1 = Unauthorized realm nonce"
    and up: "turn_user ctx = Some user" "turn_pass ctx = Some pass"
    and r2: "turn_alloc_round2 c st sock sv realm nonce user pass ctx w = Ok (r, ctx', w')"
    using turn_alloc_challenged_cases [OF run] none by (auto split: allocate_outcome.splits option.splits)
  let ?key = "long_term_key c user realm pass"
  have key: "session_key P realm = Some ?key" using P up by (simp add: session_key_def)
  from round2_follows [OF r2] obtain cl sa tx req where
    b: "build_allocate_authed c cl sa user realm nonce ?key = Ok (tx, req)" and
    cs: "w_log w' = w_log w \<and> ctx' = ctx \<or> w_log w' = w_log w @ [Sent sock req sv]
        \<and> (ctx' = ctx
          \<or> (\<exists>t msg src rest relayed lifetime. w_inbox w sock = (t, Inr (msg, src)) # rest \<and> w_inbox w' sock = rest
               \<and> parse_allocate_response (take 1500 msg) tx = Ok (AllocSuccess relayed lifetime)
               \<and> scratch ctx' ''srflx'' = scratch ctx ''srflx''
               \<and> ctx_session ctx' = Some \<lparr>ts_socket = sock, ts_server = sv, ts_relayed = relayed, ts_realm = realm,
                   ts_nonce = nonce, ts_key = ?key, ts_username = user\<rparr>))" by blast
  have lg: "w_log w' = w_log w @ [Sent sock req sv]" using cs False none by auto
  have "turn_step P (AllocAsked sock b tx1) (Sent sock req sv) (Authenticating sock b tx realm nonce)"
    using answer_first [OF in1] o1 key b P up by (intro authenticate) (simp_all add: o)
  note path = turn_path_one [OF this]
  show ?thesis
  proof (cases "ctx' = ctx")
    case True
    then show ?thesis using lg path none by (intro exI conjI) (assumption | simp)+
  next
    case False
    then obtain t2 msg2 src2 rest relayed lifetime where
      i: "w_inbox w sock = (t2, Inr (msg2, src2)) # rest" "w_inbox w' sock = rest"
      "parse_allocate_response (take 1500 msg2) tx = Ok (AllocSuccess relayed lifetime)"
      "scratch ctx' ''srflx'' = scratch ctx ''srflx''"
      "ctx_session ctx' = Some \<lparr>ts_socket = sock, ts_server = sv, ts_relayed = relayed, ts_realm = realm,
         ts_nonce = nonce, ts_key = ?key, ts_username = user\<rparr>" using cs lg by auto
    have "pr_inbox P sock = (t, Inr (msg, src)) # (t2, Inr (msg2, src2)) # rest" using in1 i(1) by simp
    with answer_second [OF this] have "session_phase P b \<lparr>ts_socket = sock, ts_server = sv, ts_relayed = relayed,
        ts_realm = realm, ts_nonce = nonce, ts_key = ?key, ts_username = user\<rparr> w' (Authenticating sock b tx realm nonce)"
      using i key P up by (simp add: session_phase_def)
    then show ?thesis using lg path i(4,5) by (intro exI [of _ "[Sent sock req sv]"] exI [of _ "Authenticating sock b tx realm nonce"]) simp
  qed
qed

lemma fresh_gathering: "fresh_sock p = Some n \<Longrightarrow> gathering p"
  by (cases p) simp_all

lemma alloc_follows:
  assumes "turn_alloc_run c ctx w = Ok (r, ctx', w')"
    and P: "pr_crypto P = c" "pr_user P = turn_user ctx" "pr_pass P = turn_pass ctx"
      "pr_ips P = resolved_ips ctx" "pr_port P = ctx_port ctx" "untouched P w"
    and fr: "fresh_sock p0 = Some (w_socks w)" and none: "ctx_session ctx = None"
  shows "\<exists>es p. w_log w' = w_log w @ es \<and> turn_path P p0 es p
     \<and> scratch ctx' ''srflx'' = scratch ctx ''srflx'' \<and> gathering p
     \<and> (ctx_session ctx' = None \<or> (\<exists>s. ctx_session ctx' = Some s \<and> session_phase P (binding_of p0) s w' p))"
  using turn_alloc_run_start [OF assms(1)]
proof (elim disjE exE conjE)
  assume "w_log w' = w_log w" "ctx' = ctx"
  then show ?thesis using none fresh_gathering [OF fr] by (intro exI [of _ "[]"] exI [of _ p0]) (simp add: stay)
next
  fix ip ips port started w1
  let ?n = "w_socks w"
  assume i: "resolved_ips ctx = ip # ips" and p: "ctx_port ctx = Some port"
    and w1: "w_log w1 = w_log w @ [Bound ?n (local_bind_for ip)]" "w_inbox w1 = w_inbox w"
    and r1: "turn_alloc_round1 c started ?n (sock_new ip port) ctx w1 = Ok (r, ctx', w')"
  have srv: "to_server P (sock_new ip port)" using P p i by (simp add: to_server_def)
  have bind: "turn_path P p0 [Bound ?n (local_bind_for ip)] (AllocSock ?n (binding_of p0))"
    using P i fr by (auto intro: turn_path_one bind_alloc)
  from turn_alloc_round1_cases [OF r1] obtain cl sa txid req where u: "build_allocate_unauth cl sa = Ok (txid, req)"
    and cs: "ctx' = ctx \<and> (w_log w' = w_log w1 \<or> w_log w' = w_log w1 @ [Sent ?n req (sock_new ip port)])
      \<or> (\<exists>t msg src rest o1 w2. w_log w2 = w_log w1 @ [Sent ?n req (sock_new ip port)]
         \<and> w_inbox w1 ?n = (t, Inr (msg, src)) # rest \<and> w_inbox w2 ?n = rest
         \<and> parse_allocate_response (take 1500 msg) txid = Ok o1
         \<and> turn_alloc_challenged c started ?n (sock_new ip port) o1 ctx w2 = Ok (r, ctx', w'))" by blast
  let ?es = "[Bound ?n (local_bind_for ip), Sent ?n req (sock_new ip port)]"
  have path: "turn_path P p0 ?es (AllocAsked ?n (binding_of p0) txid)"
    using move [OF bind ask_alloc [OF u srv]] by simp
  from cs show ?thesis
  proof (elim disjE exE conjE)
    assume "ctx' = ctx" "w_log w' = w_log w1"
    then show ?thesis using none bind w1 by (intro exI conjI) (assumption | simp)+
  next
    assume "ctx' = ctx" "w_log w' = w_log w1 @ [Sent ?n req (sock_new ip port)]"
    then show ?thesis using none path w1 by (intro exI conjI) (assumption | simp)+
  next
    fix t msg src rest o1 w2
    assume w2: "w_log w2 = w_log w1 @ [Sent ?n req (sock_new ip port)]" "w_inbox w1 ?n = (t, Inr (msg, src)) # rest"
      "w_inbox w2 ?n = rest" and o1: "parse_allocate_response (take 1500 msg) txid = Ok o1"
      and ch: "turn_alloc_challenged c started ?n (sock_new ip port) o1 ctx w2 = Ok (r, ctx', w')"
    have "pr_inbox P ?n = (t, Inr (msg, src)) # w_inbox w2 ?n" using P(6) w1 w2 by (simp add: untouched_def)
    from challenged_follows [OF ch P(1-3) srv this o1 none, of "binding_of p0"] obtain es q where
      q: "w_log w' = w_log w2 @ es" "turn_path P (AllocAsked ?n (binding_of p0) txid) es q"
        "scratch ctx' ''srflx'' = scratch ctx ''srflx''" "gathering q"
        "ctx_session ctx' = None \<or> (\<exists>s. ctx_session ctx' = Some s \<and> session_phase P (binding_of p0) s w' q)" by blast
    have "turn_path P p0 (?es @ es) q" by (rule turn_path_append [OF path q(2)])
    then show ?thesis using q(1,3,4,5) w1 w2 by (intro exI [of _ "?es @ es"] exI [of _ q]) simp
  qed
qed

lemma answer_third:
  assumes "drop 2 (pr_inbox P s) = (t, Inr (msg, src)) # rest"
  shows "answer P s 2 = Some (take 1500 msg)"
proof -
  have len: "2 < length (pr_inbox P s)" using assms by (metis drop_eq_Nil leI list.distinct(1))
  then have "pr_inbox P s ! 2 = (t, Inr (msg, src))" using assms nth_drop [of 2 "pr_inbox P s" 0] by simp
  with len have "2 < length (pr_inbox P s) \<and> pr_inbox P s ! 2 = (t, Inr (msg, src))" by simp
  then show ?thesis by (simp add: answer_def)
qed

lemma send_follows:
  assumes "send_echoes n rel (pr_count P) [k..<pr_count P] sent_at w = (res, w')"
    and "turn_step P p (echo_sent n rel k) (Echoing n rel (k + 1))" and "k < pr_count P"
  shows "\<exists>es q. w_log w' = w_log w @ es \<and> turn_path P p es q
     \<and> ((\<exists>sent'. res = Inr sent') \<longrightarrow> q = Echoing n rel (pr_count P))"
  using assms
proof (induction "pr_count P - k" arbitrary: k p sent_at w)
  case (Suc d)
  have up: "[k..<pr_count P] = k # [Suc k..<pr_count P]" using Suc.prems(3) by (rule upt_conv_Cons)
  obtain now w1 where 1: "instant_now w = (now, w1)" by fastforce
  obtain sent w2 where 2: "udp_send n (make_payload (word_of_nat k)) rel w1 = (sent, w2)" by fastforce
  note st = instant_now_step [OF 1] udp_send_step [OF 2]
  note run = Suc.prems(1) [unfolded up send_echoes.simps Let_def, simplified 1 2 prod.case]
  show ?case
  proof (cases sent)
    case (Some e)
    then show ?thesis using run st by (intro exI [of _ "[]"] exI [of _ p]) (auto simp: stay)
  next
    case None
    note first = turn_path_one [OF Suc.prems(2)]
    have lg: "w_log w2 = w_log w @ [echo_sent n rel k]" using st None by (simp add: echo_sent_def)
    show ?thesis
    proof (cases "Suc k < pr_count P")
      case False
      then have "w' = w2" "Suc k = pr_count P" using run None Suc.prems(3) by auto
      then show ?thesis using lg first by (intro exI [of _ "[echo_sent n rel k]"] exI [of _ "Echoing n rel (k + 1)"]) simp
    next
      case True
      have "send_echoes n rel (pr_count P) [Suc k..<pr_count P] (sent_at[k := Some now]) (sleep_for ECHO_INTERVAL w2) = (res, w')"
        using run None True by simp
      moreover have "turn_step P (Paused n rel (Suc k)) (echo_sent n rel (Suc k)) (Echoing n rel (Suc k + 1))"
        unfolding echo_sent_def using True by (rule next_echo)
      moreover have "d = pr_count P - Suc k" using Suc.hyps(2) by simp
      ultimately obtain es q where q: "w_log w' = w_log (sleep_for ECHO_INTERVAL w2) @ es"
        "turn_path P (Paused n rel (Suc k)) es q" "(\<exists>sent'. res = Inr sent') \<longrightarrow> q = Echoing n rel (pr_count P)"
        using Suc.hyps(1) True by blast
      have "turn_step P (Echoing n rel (k + 1)) (Slept ECHO_INTERVAL) (Paused n rel (Suc k))"
        using pause [of "Suc k"] True by simp
      from turn_path_append [OF move [OF first this] q(2)]
      have "turn_path P p ([echo_sent n rel k, Slept ECHO_INTERVAL] @ es) q" by simp
      moreover have "w_log w' = w_log w @ [echo_sent n rel k, Slept ECHO_INTERVAL] @ es" using q(1) lg by simp
      ultimately show ?thesis using q(3) by blast
    qed
  qed
qed simp

lemma echo_follows:
  assumes "turn_echo_run c ctx w = Ok (r, ctx', w')"
    and P: "pr_crypto P = c" "pr_count P = unat (max (echo_count ctx) 1)"
    and s: "ctx_session ctx = Some s" "session_phase P b s w p"
    and sr: "Option.bind (scratch ctx ''srflx'') parse_sock = Some peer" "reflexive P b = Some peer"
  shows "\<exists>es q. w_log w' = w_log w @ es \<and> turn_path P p es q
     \<and> (r_status r \<noteq> Fail \<longrightarrow> q = Echoing (ts_socket s) (ts_relayed s) (pr_count P))"
proof -
  let ?n = "ts_socket s" and ?cp = "\<lambda>req. [Sent (ts_socket s) req (ts_server s)]"
  obtain tx buf1 lt where p: "p = Authenticating ?n b tx (ts_realm s) (ts_nonce s)"
    and a1: "answer P ?n 1 = Some buf1" "parse_allocate_response buf1 tx = Ok (AllocSuccess (ts_relayed s) lt)"
    and u: "pr_user P = Some (ts_username s)" "session_key P (ts_realm s) = Some (ts_key s)" "to_server P (ts_server s)"
    and inb: "w_inbox w ?n = drop 2 (pr_inbox P ?n)" using s(2) by (auto simp: session_phase_def)
  from turn_echo_run_stages [OF assms(1) s(1) sr(1)] obtain cl sa txid req where
    m: "build_create_permission c cl sa (ts_username s) (ts_realm s) (ts_nonce s) (ts_key s) peer = Ok (txid, req)"
    and cs: "r_status r = Fail \<and> (w_log w' = w_log w \<or> w_log w' = w_log w @ ?cp req)
      \<or> (\<exists>t msg src rest started w1. w_inbox w ?n = (t, Inr (msg, src)) # rest
           \<and> parse_create_permission_response (take 1500 msg) txid = Ok CpSuccess \<and> w_log w1 = w_log w @ ?cp req
           \<and> echo_exchange s peer (recv_timeout_of ctx) (max (echo_count ctx) 1) started ctx w1 = Ok (r, ctx', w'))" by blast
  have perm: "turn_path P p (?cp req) (Permitting ?n txid (ts_relayed s))"
    unfolding p by (rule turn_path_one, rule permit) (use a1 u sr m P in auto)
  from cs show ?thesis
  proof (elim disjE exE conjE)
    assume "r_status r = Fail" "w_log w' = w_log w"
    then show ?thesis by (intro exI [of _ "[]"] exI [of _ p]) (simp add: stay)
  next
    assume "r_status r = Fail" "w_log w' = w_log w @ ?cp req"
    then show ?thesis using perm by (intro exI conjI) (assumption | simp)+
  next
    fix t msg src rest started w1
    assume "w_inbox w ?n = (t, Inr (msg, src)) # rest" and cp: "parse_create_permission_response (take 1500 msg) txid = Ok CpSuccess"
      and lg: "w_log w1 = w_log w @ ?cp req"
      and ex: "echo_exchange s peer (recv_timeout_of ctx) (max (echo_count ctx) 1) started ctx w1 = Ok (r, ctx', w')"
    then have a2: "answer P ?n 2 = Some (take 1500 msg)" using answer_third inb by simp
    have pos: "0 < pr_count P" unfolding P(2) unat_gt_0 by (auto simp: max_def)
    have ready: "turn_step P (Permitting ?n txid (ts_relayed s)) (echo_sent ?n (ts_relayed s) 0) (Echoing ?n (ts_relayed s) (0 + 1))"
      unfolding echo_sent_def using first_echo [OF a2 cp pos] by simp
    obtain res w2 where 2: "send_echoes ?n (ts_relayed s) (pr_count P) [0..<pr_count P] (replicate (pr_count P) None) w1 = (res, w2)"
      by fastforce
    from send_follows [OF 2 ready pos] obtain es q where q: "w_log w2 = w_log w1 @ es"
      "turn_path P (Permitting ?n txid (ts_relayed s)) es q"
      "(\<exists>sent'. res = Inr sent') \<longrightarrow> q = Echoing ?n (ts_relayed s) (pr_count P)" by blast
    have "w_log w' = w_log w2 \<and> (r_status r \<noteq> Fail \<longrightarrow> (\<exists>sent'. res = Inr sent'))"
      using echo_exchange_after [OF 2 [unfolded P(2)], of peer "recv_timeout_of ctx" started ctx] ex by auto
    then show ?thesis using turn_path_append [OF perm q(2)] q lg
      by (intro exI [of _ "?cp req @ es"] exI [of _ q]) simp
  qed
qed

section \<open>The pipeline follows the machine\<close>

text \<open>The checks after a successful DNS check, on the context it left.\<close>

lemma turn_checks_ips:
  assumes "stun_run c0 v0 = Ok (r1, c1, v1)" and "turn_alloc_run c c1 v1 = Ok (r2, c2, v2)"
  shows "resolved_ips c2 = resolved_ips c0"
  using stun_run_cases [OF assms(1)] turn_alloc_run_cases [OF assms(2)]
  by (auto dest!: turn_alloc_challenged_ctx split: if_splits)

lemma turn_echo_run_ctx: "turn_echo_run c ctx w = Ok (r, ctx', w') \<Longrightarrow> ctx' = ctx"
  using turn_echo_run_spec [of c ctx w] by auto

lemma turn_checks_follow:
  assumes st: "stun_run c0 v0 = Ok (r1, c1, v1)" and al: "turn_alloc_run c c1 v1 = Ok (r2, c2, v2)"
    and ec: "if r_status r1 = Pass \<and> r_status r2 = Pass then turn_echo_run c c2 v2 = Ok (r3, ctx', w2)
        else r_status r3 = Skip \<and> ctx' = c2 \<and> w2 = v2"
    and none: "ctx_session c0 = None"
    and P: "pr_crypto P = c" "pr_user P = turn_user c0" "pr_pass P = turn_pass c0" "pr_ips P = resolved_ips c0"
      "pr_port P = ctx_port c0" "pr_count P = unat (max (echo_count c0) 1)" "untouched P v0"
  shows "\<exists>es p. w_log w2 = w_log v0 @ es \<and> turn_path P (Idle (w_socks v0)) es p
     \<and> (r_status r3 \<in> {Pass, Warn} \<longrightarrow>
          (\<exists>s. ctx_session ctx' = Some s \<and> p = Echoing (ts_socket s) (ts_relayed s) (pr_count P)))"
proof -
  have c1: "resolved_ips c1 = resolved_ips c0" "ctx_config c1 = ctx_config c0" "ctx_session c1 = None"
    using stun_run_cases [OF st] stun_run_config [OF st] stun_run_session [OF st] none by (auto split: if_splits)
  have c2: "ctx_config c2 = ctx_config c0" using turn_alloc_run_config [OF al] c1(2) by simp
  from stun_follows [OF st P(4,5,7)] obtain es1 p1 where
    a: "w_log v1 = w_log v0 @ es1" "turn_path P (Idle (w_socks v0)) es1 p1" "fresh_sock p1 = Some (w_socks v1)" "untouched P v1"
      "r_status r1 = Pass \<longrightarrow> (\<exists>srflx. scratch c1 ''srflx'' = Some (show_sock srflx)
          \<and> reflexive P (binding_of p1) = Some (clear_flow srflx))" by blast
  have P1: "pr_user P = turn_user c1" "pr_pass P = turn_pass c1" "pr_ips P = resolved_ips c1" "pr_port P = ctx_port c1"
    using P c1 by (simp_all add: config_same)
  from alloc_follows [OF al P(1) P1 a(4,3) c1(3)] obtain es2 p2 where
    b: "w_log v2 = w_log v1 @ es2" "turn_path P p1 es2 p2" "scratch c2 ''srflx'' = scratch c1 ''srflx''"
      "ctx_session c2 = None \<or> (\<exists>s. ctx_session c2 = Some s \<and> session_phase P (binding_of p1) s v2 p2)" by blast
  note path2 = turn_path_append [OF a(2) b(2)]
  show ?thesis
  proof (cases "r_status r1 = Pass \<and> r_status r2 = Pass \<and> ctx_session c2 \<noteq> None")
    case False
    then have "w_log w2 = w_log v2 \<and> r_status r3 = Skip"
      using ec by (auto split: if_splits simp: turn_echo_run_def skip_result_def)
    then show ?thesis using path2 a(1) b(1) by (intro exI [of _ "es1 @ es2"] exI [of _ p2]) simp
  next
    case True
    then obtain s srflx where s: "ctx_session c2 = Some s" "session_phase P (binding_of p1) s v2 p2"
      and x: "scratch c1 ''srflx'' = Some (show_sock srflx)" "reflexive P (binding_of p1) = Some (clear_flow srflx)"
      using a(5) b(4) by auto
    have er: "turn_echo_run c c2 v2 = Ok (r3, ctx', w2)" using ec True by simp
    have srx: "Option.bind (scratch c2 ''srflx'') parse_sock = Some (clear_flow srflx)"
      using x(1) b(3) by (simp add: parse_show_sock del: show_sock.simps)
    have cnt: "pr_count P = unat (max (echo_count c2) 1)" using P(6) c2 by (simp add: config_same)
    from echo_follows [OF er P(1) cnt s srx x(2)] obtain es3 q where
      e: "w_log w2 = w_log v2 @ es3" "turn_path P p2 es3 q"
        "r_status r3 \<noteq> Fail \<longrightarrow> q = Echoing (ts_socket s) (ts_relayed s) (pr_count P)" by blast
    have "w_log w2 = w_log v0 @ (es1 @ es2) @ es3" using a(1) b(1) e(1) by simp
    moreover have "r_status r3 \<in> {Pass, Warn} \<longrightarrow> (\<exists>s. ctx_session ctx' = Some s
        \<and> q = Echoing (ts_socket s) (ts_relayed s) (pr_count P))"
      using e(3) s(1) turn_echo_run_ctx [OF er] by auto
    ultimately show ?thesis using turn_path_append [OF path2 e(2)] by blast
  qed
qed

lemma turn_pipeline_path:
  assumes "pipeline_run (turn_suite c) ctx w = Ok (rep, ctx', w')" and "ctx_session ctx = None"
  shows "\<exists>es p. w_log w' = w_log w @ es
     \<and> turn_path (protocol_of c ctx (resolved_ips ctx') w) (Idle (w_socks w)) es p
     \<and> (r_status (results rep ! 3) \<in> {Pass, Warn} \<longrightarrow>
          (\<exists>s. ctx_session ctx' = Some s \<and> p = Echoing (ts_socket s) (ts_relayed s) (unat (max (echo_count ctx) 1))))"
proof -
  let ?P = "protocol_of c ctx (resolved_ips ctx') w"
  obtain t w1 w2 where run: "run_checks (turn_suite c) {} ctx w1 = Ok (results rep, ctx', w2)"
    and lg: "w_log w' = w_log w2" "w_log w1 = w_log w" "w_socks w1 = w_socks w" "w_inbox w1 = w_inbox w"
    using pipeline_run_checks [OF assms(1)] by blast
  from turn_suite_chain [OF run] obtain r0 c0 v0 r1 c1 v1 r2 c2 v2 r3 where
    rs: "results rep = [r0, r1, r2, r3]" and 0: "dns_run ctx w1 = Ok (r0, c0, v0)"
    and 1: "if r_status r0 = Pass then stun_run c0 v0 = Ok (r1, c1, v1) else r_status r1 = Skip \<and> c1 = c0 \<and> v1 = v0"
    and 2: "if r_status r0 = Pass then turn_alloc_run c c1 v1 = Ok (r2, c2, v2) else r_status r2 = Skip \<and> c2 = c1 \<and> v2 = v1"
    and 3: "if r_status r1 = Pass \<and> r_status r2 = Pass then turn_echo_run c c2 v2 = Ok (r3, ctx', w2)
        else r_status r3 = Skip \<and> ctx' = c2 \<and> w2 = v2" by blast
  have r3: "results rep ! 3 = r3" using rs by (simp add: numeral_eq_Suc)
  have d: "w_log v0 = w_log w" "w_socks v0 = w_socks w" "w_inbox v0 = w_inbox w" "ctx_session c0 = None"
    "ctx_config c0 = ctx_config ctx"
    using dns_run_keeps(4,5) [OF 0] dns_run_ctx(2,3) [OF 0] dns_run_session [OF 0] assms(2) lg by simp_all
  show ?thesis
  proof (cases "r_status r0 = Pass")
    case False
    then have "w_log w' = w_log w" "r_status r3 = Skip" using 1 2 3 lg d by auto
    then show ?thesis using r3 by (intro exI [of _ "[]"] exI [of _ "Idle (w_socks w)"]) (simp add: stay)
  next
    case True
    then have st: "stun_run c0 v0 = Ok (r1, c1, v1)" and al: "turn_alloc_run c c1 v1 = Ok (r2, c2, v2)" using 1 2 by simp_all
    have "ctx' = c2" using 3 by (auto split: if_splits dest: turn_echo_run_ctx)
    then have P: "pr_crypto ?P = c" "pr_user ?P = turn_user c0" "pr_pass ?P = turn_pass c0" "pr_ips ?P = resolved_ips c0"
      "pr_port ?P = ctx_port c0" "pr_count ?P = unat (max (echo_count c0) 1)" "untouched ?P v0"
      and cnt: "pr_count ?P = unat (max (echo_count ctx) 1)"
      using turn_checks_ips [OF st al] d by (simp_all add: protocol_of_def config_same untouched_def)
    from turn_checks_follow [OF st al 3 d(4) P] show ?thesis using lg d r3 cnt by simp
  qed
qed

section \<open>The \<open>ice\<close> pipeline\<close>

lemma ice_suite_chain:
  assumes "run_checks (ice_suite c is_turn) {} ctx w = Ok (rs, ctx', w')"
  shows "\<exists>r0 c0 w0 r1 c1 w1. dns_run ctx w = Ok (r0, c0, w0)
     \<and> (if r_status r0 = Pass then stun_run c0 w0 = Ok (r1, c1, w1) else c1 = c0 \<and> w1 = w0)
     \<and> (if is_turn \<and> r_status r0 = Pass then \<exists>r2 w2. turn_alloc_run c c1 w1 = Ok (r2, ctx', w2) \<and> w_log w' = w_log w2
        else ctx' = c1 \<and> w_log w' = w_log w1)"
proof -
  let ?tail = "(if is_turn then [turn_alloc_check c] else []) @ [ice_check]"
  have ids: "c_id dns_check = dns_id" "c_id stun_check = stun_id" "c_id (turn_alloc_check c) = turn_alloc_id"
    by (simp_all add: dns_check_def stun_check_def turn_alloc_check_def)
  have suite: "ice_suite c is_turn = dns_check # stun_check # ?tail" by (simp add: ice_suite_checks)
  obtain r0 c0 w0 rs1 passed1 where 0: "run_one {} dns_check ctx w = Ok (r0, c0, w0)"
    and run1: "run_checks (stun_check # ?tail) passed1 c0 w0 = Ok (rs1, ctx', w')"
    and p1: "passed1 = (if r_status r0 = Pass then {dns_id} else {})"
    using assms unfolding suite by (rule run_checks_ConsD) (simp only: ids)
  obtain r1 c1 w1 rs2 passed2 where 1: "run_one passed1 stun_check c0 w0 = Ok (r1, c1, w1)"
    and run2: "run_checks ?tail passed2 c1 w1 = Ok (rs2, ctx', w')"
    and p2: "passed2 = (if r_status r1 = Pass then insert stun_id passed1 else passed1)"
    using run1 by (rule run_checks_ConsD) (simp only: ids)
  have ice: "cx' = cx \<and> w_log wx' = w_log wx" if i: "run_checks [ice_check] ps cx wx = Ok (rx, cx', wx')" for ps cx wx rx cx' wx'
  proof -
    obtain r ca wa rs' ps' where "run_one ps ice_check cx wx = Ok (r, ca, wa)" "run_checks [] ps' ca wa = Ok (rs', cx', wx')"
      using i by (rule run_checks_ConsD)
    then show ?thesis by (auto simp: run_one_def ice_check_def Let_def split: if_splits dest: ice_run_keeps)
  qed
  have dns: "dns_run ctx w = Ok (r0, c0, w0)" using 0 by (simp add: run_one_def dns_check_def)
  have stun: "if r_status r0 = Pass then stun_run c0 w0 = Ok (r1, c1, w1) else c1 = c0 \<and> w1 = w0"
    using 1 by (auto simp: run_one_def stun_check_def Let_def p1 check_ids)
  have "if is_turn \<and> r_status r0 = Pass then \<exists>r2 w2. turn_alloc_run c c1 w1 = Ok (r2, ctx', w2) \<and> w_log w' = w_log w2
        else ctx' = c1 \<and> w_log w' = w_log w1"
  proof (cases is_turn)
    case False
    then show ?thesis using ice run2 by simp
  next
    case True
    then have "run_checks (turn_alloc_check c # [ice_check]) passed2 c1 w1 = Ok (rs2, ctx', w')" using run2 by simp
    then obtain r2 c2 w2 rs3 passed3 where 2: "run_one passed2 (turn_alloc_check c) c1 w1 = Ok (r2, c2, w2)"
      and run3: "run_checks [ice_check] passed3 c2 w2 = Ok (rs3, ctx', w')" by (rule run_checks_ConsD)
    then show ?thesis using True ice [OF run3]
      by (auto simp: run_one_def turn_alloc_check_def Let_def p1 p2 check_ids split: if_splits)
  qed
  then show ?thesis using dns stun by blast
qed

text \<open>A phase of a client that only asked for its reflexive address.\<close>

fun binding_only :: "phase \<Rightarrow> bool" where
  "binding_only (Idle n) = True"
| "binding_only (BindingSock n) = True"
| "binding_only (BindingAsked n tx) = True"
| "binding_only _ = False"

lemma fresh_binding_only: "fresh_sock p = Some n \<Longrightarrow> binding_only p"
  by (cases p) simp_all

lemma ice_pipeline_path:
  assumes "pipeline_run (ice_suite c is_turn) ctx w = Ok (rep, ctx', w')" and "ctx_session ctx = None"
  shows "\<exists>es p. w_log w' = w_log w @ es
     \<and> turn_path (protocol_of c ctx (resolved_ips ctx') w) (Idle (w_socks w)) es p \<and> gathering p
     \<and> (\<not> is_turn \<longrightarrow> binding_only p \<and> ctx_session ctx' = None)
     \<and> (\<forall>s. ctx_session ctx' = Some s \<longrightarrow> (\<exists>b v. session_phase (protocol_of c ctx (resolved_ips ctx') w) b s v p))"
proof -
  let ?P = "protocol_of c ctx (resolved_ips ctx') w"
  obtain w1 w2 where run: "run_checks (ice_suite c is_turn) {} ctx w1 = Ok (results rep, ctx', w2)"
    and lg: "w_log w' = w_log w2" "w_log w1 = w_log w" "w_socks w1 = w_socks w" "w_inbox w1 = w_inbox w"
    using pipeline_run_checks [OF assms(1)] by blast
  from ice_suite_chain [OF run] obtain r0 c0 v0 r1 c1 v1 where 0: "dns_run ctx w1 = Ok (r0, c0, v0)"
    and 1: "if r_status r0 = Pass then stun_run c0 v0 = Ok (r1, c1, v1) else c1 = c0 \<and> v1 = v0"
    and 2: "if is_turn \<and> r_status r0 = Pass then \<exists>r2 v2. turn_alloc_run c c1 v1 = Ok (r2, ctx', v2) \<and> w_log w2 = w_log v2
        else ctx' = c1 \<and> w_log w2 = w_log v1" by blast
  have d: "w_log v0 = w_log w" "w_socks v0 = w_socks w" "w_inbox v0 = w_inbox w" "ctx_session c0 = None"
    "ctx_config c0 = ctx_config ctx"
    using dns_run_keeps(4,5) [OF 0] dns_run_ctx(2,3) [OF 0] dns_run_session [OF 0] assms(2) lg by simp_all
  show ?thesis
  proof (cases "r_status r0 = Pass")
    case False
    then have "w_log w' = w_log w" "ctx_session ctx' = None" using 1 2 lg d by auto
    then show ?thesis by (intro exI [of _ "[]"] exI [of _ "Idle (w_socks w)"]) (simp add: stay)
  next
    case True
    then have st: "stun_run c0 v0 = Ok (r1, c1, v1)" using 1 by simp
    have c1: "resolved_ips c1 = resolved_ips c0" "ctx_config c1 = ctx_config c0" "ctx_session c1 = None"
      using stun_run_cases [OF st] stun_run_config [OF st] stun_run_session [OF st] d by (auto split: if_splits)
    have ips: "resolved_ips ctx' = resolved_ips c1"
      using 2 by (auto dest!: turn_alloc_run_cases turn_alloc_challenged_ctx split: if_splits)
    have P: "pr_crypto ?P = c" "pr_user ?P = turn_user c1" "pr_pass ?P = turn_pass c1" "pr_ips ?P = resolved_ips c1"
      "pr_port ?P = ctx_port c1" "pr_ips ?P = resolved_ips c0" "pr_port ?P = ctx_port c0" "untouched ?P v0"
      using ips c1 d by (simp_all add: protocol_of_def config_same untouched_def)
    from stun_follows [OF st P(6-8)] obtain es1 p1 where
      a: "w_log v1 = w_log v0 @ es1" "turn_path ?P (Idle (w_socks v0)) es1 p1" "fresh_sock p1 = Some (w_socks v1)" "untouched ?P v1"
      by blast
    show ?thesis
    proof (cases is_turn)
      case False
      then have "ctx_session ctx' = None" "w_log w' = w_log w @ es1" using 2 c1 lg a d by simp_all
      then show ?thesis using a d fresh_gathering fresh_binding_only by (intro exI [of _ es1] exI [of _ p1]) auto
    next
      case turn: True
      then obtain r2 v2 where al: "turn_alloc_run c c1 v1 = Ok (r2, ctx', v2)" and lg2: "w_log w2 = w_log v2"
        using 2 True by auto
      from alloc_follows [OF al P(1-5) a(4,3) c1(3)] obtain es2 p2 where
        b: "w_log v2 = w_log v1 @ es2" "turn_path ?P p1 es2 p2" "gathering p2"
          "ctx_session ctx' = None \<or> (\<exists>s. ctx_session ctx' = Some s \<and> session_phase ?P (binding_of p1) s v2 p2)" by blast
      have "w_log w' = w_log w @ es1 @ es2" using lg lg2 a(1) b(1) d(1) by simp
      then show ?thesis using turn_path_append [OF a(2) b(2)] b(3,4) d(2) turn
        by (intro exI [of _ "es1 @ es2"] exI [of _ p2] conjI) (assumption | simp | (elim disjE; force))+
    qed
  qed
qed

end
