(* ===== verification/Source_Tests.thy ===== *)
theory Source_Tests
  imports Full
begin

text \<open>
  The unit tests of the repository, run on the model, to validate it: one definition per \<open>#[test]\<close> function, true when
  all its assertions hold, and one lemma that they do.  Where a test builds a message with a fresh transaction id, clock and stack
  address are arguments; where it relies on a digest, the crypto library is one.  The tests that perform a real
  DTLS handshake are not here.
\<close>

section \<open>\<open>stun_codec.rs\<close>\<close>

definition xor_address_roundtrips_v4 :: bool where
  "xor_address_roundtrips_v4 =
     (let txid = replicate 12 0xAA in
      case parse_sock ''192.0.2.5:31415'' of
        None \<Rightarrow> False
      | Some addr \<Rightarrow> parse_xor_address (build_xor_address addr txid) txid = Ok addr)"

definition xor_address_roundtrips_v6 :: bool where
  "xor_address_roundtrips_v6 =
     (let txid = replicate 12 0x55 in
      case parse_sock ''[2001:db8::1]:8080'' of
        None \<Rightarrow> False
      | Some addr \<Rightarrow> parse_xor_address (build_xor_address addr txid) txid = Ok addr)"

section \<open>\<open>turn_codec.rs\<close>\<close>

definition long_term_key_pins_known_md5 :: "crypto \<Rightarrow> bool" where
  "long_term_key_pins_known_md5 c \<longleftrightarrow>
     long_term_key c ''user'' ''example.com'' ''pass'' =
       [0xc1, 0x9c, 0x4c, 0x6e, 0x32, 0xf9, 0xd8, 0x02, 0x6b, 0x26, 0xba, 0x77, 0xc2, 0x1f, 0xb8, 0xeb]"

definition unauth_allocate_request_layout :: "nat option \<Rightarrow> u64 \<Rightarrow> bool" where
  "unauth_allocate_request_layout clock stack_addr =
     (case build_allocate_unauth clock stack_addr of
        Ok (txid, msg) \<Rightarrow>
          take 2 msg = to_be 2 ALLOCATE_REQUEST
          \<and> unat (from_be (take 2 (drop 2 msg)) :: u16) = length msg - 20
          \<and> take 4 (drop 4 msg) = to_be 4 MAGIC_COOKIE
          \<and> take 12 (drop 8 msg) = txid
          \<and> length msg = 20 + 8
          \<and> take 2 (drop 20 msg) = to_be 2 REQUESTED_TRANSPORT
          \<and> take 2 (drop 22 msg) = to_be 2 (4 :: u16)
          \<and> take 4 (drop 24 msg) = to_be 4 TRANSPORT_UDP
      | _ \<Rightarrow> False)"

text \<open>The last 24 bytes of a message are a MESSAGE-INTEGRITY attribute; the length field counts them.\<close>

definition ends_with_integrity :: "bytes \<Rightarrow> bool" where
  "ends_with_integrity msg \<longleftrightarrow>
     unat (from_be (take 2 (drop 2 msg)) :: u16) = length msg - 20
     \<and> take 2 (drop (length msg - 24) msg) = to_be 2 MESSAGE_INTEGRITY
     \<and> take 2 (drop (length msg - 24 + 2) msg) = to_be 2 (20 :: u16)"

definition authed_allocate_carries_mi_with_correct_length :: "crypto \<Rightarrow> nat option \<Rightarrow> u64 \<Rightarrow> bool" where
  "authed_allocate_carries_mi_with_correct_length c clock stack_addr =
     (let key = replicate 16 0xAB in
      case build_allocate_authed c clock stack_addr ''alice'' ''realm.tld'' (as_bytes ''nonce!'') key of
        Ok (_, msg) \<Rightarrow>
          ends_with_integrity msg
          \<and> drop (length msg - 20) msg = hmac_sha1 c key (take (length msg - 24) msg)
      | _ \<Rightarrow> False)"

definition parses_401_unauthorized_with_realm_and_nonce :: bool where
  "parses_401_unauthorized_with_realm_and_nonce =
     (let txid = replicate 12 7;
          buf = to_be 2 ALLOCATE_ERROR @ to_be 2 (0 :: u16) @ to_be 4 MAGIC_COOKIE @ txid;
          buf = append_attr buf ERROR_CODE ([0, 0, 4, 1] @ as_bytes ''Unauthorized'');
          buf = append_attr buf REALM (as_bytes ''example.org'');
          buf = append_attr buf NONCE (as_bytes ''abc123nonce'')
      in case set_attrs_length buf of
           Ok buf \<Rightarrow>
             parse_allocate_response buf txid = Ok (Unauthorized ''example.org'' (as_bytes ''abc123nonce''))
         | _ \<Rightarrow> False)"

definition parses_success_with_relayed_address_and_lifetime :: bool where
  "parses_success_with_relayed_address_and_lifetime =
     (let txid = replicate 12 9;
          target_ip = 0xCB007102 :: u32;
          target_port = 49152 :: u16;
          xport = target_port XOR ucast (drop_bit 16 MAGIC_COOKIE);
          xaddr = target_ip XOR MAGIC_COOKIE;
          buf = to_be 2 ALLOCATE_SUCCESS @ to_be 2 (0 :: u16) @ to_be 4 MAGIC_COOKIE @ txid;
          buf = append_attr buf XOR_RELAYED_ADDRESS ([0, 1] @ to_be 2 xport @ to_be 4 xaddr);
          buf = append_attr buf LIFETIME (to_be 4 (600 :: u32))
      in case set_attrs_length buf of
           Ok buf \<Rightarrow>
             (case parse_allocate_response buf txid of
                Ok (AllocSuccess relayed lifetime) \<Rightarrow>
                  Some relayed = parse_sock ''203.0.113.2:49152'' \<and> lifetime = 600
              | _ \<Rightarrow> False)
         | _ \<Rightarrow> False)"

section \<open>\<open>checks/stun.rs\<close>\<close>

definition binding_request_is_well_formed :: "nat option \<Rightarrow> u64 \<Rightarrow> bool" where
  "binding_request_is_well_formed clock stack_addr =
     (case build_binding_request clock stack_addr of
        (txid, msg) \<Rightarrow>
          length msg = 20 \<and> take 2 msg = [0x00, 0x01] \<and> take 2 (drop 2 msg) = [0x00, 0x00]
          \<and> take 4 (drop 4 msg) = to_be 4 MAGIC_COOKIE \<and> take 12 (drop 8 msg) = txid)"

definition parses_xor_mapped_address_v4 :: bool where
  "parses_xor_mapped_address_v4 =
     (let txid = replicate 12 1;
          target_ip = 0xC0000201 :: u32;
          target_port = 1234 :: u16;
          xport = target_port XOR ucast (drop_bit 16 MAGIC_COOKIE);
          xaddr = target_ip XOR MAGIC_COOKIE;
          buf = to_be 2 BINDING_SUCCESS @ to_be 2 (12 :: u16) @ to_be 4 MAGIC_COOKIE @ txid
            @ to_be 2 XOR_MAPPED_ADDRESS @ to_be 2 (8 :: u16) @ [0x00, 0x01] @ to_be 2 xport @ to_be 4 xaddr
      in case parse_binding_response buf txid of
           Ok got \<Rightarrow> Some got = parse_sock ''192.0.2.1:1234''
         | _ \<Rightarrow> False)"

definition rejects_wrong_transaction_id :: "nat option \<Rightarrow> u64 \<Rightarrow> bool" where
  "rejects_wrong_transaction_id clock stack_addr =
     (let txid = fst (build_binding_request clock stack_addr);
          wrong = txid[0 := txid ! 0 XOR 0xFF];
          buf = to_be 2 BINDING_SUCCESS @ to_be 2 (0 :: u16) @ to_be 4 MAGIC_COOKIE @ wrong
      in parse_binding_response buf txid = Err (BE_Codec TxIdMismatch))"


section \<open>\<open>checks/turn_echo.rs\<close>\<close>

definition create_permission_carries_required_attrs_and_mi :: "crypto \<Rightarrow> nat option \<Rightarrow> u64 \<Rightarrow> bool" where
  "create_permission_carries_required_attrs_and_mi c clock stack_addr =
     (let key = replicate 16 0xCD in
      case parse_sock ''198.51.100.7:55555'' of
        None \<Rightarrow> False
      | Some peer \<Rightarrow>
     (case build_create_permission c clock stack_addr ''u'' ''r.example'' (as_bytes ''nonce!'') key peer of
        Ok (txid, msg) \<Rightarrow>
          take 2 msg = to_be 2 CREATE_PERMISSION_REQUEST \<and> ends_with_integrity msg
          \<and> (case parse_header msg txid of
               Ok header \<Rightarrow>
                 (case walk_attrs msg (attrs_len header) of
                    Ok attrs \<Rightarrow>
                      (let types = map attr_type attrs
                       in XOR_PEER_ADDRESS \<in> set types \<and> USERNAME \<in> set types \<and> REALM \<in> set types
                          \<and> NONCE \<in> set types \<and> MESSAGE_INTEGRITY \<in> set types)
                  | _ \<Rightarrow> False)
             | _ \<Rightarrow> False)
      | _ \<Rightarrow> False))"

text \<open>The result of the \<open>matches!\<close> is discarded: the test only requires \<open>unwrap\<close> to succeed.\<close>

definition parses_create_permission_success :: bool where
  "parses_create_permission_success =
     (let txid = replicate 12 0x42;
          buf = to_be 2 CREATE_PERMISSION_SUCCESS @ to_be 2 (0 :: u16) @ to_be 4 MAGIC_COOKIE @ txid
      in case parse_create_permission_response buf txid of Ok _ \<Rightarrow> True | _ \<Rightarrow> False)"

text \<open>The length field is filled in last, with the number of bytes after the header.\<close>

definition with_body_length :: "bytes \<Rightarrow> (unit, bytes) res" where
  "with_body_length buf = copy_into buf 2 4 (to_be 2 (word_of_nat (length buf - 20) :: u16))"

definition parses_create_permission_438_stale_nonce :: bool where
  "parses_create_permission_438_stale_nonce =
     (let txid = replicate 12 0x77;
          buf = to_be 2 CREATE_PERMISSION_ERROR @ to_be 2 (0 :: u16) @ to_be 4 MAGIC_COOKIE @ txid;
          buf = append_attr buf ERROR_CODE ([0, 0, 4, 38] @ as_bytes ''Stale Nonce'')
      in case with_body_length buf of
           Ok buf \<Rightarrow> parse_create_permission_response buf txid = Ok (CpRejected 438 ''Stale Nonce'')
         | _ \<Rightarrow> False)"

definition extracts_data_from_data_indication :: bool where
  "extracts_data_from_data_indication =
     (let txid = replicate 12 0x11;
          buf = to_be 2 DATA_INDICATION @ to_be 2 (0 :: u16) @ to_be 4 MAGIC_COOKIE @ txid;
          buf = append_attr buf DATA (as_bytes ''hello'')
      in case with_body_length buf of
           Ok buf \<Rightarrow> parse_data_indication buf = Ok (Some (as_bytes ''hello''))
         | _ \<Rightarrow> False)"

definition payload_roundtrips_sequence_number :: bool where
  "payload_roundtrips_sequence_number \<longleftrightarrow>
     list_all (\<lambda>sq. length (make_payload sq) = length ECHO_PREFIX + 4 \<and> parse_seq (make_payload sq) = Some sq)
       [0, 1, 9, 255, 256, 4294967295]"

definition parse_seq_rejects_non_matching_payloads :: bool where
  "parse_seq_rejects_non_matching_payloads \<longleftrightarrow>
     parse_seq (as_bytes ''some-other-payload-xxxxxx____'') = None
     \<and> parse_seq ECHO_PREFIX = None
     \<and> parse_seq (ECHO_PREFIX @ [0, 0, 0]) = None"

definition stats_handles_typical_input :: bool where
  "stats_handles_typical_input \<longleftrightarrow>
     stats [5, 10, 15, 20] = (5, 12, 20) \<and> stats [] = (0, 0, 0) \<and> stats [7] = (7, 7, 7)"

definition non_data_indication_returns_none :: bool where
  "non_data_indication_returns_none =
     (let buf = to_be 2 CREATE_PERMISSION_SUCCESS @ to_be 2 (0 :: u16) @ to_be 4 MAGIC_COOKIE @ replicate 12 0
      in parse_data_indication buf = Ok None)"

section \<open>\<open>checks/ice_gather.rs\<close>\<close>

text \<open>\<open>str::parse::<IpAddr>\<close>.\<close>

definition parse_ip :: "string \<Rightarrow> ipaddr option" where
  "parse_ip s =
     (case read_ipv4 s of
        Some (a, rest) \<Rightarrow> if rest = [] then Some (V4 a) else None
      | None \<Rightarrow> (case read_ipv6 s of Some (a, rest) \<Rightarrow> if rest = [] then Some (V6 a) else None | None \<Rightarrow> None))"

definition useful :: "string \<Rightarrow> bool option" where
  "useful s = map_option is_useful_host_address (parse_ip s)"

definition ipv4_filter_keeps_routable_drops_loopback_and_link_local :: bool where
  "ipv4_filter_keeps_routable_drops_loopback_and_link_local \<longleftrightarrow>
     list_all (\<lambda>s. useful s = Some True) [''192.168.1.42'', ''10.0.0.5'', ''172.16.0.1'', ''8.8.8.8'']
     \<and> list_all (\<lambda>s. useful s = Some False)
          [''127.0.0.1'', ''169.254.1.1'', ''0.0.0.0'', ''224.0.0.1'', ''255.255.255.255'']"

definition ipv6_filter_drops_loopback_link_local_keeps_global_and_ula :: bool where
  "ipv6_filter_drops_loopback_link_local_keeps_global_and_ula \<longleftrightarrow>
     list_all (\<lambda>s. useful s = Some False) [''::1'', ''::'', ''fe80::1'', ''fe80::a:b:c:d'', ''ff02::1'']
     \<and> list_all (\<lambda>s. useful s = Some True) [''2603:6010:6c00:abcd::42'', ''fd12:3456::1'']"

definition mk_candidate :: "string \<Rightarrow> string \<Rightarrow> u16 \<Rightarrow> candidate" where
  "mk_candidate kind addr port =
     \<lparr>ca_kind = kind, ca_address = addr, ca_port = port, ca_interface = None, ca_via = None\<rparr>"

definition count_kinds_tallies_correctly :: bool where
  "count_kinds_tallies_correctly =
     (let k = count_kinds [mk_candidate ''host'' ''192.168.1.1'' 0, mk_candidate ''host'' ''10.0.0.1'' 0,
                           mk_candidate ''srflx'' ''1.2.3.4'' 5555, mk_candidate ''relay'' ''5.6.7.8'' 49152]
      in kc_host k = 2 \<and> kc_srflx k = 1 \<and> kc_relay k = 1)"

section \<open>\<open>checks/turns_alloc.rs\<close>\<close>

text \<open>The \<open>Vec\<close> written to, and a \<open>Cursor\<close> on it.\<close>

definition written :: "world \<Rightarrow> bytes" where
  "written w = concat (map (\<lambda>e. case e of Wrote bs \<Rightarrow> bs | _ \<Rightarrow> []) (w_log w))"

definition reading :: "bytes \<Rightarrow> world" where
  "reading bs = quiet_world\<lparr>w_stream := [(0, Inr bs), (0, Inr [])]\<rparr>"

definition framing_roundtrip :: bool where
  "framing_roundtrip =
     (let payload = as_bytes ''hello-stun'';
          (sent, w) = send_framed payload quiet_world;
          framed = written w
      in sent = None \<and> length framed = 2 + length payload
         \<and> (from_be (take 2 framed) :: u16) = word_of_nat (length payload)
         \<and> drop 2 framed = payload
         \<and> fst (recv_framed 0 (reading framed)) = ReadOk payload)"

definition framing_handles_multiple_messages_in_stream :: bool where
  "framing_handles_multiple_messages_in_stream =
     (let a = as_bytes ''first-message''; b = as_bytes ''second'';
          (sent_a, w) = send_framed a quiet_world;
          (sent_b, w) = send_framed b w;
          (got_a, r) = recv_framed 0 (reading (written w));
          (got_b, r) = recv_framed 0 r
      in sent_a = None \<and> sent_b = None \<and> got_a = ReadOk a \<and> got_b = ReadOk b)"

section \<open>\<open>checks/dtls.rs\<close>\<close>

definition empty_cert_yields_empty_fingerprint :: "dtls_lib \<Rightarrow> bool" where
  "empty_cert_yields_empty_fingerprint lib \<longleftrightarrow> sha256_fingerprint lib [] = ''''"

definition fingerprint_has_canonical_sdp_shape :: "dtls_lib \<Rightarrow> bool" where
  "fingerprint_has_canonical_sdp_shape lib =
     (let fp = sha256_fingerprint lib (as_bytes ''abc'')
      in fp = ''BA:78:16:BF:8F:01:CF:EA:41:41:40:DE:5D:AE:22:23:'' @ ''B0:03:61:A3:96:17:7A:9C:B4:10:FF:61:F2:00:15:AD''
         \<and> length fp = 32 * 2 + 31
         \<and> length (filter (\<lambda>c. c = CHR '':'') fp) = 31)"

section \<open>\<open>target.rs\<close>\<close>

definition parses_a_well_formed_stun_uri :: bool where
  "parses_a_well_formed_stun_uri =
     (case parse_stun_like ''stun:stun.l.google.com:19302'' [''stun''] 3478 of
        Ok t \<Rightarrow> t_host t = ''stun.l.google.com'' \<and> t_port t = 19302
      | _ \<Rightarrow> False)"

fun contains :: "string \<Rightarrow> string \<Rightarrow> bool" where
  "contains [] pat = (pat = [])"
| "contains (c # s) pat = (starts_with (c # s) pat \<or> contains s pat)"

definition error_text :: "(target_error, target) res \<Rightarrow> string option" where
  "error_text r = (case r of Err e \<Rightarrow> Some (show_target_error e) | _ \<Rightarrow> None)"

definition quoted :: "string \<Rightarrow> string" where
  "quoted s = [CHR 39] @ s @ [CHR 39]"

definition rejects_wrong_scheme_for_subcommand :: bool where
  "rejects_wrong_scheme_for_subcommand =
     (case error_text (parse_stun_like ''stun:host:3478'' [''turn''] 3478) of
        Some msg \<Rightarrow> contains msg (quoted ''turn:'') \<and> contains msg (quoted ''stun:'')
      | None \<Rightarrow> False)"

definition lists_all_allowed_schemes_when_multiple :: bool where
  "lists_all_allowed_schemes_when_multiple =
     (case error_text (parse_stun_like ''wss:host:443'' [''turn'', ''turns''] 3478) of
        Some msg \<Rightarrow> contains msg (quoted ''turn:'') \<and> contains msg (quoted ''turns:'')
      | None \<Rightarrow> False)"

definition scheme_match_is_case_insensitive :: bool where
  "scheme_match_is_case_insensitive =
     (case parse_stun_like ''STUN:host:3478'' [''stun''] 3478 of Ok t \<Rightarrow> t_host t = ''host'' | _ \<Rightarrow> False)"

definition defaults_the_port_when_omitted :: bool where
  "defaults_the_port_when_omitted =
     (case parse_stun_like ''turn:host'' [''turn''] 3478 of Ok t \<Rightarrow> t_port t = 3478 | _ \<Rightarrow> False)"

definition rejects_missing_scheme :: bool where
  "rejects_missing_scheme \<longleftrightarrow> error_text (parse_stun_like ''just-a-host'' [''stun''] 3478) \<noteq> None"

definition rejects_empty_host :: bool where
  "rejects_empty_host \<longleftrightarrow> error_text (parse_stun_like ''stun::3478'' [''stun''] 3478) \<noteq> None"

section \<open>The digests the tests pin\<close>

text \<open>MD5 of \<open>user:example.com:pass\<close> and SHA-256 of \<open>abc\<close>, as the tests state them.\<close>

definition pinned_digests :: "crypto \<Rightarrow> dtls_lib \<Rightarrow> bool" where
  "pinned_digests c lib \<longleftrightarrow>
     md5 c (as_bytes ''user:example.com:pass'') =
       [0xc1, 0x9c, 0x4c, 0x6e, 0x32, 0xf9, 0xd8, 0x02, 0x6b, 0x26, 0xba, 0x77, 0xc2, 0x1f, 0xb8, 0xeb]
     \<and> dl_sha256 lib (as_bytes ''abc'') =
       [0xba, 0x78, 0x16, 0xbf, 0x8f, 0x01, 0xcf, 0xea, 0x41, 0x41, 0x40, 0xde, 0x5d, 0xae, 0x22, 0x23,
     0xb0, 0x03, 0x61, 0xa3, 0x96, 0x17, 0x7a, 0x9c, 0xb4, 0x10, 0xff, 0x61, 0xf2, 0x00, 0x15, 0xad]"

section \<open>Evaluation of literals\<close>

lemma digit_char_numeral:
  "digit_char 0 = CHR ''0''" "digit_char 1 = CHR ''1''" "digit_char 2 = CHR ''2''" "digit_char 3 = CHR ''3''"
  "digit_char 4 = CHR ''4''" "digit_char 5 = CHR ''5''" "digit_char 6 = CHR ''6''" "digit_char 7 = CHR ''7''"
  "digit_char 8 = CHR ''8''" "digit_char 9 = CHR ''9''" "digit_char 10 = CHR ''a''" "digit_char 11 = CHR ''b''"
  "digit_char 12 = CHR ''c''" "digit_char 13 = CHR ''d''" "digit_char 14 = CHR ''e''" "digit_char 15 = CHR ''f''"
  by (simp_all add: digit_char_def char_of_def bit_0)

lemmas text_eval = show_ipv4_def show_word_def radix_str.simps digit_char_numeral digit_char_numeral [unfolded One_nat_def]
  show_ipv6_def segments_def show_seg_def is_v4_mapped_def upt_conv_Cons Let_def

lemma parse_literals:
  "parse_sock ''192.0.2.5:31415'' = Some (SockV4 0xC0000205 31415)"
  "parse_sock ''[2001:db8::1]:8080'' = Some (SockV6 0x20010db8000000000000000000000001 8080 0 0)"
  "parse_sock ''203.0.113.2:49152'' = Some (SockV4 0xCB007102 49152)"
  "parse_sock ''192.0.2.1:1234'' = Some (SockV4 0xC0000201 1234)"
  "parse_sock ''198.51.100.7:55555'' = Some (SockV4 0xC6336407 55555)"
  using parse_show_sock [of "SockV4 0xC0000205 31415"]
    parse_show_sock [of "SockV6 0x20010db8000000000000000000000001 8080 0 0"]
    parse_show_sock [of "SockV4 0xCB007102 49152"] parse_show_sock [of "SockV4 0xC0000201 1234"]
    parse_show_sock [of "SockV4 0xC6336407 55555"]
  by (simp_all add: text_eval)

lemma parse_ipv6_text: "read_ipv4 s = None \<Longrightarrow> s = show_ipv6 a \<Longrightarrow> parse_ip s = Some (V6 a)"
  using read_ipv6_show [of "[]" _ a] by (simp add: parse_ip_def)

lemmas no_ipv4 = read_ipv4_def read_sep_def read_number_def is_dig_def to_digit_def Let_def

lemma parse_ip_literals:
  "parse_ip ''::1'' = Some (V6 1)" "parse_ip ''::'' = Some (V6 0)"
  "parse_ip ''fe80::1'' = Some (V6 0xfe800000000000000000000000000001)"
  "parse_ip ''fe80::a:b:c:d'' = Some (V6 0xfe80000000000000000a000b000c000d)"
  "parse_ip ''ff02::1'' = Some (V6 0xff020000000000000000000000000001)"
  "parse_ip ''2603:6010:6c00:abcd::42'' = Some (V6 0x260360106c00abcd0000000000000042)"
  "parse_ip ''fd12:3456::1'' = Some (V6 0xfd123456000000000000000000000001)"
  by (rule parse_ipv6_text, simp add: no_ipv4, simp add: text_eval)+

lemmas uri_eval = parse_stun_like_def to_ascii_lowercase_def ascii_lower_def parse_u16_def to_digit_def trim_matches_def
  is_bracket_def char_of_def bit_0

section \<open>The tests pass\<close>

lemma xor_address_roundtrips_ok: xor_address_roundtrips_v4 xor_address_roundtrips_v6
  by (simp_all add: xor_address_roundtrips_v4_def xor_address_roundtrips_v6_def parse_literals xor_address_roundtrip sock_norm_def)

lemma parses_401_unauthorized_with_realm_and_nonce_ok: parses_401_unauthorized_with_realm_and_nonce by code_simp
lemma parses_success_with_relayed_address_and_lifetime_ok: parses_success_with_relayed_address_and_lifetime 
  unfolding parses_success_with_relayed_address_and_lifetime_def parse_literals by code_simp
lemma parses_xor_mapped_address_v4_ok: parses_xor_mapped_address_v4 
  unfolding parses_xor_mapped_address_v4_def parse_literals by code_simp
lemma parses_create_permission_success_ok: parses_create_permission_success by code_simp
lemma parses_create_permission_438_stale_nonce_ok: parses_create_permission_438_stale_nonce by code_simp
lemma extracts_data_from_data_indication_ok: extracts_data_from_data_indication by code_simp
lemma payload_roundtrips_sequence_number_ok: payload_roundtrips_sequence_number by code_simp
lemma parse_seq_rejects_non_matching_payloads_ok: parse_seq_rejects_non_matching_payloads by code_simp
lemma stats_handles_typical_input_ok: stats_handles_typical_input by code_simp
lemma non_data_indication_returns_none_ok: non_data_indication_returns_none by code_simp
lemma ipv4_filter_keeps_routable_drops_loopback_and_link_local_ok: ipv4_filter_keeps_routable_drops_loopback_and_link_local by code_simp
lemma ipv6_filter_drops_loopback_link_local_keeps_global_and_ula_ok: ipv6_filter_drops_loopback_link_local_keeps_global_and_ula   unfolding ipv6_filter_drops_loopback_link_local_keeps_global_and_ula_def useful_def list.pred_inject parse_ip_literals
  by code_simp
lemma count_kinds_tallies_correctly_ok: count_kinds_tallies_correctly by code_simp
lemma framing_roundtrip_ok: framing_roundtrip by code_simp
lemma framing_handles_multiple_messages_in_stream_ok: framing_handles_multiple_messages_in_stream by code_simp
lemma parses_a_well_formed_stun_uri_ok: parses_a_well_formed_stun_uri by (simp add: parses_a_well_formed_stun_uri_def uri_eval)
lemma rejects_wrong_scheme_for_subcommand_ok: rejects_wrong_scheme_for_subcommand by code_simp
lemma lists_all_allowed_schemes_when_multiple_ok: lists_all_allowed_schemes_when_multiple by code_simp
lemma scheme_match_is_case_insensitive_ok: scheme_match_is_case_insensitive by (simp add: scheme_match_is_case_insensitive_def uri_eval)
lemma defaults_the_port_when_omitted_ok: defaults_the_port_when_omitted by code_simp
lemma rejects_missing_scheme_ok: rejects_missing_scheme by code_simp
lemma rejects_empty_host_ok: rejects_empty_host by (simp add: rejects_empty_host_def error_text_def uri_eval)

lemma empty_cert_yields_empty_fingerprint_ok: "empty_cert_yields_empty_fingerprint lib"
  by (simp add: empty_cert_yields_empty_fingerprint_def sha256_fingerprint_def)

lemma fingerprint_has_canonical_sdp_shape_ok:
  assumes "pinned_digests c lib"
  shows "fingerprint_has_canonical_sdp_shape lib"
proof -
  have "fingerprint_loop 0
    [0xba, 0x78, 0x16, 0xbf, 0x8f, 0x01, 0xcf, 0xea, 0x41, 0x41, 0x40, 0xde, 0x5d, 0xae, 0x22, 0x23,
     0xb0, 0x03, 0x61, 0xa3, 0x96, 0x17, 0x7a, 0x9c, 0xb4, 0x10, 0xff, 0x61, 0xf2, 0x00, 0x15, 0xad] ''''
    = ''BA:78:16:BF:8F:01:CF:EA:41:41:40:DE:5D:AE:22:23:B0:03:61:A3:96:17:7A:9C:B4:10:FF:61:F2:00:15:AD''"
    by code_simp
  moreover have "as_bytes ''abc'' \<noteq> []" by (simp add: as_bytes_def)
  ultimately show ?thesis by (simp add: fingerprint_has_canonical_sdp_shape_def sha256_fingerprint_def assms [unfolded pinned_digests_def])
qed

lemma long_term_key_pins_known_md5_ok:
  assumes "pinned_digests c lib"
  shows "long_term_key_pins_known_md5 c"
  using assms by (simp add: pinned_digests_def long_term_key_pins_known_md5_def long_term_key_def as_bytes_def)

lemma unauth_allocate_request_layout_ok: "unauth_allocate_request_layout clock stack_addr"
proof -
  let ?txid = "new_txid clock stack_addr"
  have "enc_attr transport_attr = to_be 2 REQUESTED_TRANSPORT @ to_be 2 (4 :: u16) @ to_be 4 TRANSPORT_UDP"
    by (simp add: enc_attr_def transport_attr_def pad4_def)
  then show ?thesis
    by (simp add: unauth_allocate_request_layout_def build_allocate_unauth_message message_def)
qed

lemma binding_request_is_well_formed_ok: "binding_request_is_well_formed clock stack_addr"
  by (simp add: binding_request_is_well_formed_def build_binding_request_message message_def to_be_2 BINDING_REQUEST_def)

text \<open>A message with its MESSAGE-INTEGRITY appended.\<close>

lemma mi_message_ends:
  fixes mt :: u16 and key :: bytes
  assumes "length txid = 12" and "crypto_sizes c" and "length body + 24 < 65536"
  defines "msg \<equiv> mi_message c mt txid body key"
  shows "ends_with_integrity msg"
    and "drop (length msg - 20) msg = hmac_sha1 c key (take (length msg - 24) msg)"
proof -
  define v where "v = hmac_sha1 c key (mi_input mt txid body)"
  have v: "length v = 20" using assms(2) by (simp add: v_def crypto_sizes_def)
  have enc: "enc_attr \<lparr>attr_type = MESSAGE_INTEGRITY, attr_value = v\<rparr> =
      to_be 2 MESSAGE_INTEGRITY @ to_be 2 (20 :: u16) @ v"
    using v by (simp add: enc_attr_def pad4_def)
  have msg: "msg = message mt txid (body @ enc_attr \<lparr>attr_type = MESSAGE_INTEGRITY, attr_value = v\<rparr>)"
    by (simp add: msg_def mi_message_def mi_attr_def v_def)
  have len: "length msg = 44 + length body" using assms(1) v by (simp add: msg enc)
  have field: "take 2 (drop 2 msg) = to_be 2 (word_of_nat (length body + 24) :: u16)"
    using assms(1) v by (simp add: msg enc message_fields)
  have "drop (length msg - 24) msg = to_be 2 MESSAGE_INTEGRITY @ to_be 2 (20 :: u16) @ v"
    unfolding len using assms(1) v by (simp add: msg message_def enc)
  moreover have "drop (length msg - 24 + n) msg = drop n (drop (length msg - 24) msg)" for n
    by (simp add: add.commute)
  ultimately have tail: "take 2 (drop (length msg - 24) msg) = to_be 2 MESSAGE_INTEGRITY"
    "take 2 (drop (length msg - 24 + 2) msg) = to_be 2 (20 :: u16)" "drop (length msg - 24 + 4) msg = v"
    by simp_all
  show "ends_with_integrity msg"
    unfolding ends_with_integrity_def tail field using assms(3)
    by (simp add: len unat_len16 del: drop_drop of_nat_add)
  have "take (length msg - 24) msg = mi_input mt txid body"
    unfolding msg by (rule message_mi_prefix [OF assms(1) v])
  moreover have "length msg - 24 + 4 = length msg - 20" using len by simp
  ultimately show "drop (length msg - 20) msg = hmac_sha1 c key (take (length msg - 24) msg)"
    using tail(3) by (simp add: v_def)
qed

lemma authed_allocate_carries_mi_with_correct_length_ok:
  assumes "crypto_sizes c"
  shows "authed_allocate_carries_mi_with_correct_length c clock stack_addr"
proof -
  let ?txid = "new_txid clock stack_addr" and ?key = "replicate 16 0xAB :: bytes"
  let ?body = "concat (map enc_attr (transport_attr # auth_attrs ''alice'' ''realm.tld'' (as_bytes ''nonce!'')))"
  have "length ?body + 24 < 65536"
    by (simp add: auth_attrs_def transport_attr_def length_enc_attr pad4_def as_bytes_def)
  note ends = mi_message_ends [OF length_new_txid assms this, of ALLOCATE_REQUEST _ _ ?key]
  have "build_allocate_authed c clock stack_addr ''alice'' ''realm.tld'' (as_bytes ''nonce!'') ?key =
      Ok (?txid, mi_message c ALLOCATE_REQUEST ?txid ?body ?key)"
    by (simp only: build_allocate_authed_message [OF assms] Let_def mi_message_def)
  then show ?thesis
    using ends by (simp only: authed_allocate_carries_mi_with_correct_length_def Let_def res.case prod.case simp_thms)
qed

lemma create_permission_carries_required_attrs_and_mi_ok:
  assumes "crypto_sizes c"
  shows "create_permission_carries_required_attrs_and_mi c clock stack_addr"
proof -
  let ?peer = "SockV4 0xC6336407 55555"
  let ?txid = "new_txid clock stack_addr" and ?key = "replicate 16 0xCD :: bytes"
  define as where "as = \<lparr>attr_type = XOR_PEER_ADDRESS, attr_value = build_xor_address ?peer ?txid\<rparr>
    # auth_attrs ''u'' ''r.example'' (as_bytes ''nonce!'')"
  define msg where "msg = mi_message c CREATE_PERMISSION_REQUEST ?txid (concat (map enc_attr as)) ?key"
  have xor_len: "length (build_xor_address ?peer ?txid) = 8" by (simp add: length_build_xor_address)
  have bound: "length (concat (map enc_attr as)) + 24 < 65536"
    by (simp add: as_def auth_attrs_def length_enc_attr pad4_def as_bytes_def xor_len)
  have fits: "\<forall>a \<in> set as. attr_fits a"
    by (simp add: as_def auth_attrs_def attr_fits_def as_bytes_def xor_len)
  have built: "build_create_permission c clock stack_addr ''u'' ''r.example'' (as_bytes ''nonce!'') ?key ?peer =
      Ok (?txid, msg)"
    by (simp only: build_create_permission_message [OF assms] msg_def as_def)
  obtain h where h: "parse_header msg ?txid = Ok h"
    "walk_attrs msg (attrs_len h) = Ok (as @ [\<lparr>attr_type = MESSAGE_INTEGRITY,
        attr_value = hmac_sha1 c ?key (take (length msg - 24) msg)\<rparr>])"
    using mi_message_received [OF length_new_txid assms fits bound msg_def] by blast
  have "take 2 msg = to_be 2 CREATE_PERMISSION_REQUEST"
    by (simp add: msg_def mi_message_def message_fields)
  moreover have "ends_with_integrity msg"
    unfolding msg_def by (rule mi_message_ends [OF length_new_txid assms bound])
  moreover have "{XOR_PEER_ADDRESS, USERNAME, REALM, NONCE} \<subseteq> attr_type ` set as"
    by (simp add: as_def auth_attrs_def)
  ultimately show ?thesis
    unfolding create_permission_carries_required_attrs_and_mi_def Let_def parse_literals option.case built
      res.case prod.case h by simp
qed

lemma rejects_wrong_transaction_id_ok: "rejects_wrong_transaction_id clock stack_addr"
proof -
  let ?txid = "fst (build_binding_request clock stack_addr)"
  define wrong where "wrong = ?txid[0 := ?txid ! 0 XOR 0xFF]"
  have len: "length ?txid = 12" by (simp add: build_binding_request_message)
  have "?txid ! 0 XOR 0xFF \<noteq> ?txid ! 0"
  proof
    assume "?txid ! 0 XOR 0xFF = ?txid ! 0"
    then have "?txid ! 0 XOR (?txid ! 0 XOR 0xFF) = 0" by simp
    then show False by (simp add: xor.assoc [symmetric])
  qed
  then have neq: "wrong \<noteq> ?txid" using len by (metis wrong_def nth_list_update_eq zero_less_numeral)
  have wlen: "length wrong = 12" by (simp add: wrong_def len)
  define buf where "buf = to_be 2 BINDING_SUCCESS @ to_be 2 (0 :: u16) @ to_be 4 MAGIC_COOKIE @ wrong"
  have "parse_header buf ?txid = Err TxIdMismatch"
    unfolding parse_header_eq using neq wlen by (simp add: buf_def)
  then have "parse_binding_response buf ?txid = Err (BE_Codec TxIdMismatch)"
    by (simp add: parse_binding_response_def res_simps)
  then show ?thesis
    unfolding rejects_wrong_transaction_id_def Let_def buf_def wrong_def .
qed

end
