(* ===== verification/Spec2Isabelle.thy ===== *)
theory Spec2Isabelle
  imports Prelude Net_Addr Net_Text Stun_Codec Stream_Codec Turn_Codec Probe_Result Probe_Ctx Pipeline
    Dns_Check Stun_Check Turn_Alloc Turn_Echo Ice_Gather Net_Stream Turns_Alloc Signaling Dtls Console Target Cli Full Render Program
    Turn_Protocol Source_Tests
begin

text \<open>
  \<^bold>\<open>webrtc-doctor\<close>: a command-line diagnostic for WebRTC infrastructure.  This library
  models its core, the crate \<open>probe-core\<close>, and the subcommands of \<open>crates/webrtc-doctor\<close>.

  \<^bold>\<open>How the program works.\<close>  A subcommand (\<open>main.rs\<close>) parses its target and secrets, fills a
  \<open>ProbeContext\<close> and builds a list of checks.  The runner (\<open>pipeline.rs\<close>) runs them in order on
  that one context: a check whose prerequisites did not pass is recorded as skipped, the others
  run, and their findings reach later checks through the context (resolved addresses, the
  reflexive address as text in the scratch map, the TURN session).  The report's worst status
  is the verdict, and the verdict is the exit code.

  \<^bold>\<open>Theories.\<close>
    \<^item> \<open>Prelude\<close>: results with errors and panics (\<open>res\<close>), checked indexing and slicing, bytes
      and big-endian words.
    \<^item> \<open>Net_Addr\<close>, \<open>Net_Text\<close>: the standard library's addresses, their text and its parser.
    \<^item> \<open>Stun_Codec\<close> (\<open>stun_codec.rs\<close>), \<open>Turn_Codec\<close> (\<open>turn_codec.rs\<close>), \<open>Stream_Codec\<close> (the
      contract of an encoder and a decoder on a byte stream).
    \<^item> \<open>Probe_Result\<close> (\<open>result.rs\<close>), \<open>Probe_Ctx\<close> (\<open>check.rs\<close> and the outside world),
      \<open>Pipeline\<close> (\<open>pipeline.rs\<close>).
    \<^item> \<open>Net_Stream\<close>: TCP and TLS streams, whose bytes arrive in arbitrary chunks.
    \<^item> one theory per check under \<open>checks/\<close>: \<open>Dns_Check\<close>, \<open>Stun_Check\<close>, \<open>Turn_Alloc\<close>,
      \<open>Turn_Echo\<close>, \<open>Ice_Gather\<close>, \<open>Turns_Alloc\<close>, \<open>Signaling\<close>, \<open>Dtls\<close> (with the test peer).
    \<^item> \<open>Console\<close> (the standard streams: reading a line, writing one), \<open>Target\<close> (\<open>target.rs\<close> and the argument
      helpers of \<open>main.rs\<close>), \<open>Cli\<close> (the subcommands \<open>stun\<close>,
      \<open>turn\<close>, \<open>ice\<close>), \<open>Full\<close> (\<open>turns\<close>, \<open>signaling\<close>, \<open>dtls\<close> and \<open>run_full\<close>), \<open>Render\<close> (\<open>render.rs\<close> and the
      JSON tree of a report), \<open>Program\<close> (\<open>main\<close>: the dispatch, the output, the exit code).
    \<^item> \<open>Turn_Protocol\<close>: the protocol of a TURN client as a state machine, its invariants, and the \<open>turn\<close> and
      \<open>ice\<close> pipelines as implementations of it; \<open>Source_Tests\<close>: the repository's unit tests, run on the model to
      validate its definitions.

  \<^bold>\<open>Conventions.\<close>  A Rust function that can fail returns \<open>res\<close>: \<open>Ok\<close>, \<open>Err\<close> with the source's
  error, or \<open>Panic\<close> where the source would panic (an index or slice out of range, an underflow).
  Integers have their width (\<open>u8\<close> to \<open>u128\<close> are words), so casts and sums wrap as in a release
  build.  Strings are UTF-8 bytes.  A check's \<open>run\<close> takes the context and the world and returns
  the result with both, as changed.

  \<^bold>\<open>The world\<close> (record \<open>world\<close> in \<open>Probe_Ctx\<close>) holds what the operating system decides: clock
  readings, seeds of transaction ids, outcomes of binding and sending, the datagrams that will
  arrive on each socket and when, the resolver, the interfaces; outcome and duration of TCP
  connections and of TLS, WebSocket and DTLS handshakes, the chunks a stream delivers and when.  All of it is arbitrary, so a
  theorem over every world covers every server and network.  Effects (sockets bound, datagrams
  sent, pauses, connections and handshakes attempted, bytes written) are appended to a log, on which the trace theorems are stated.

  \<^bold>\<open>The console\<close> (record \<open>console\<close> in \<open>Console\<close>) holds what the standard streams will do: the bytes stdin
  delivers and the error it may end in, whether it is a terminal, and how many writes stdout and stderr still take.  A
  refused write is a panic, as in \<open>println!\<close> and \<open>eprint!\<close>; a line that is not UTF-8 is an error.

  \<^bold>\<open>Interfaces.\<close>  \<open>stream_codec\<close> (interpreted on the attribute encoding and on the framing of
  TURNS), \<open>check_contract\<close>
  (a check ends, carries its own id and name, keeps the configuration, never rewinds the clock
  and only appends to the log; interpreted on every check) and \<open>probe_suite\<close> (a list of such
  checks; interpreted on the pipelines of the subcommands).

  \<^bold>\<open>What is shown.\<close>  Codecs: no parser panics on any input; the walk of the attributes refines
  a decoder on the remaining bytes; addresses, messages, requests and responses round-trip;
  what each response means, errors included.  Checks: what is sent, to whom and in which order;
  what a passed check implies about the received datagrams and the context it leaves; that the
  echo check passes on a relay that loses nothing.  Runner: prerequisites, the step of every
  check, the verdict and the counts.  Command line: which URIs are accepted and how, the order of secrets and what
  makes reading them fail; \<open>full\<close> equals running its pipelines one after the other, and fails exactly without a URL, without
  a secret or at the first malformed URL.  Output: the candidate lines of the pretty report read back, the JSON and the exit
  code agree.  \<open>Program\<close>: whatever the command line, the run ends with an error text, as test peer, or with a report
  of the documented checks, and panics only on a refused write.
  This theory composes them: every pipeline ends with one result per check; every \<open>turn\<close> run, however it
  ends, is a run of the protocol machine (\<open>turn_refines_protocol\<close>), so each request follows the answer that permits it and the payloads are
  numbered, paced and bounded at every moment; a run whose echo came back sent exactly the documented sequence of messages, its
  permission for the address the STUN server reported; and the \<open>ice\<close> pipeline follows the machine no further than the grant.

  \<^bold>\<open>The protocol machine.\<close>  A phase of \<open>Turn_Protocol\<close> is what the client remembers between two effects (\<open>Idle\<close>, the
  sockets and requests outstanding, \<open>Echoing\<close> and \<open>Paused\<close> with the number of payloads sent).  A step is one effect, and its guard
  names the datagram it answers: the client reads one after each request, so the first on the allocation's
  socket is the challenge, the second the grant, the third the permission.  The lemmas \<open>stun_follows\<close>, \<open>alloc_follows\<close> and
  \<open>echo_follows\<close> simulate one check each; \<open>phase_inv_path\<close> is the invariant, by rule induction.

  \<^bold>\<open>Termination and bounds.\<close>  No fuel is used: the attribute walks and the UTF-8 decoder
  consume their input, the receive loop of the echo check consumes the socket's queue of
  arriving datagrams, which is a finite list (a queue that is empty means that nothing more
  arrives before the deadline), and reading a frame consumes the list of chunks.  The loop of the test
  peer never ends: it is an inductive step relation on the clients reported so far.

  \<^bold>\<open>Parameters.\<close>  MD5 and HMAC-SHA1 (record \<open>crypto\<close>); theorems that need their output sizes
  say so (\<open>crypto_sizes\<close>).  Which names TLS accepts (\<open>name_ok\<close>); the URL and header parsers of
  tungstenite (record \<open>web\<close>); certificates, listening and SHA-256 of the DTLS checks (record \<open>dtls_lib\<close>);
  the colours (\<open>paint\<close>), the text of a JSON tree and the version string (record \<open>env\<close>).

  \<^bold>\<open>Not modelled.\<close>  Argument parsing (clap; the model starts from the parsed \<open>command\<close>), logging (\<open>tracing\<close>), and what
  happens inside the TLS, WebSocket and DTLS libraries: none of it is code of this repository.  Of the test peer's
  loop the notices are left out, so a stderr that refuses one is not seen there; the notices before it and the prompts
  are modelled.  Input after the end of stdin is taken not to come back, which a terminal allows.  The WebSocket close frame
  takes its time but is not in the log of effects.  The two unit tests that perform a DTLS handshake over a
  socket are left out; the module lists carry no behaviour.
\<close>

section \<open>An example run of the whole pipeline\<close>

text \<open>Every server answers, the relay returns both payloads.\<close>

definition example_cli_ctx :: probe_ctx where
  "example_cli_ctx = ctx_new\<lparr>ctx_host := Some ''h'', ctx_port := Some 3478,
     turn_user := Some ''u'', turn_pass := Some ''p'', echo_count := 2\<rparr>"

definition example_cli_inbox :: "nat \<Rightarrow> (nat \<times> (io_error + bytes \<times> sockaddr)) list" where
  "example_cli_inbox =
     (\<lambda>_. [])(0 := [(0, Inr (example_binding_reply, SockV4 1 3478))],
              1 := [(0, Inr (example_challenge, SockV4 1 3478)), (0, Inr (example_grant, SockV4 1 3478)),
                    (0, Inr (example_cp_reply, SockV4 1 3478))]
                   @ map (\<lambda>sq. (0, Inr (example_indication sq, SockV4 1 3478))) [1, 0])"

definition example_cli_world :: world where
  "example_cli_world = quiet_world\<lparr>w_lookup := (\<lambda>_. (0, Inr [SockV4 1 3478])), w_inbox := example_cli_inbox\<rparr>"

lemma example_dns: "dns_run example_cli_ctx example_cli_world = Ok (r, c1, w1) \<Longrightarrow>
  r_status r = Pass \<and> c1 = example_cli_ctx\<lparr>resolved_ips := [V4 1]\<rparr> \<and> w1 = example_cli_world"
  by (simp add: dns_run_def example_cli_ctx_def example_cli_world_def world_eval Let_def)
    (auto simp: quiet_world_def)

lemma example_stun: 
  "stun_run (example_cli_ctx\<lparr>resolved_ips := [V4 1]\<rparr>) example_cli_world = Ok (r, c1, w1) \<Longrightarrow>
   r_status r = Pass \<and> c1 = example_cli_ctx\<lparr>resolved_ips := [V4 1],
       scratch := [''srflx'' \<mapsto> show_sock (SockV4 0xC0000201 1234)]\<rparr>
   \<and> (\<exists>l. w1 = example_cli_world\<lparr>w_socks := 1, w_inbox := example_cli_inbox(0 := []), w_log := l\<rparr>)"
proof -
  have "take 1500 example_binding_reply = example_binding_reply"
    using length_example_binding_reply by simp
  then show "stun_run (example_cli_ctx\<lparr>resolved_ips := [V4 1]\<rparr>) example_cli_world = Ok (r, c1, w1) \<Longrightarrow> ?thesis"
    by (simp add: stun_run_def example_cli_ctx_def example_cli_world_def world_eval Let_def new_txid_example
        build_binding_request_def example_binding_reply_parses recv_timeout_of_def example_cli_inbox_def
        del: show_sock.simps) auto
qed

lemma example_alloc:
  "turn_alloc_run zero_crypto (example_cli_ctx\<lparr>resolved_ips := [V4 1], scratch := [''srflx'' \<mapsto> show_sock (SockV4 0xC0000201 1234)]\<rparr>)
     (example_cli_world\<lparr>w_socks := 1, w_inbox := example_cli_inbox(0 := []), w_log := l\<rparr>) = Ok (r, c2, w2) \<Longrightarrow>
   r_status r = Pass
   \<and> (\<exists>key. c2 = example_cli_ctx\<lparr>resolved_ips := [V4 1],
         scratch := [''srflx'' \<mapsto> show_sock (SockV4 0xC0000201 1234), ''relayed'' \<mapsto> show_sock (SockV4 0xCB007102 49152)],
         ctx_session := Some \<lparr>ts_socket = 1, ts_server = SockV4 1 3478, ts_relayed = SockV4 0xCB007102 49152,
           ts_realm = ''r'', ts_nonce = [110], ts_key = key, ts_username = ''u''\<rparr>\<rparr>)
   \<and> (\<exists>l. w2 = example_cli_world\<lparr>w_socks := 2, w_log := l,
         w_inbox := example_cli_inbox(0 := [], 1 := drop 2 (example_cli_inbox 1))\<rparr>)"
proof -
  obtain req1 where 1: "build_allocate_unauth None 0 = Ok (example_txid, req1)"
    by (simp add: build_allocate_unauth_message new_txid_example)
  obtain req2 where 2: "build_allocate_authed zero_crypto None 0 ''u'' ''r'' [110]
      (long_term_key zero_crypto ''u'' ''r'' ''p'') = Ok (example_txid, req2)"
    using build_allocate_authed_total [of zero_crypto None 0] by (simp add: new_txid_example) blast
  show "turn_alloc_run zero_crypto (example_cli_ctx\<lparr>resolved_ips := [V4 1], scratch := [''srflx'' \<mapsto> show_sock (SockV4 0xC0000201 1234)]\<rparr>)
     (example_cli_world\<lparr>w_socks := 1, w_inbox := example_cli_inbox(0 := []), w_log := l\<rparr>) = Ok (r, c2, w2) \<Longrightarrow> ?thesis"
    by (simp add: turn_alloc_run_def turn_alloc_round1_def turn_alloc_challenged_def turn_alloc_round2_def Let_def 1 2
        example_cli_ctx_def example_cli_world_def example_cli_inbox_def world_eval
        example_replies_fit example_challenge_parses example_grant_parses recv_timeout_of_def
        del: show_sock.simps) auto
qed

lemma example_echo:
  assumes "turn_echo_run zero_crypto (example_cli_ctx\<lparr>resolved_ips := [V4 1],
         scratch := [''srflx'' \<mapsto> show_sock (SockV4 0xC0000201 1234), ''relayed'' \<mapsto> show_sock (SockV4 0xCB007102 49152)],
         ctx_session := Some \<lparr>ts_socket = 1, ts_server = SockV4 1 3478, ts_relayed = SockV4 0xCB007102 49152,
           ts_realm = ''r'', ts_nonce = [110], ts_key = key, ts_username = ''u''\<rparr>\<rparr>)
      (example_cli_world\<lparr>w_socks := 2, w_log := l,
         w_inbox := example_cli_inbox(0 := [], 1 := drop 2 (example_cli_inbox 1))\<rparr>) = Ok (r, c3, w3)" (is "turn_echo_run _ ?c ?w = _")
  shows "r_status r = Pass"
proof -
  let ?s = "\<lparr>ts_socket = 1, ts_server = SockV4 1 3478, ts_relayed = SockV4 0xCB007102 49152,
           ts_realm = ''r'', ts_nonce = [110], ts_key = key, ts_username = ''u''\<rparr>"
  have "\<exists>r w'. turn_echo_run zero_crypto ?c ?w = Ok (r, ?c, w') \<and> r_status r = Pass"
  proof (rule lossless_run [where s = ?s and sqs = "[1, 0]" and n = 2 and t_cp = 0
        and tm = "\<lambda>_. 0" and ind = example_indication and reply = example_cp_reply and src = "SockV4 1 3478"
        and clock = None and stack_addr = 0])
    show "Option.bind (scratch ?c ''srflx'') parse_sock = Some (SockV4 0xC0000201 1234)"
      by (simp add: parse_show_v4 del: show_sock.simps)
    show "set [1, 0] = {0..<2::nat}" by auto
  qed (simp_all add: example_cli_ctx_def example_cli_world_def example_cli_inbox_def world_eval recv_timeout_of_def
      new_txid_example example_cp_reply_parses example_indication_parses ECHO_INTERVAL_def del: show_sock.simps)
  with assms show ?thesis by simp
qed

lemma example_pipeline:
  "\<exists>rep ctx' w'. pipeline_run (turn_suite zero_crypto) example_cli_ctx example_cli_world = Ok (rep, ctx', w')
     \<and> map r_status (results rep) = [Pass, Pass, Pass, Pass]"
proof -
  obtain rep ctx' w' where run: "pipeline_run (turn_suite zero_crypto) example_cli_ctx example_cli_world = Ok (rep, ctx', w')"
    using turn_suite.pipeline_ends by blast
  then obtain t w1 w2 where i: "instant_now example_cli_world = (t, w1)"
    and "run_checks (turn_suite zero_crypto) {} example_cli_ctx w1 = Ok (results rep, ctx', w2)"
    using pipeline_run_checks [OF run] by blast
  moreover have "w1 = example_cli_world" using i by (simp add: example_cli_world_def world_eval)
  ultimately have "run_checks (turn_suite zero_crypto) {} example_cli_ctx example_cli_world = Ok (results rep, ctx', w2)" by simp
  from turn_suite_chain [OF this] obtain r0 c0 v0 r1 c1 v1 r2 c2 v2 r3 where
    rs: "results rep = [r0, r1, r2, r3]" and 0: "dns_run example_cli_ctx example_cli_world = Ok (r0, c0, v0)"
    and 1: "if r_status r0 = Pass then stun_run c0 v0 = Ok (r1, c1, v1) else r_status r1 = Skip \<and> c1 = c0 \<and> v1 = v0"
    and 2: "if r_status r0 = Pass then turn_alloc_run zero_crypto c1 v1 = Ok (r2, c2, v2) else r_status r2 = Skip \<and> c2 = c1 \<and> v2 = v1"
    and 3: "if r_status r1 = Pass \<and> r_status r2 = Pass then turn_echo_run zero_crypto c2 v2 = Ok (r3, ctx', w2)
        else r_status r3 = Skip \<and> ctx' = c2 \<and> w2 = v2" by blast
  note p0 = example_dns [OF 0]
  have st: "stun_run c0 v0 = Ok (r1, c1, v1)" and al: "turn_alloc_run zero_crypto c1 v1 = Ok (r2, c2, v2)"
    using 1 2 p0 by simp_all
  from p0 st have p1: "r_status r1 = Pass" "c1 = example_cli_ctx\<lparr>resolved_ips := [V4 1],
       scratch := [''srflx'' \<mapsto> show_sock (SockV4 0xC0000201 1234)]\<rparr>"
    and "\<exists>l. v1 = example_cli_world\<lparr>w_socks := 1, w_inbox := example_cli_inbox(0 := []), w_log := l\<rparr>"
    using example_stun by blast+
  then obtain l where v1: "v1 = example_cli_world\<lparr>w_socks := 1, w_inbox := example_cli_inbox(0 := []), w_log := l\<rparr>" by blast
  from example_alloc [OF al [unfolded p1(2) v1]] have p2: "r_status r2 = Pass" by blast
  have "r_status r3 = Pass"
    using example_alloc [OF al [unfolded p1(2) v1]] 3 p1(1) p2 example_echo by auto
  then show ?thesis using run rs p0 p1 p2 by simp
qed

lemma example_cli_session: "ctx_session example_cli_ctx = None"
  by (simp add: example_cli_ctx_def ctx_new_def)

section \<open>Properties that span components\<close>

text \<open>C13: The pipelines of the \<open>stun\<close>, \<open>turn\<close> and \<open>ice\<close> subcommands never panic: on every context and
  in every world they end with a report of exactly one result per check, in pipeline order,
  and none of them changes the configuration the command line set.\<close>

theorem pipelines_report:
  "(\<exists>rep ctx' w'. pipeline_run stun_suite ctx w = Ok (rep, ctx', w')
      \<and> map r_id (results rep) = [dns_id, stun_id] \<and> ctx_config ctx' = ctx_config ctx)
   \<and> (\<exists>rep ctx' w'. pipeline_run (turn_suite c) ctx w = Ok (rep, ctx', w')
      \<and> map r_id (results rep) = [dns_id, stun_id, turn_alloc_id, echo_id] \<and> ctx_config ctx' = ctx_config ctx)
   \<and> (\<exists>rep ctx' w'. pipeline_run (ice_suite c is_turn) ctx w = Ok (rep, ctx', w')
      \<and> map r_id (results rep) = [dns_id, stun_id] @ (if is_turn then [turn_alloc_id] else []) @ [ice_id]
      \<and> ctx_config ctx' = ctx_config ctx)"
proof -
  have ids: "c_id dns_check = dns_id" "c_id stun_check = stun_id" "c_id (turn_alloc_check c) = turn_alloc_id"
    "c_id (turn_echo_check c) = echo_id" "c_id ice_check = ice_id" for c
    by (simp_all add: dns_check_def stun_check_def turn_alloc_check_def turn_echo_check_def ice_check_def)
  have "map c_id stun_suite = [dns_id, stun_id]"
    "map c_id (turn_suite c) = [dns_id, stun_id, turn_alloc_id, echo_id]"
    "map c_id (ice_suite c is_turn) = [dns_id, stun_id] @ (if is_turn then [turn_alloc_id] else []) @ [ice_id]"
    by (simp_all add: stun_suite_checks turn_suite_checks ice_suite_checks ids)
  then show ?thesis
    using stun_suite.pipeline_ends [of ctx w] turn_suite.pipeline_ends [of c ctx w]
      ice_suite.pipeline_ends [of c is_turn ctx w] by metis
qed

text \<open>C28: No input makes a parser panic: the three response parsers, the Data Indication parser,
  and the two command-line parsers return a value or an error on every input, whatever its
  length.\<close>

theorem parsers_never_panic:
  "parse_binding_response buf txid \<noteq> Panic \<and> parse_allocate_response buf txid \<noteq> Panic
   \<and> parse_create_permission_response buf txid \<noteq> Panic \<and> parse_data_indication buf \<noteq> Panic
   \<and> parse_stun_like url allowed port \<noteq> Panic \<and> parse_host_port url \<noteq> Panic"
  by (simp add: parse_binding_response_no_panic parse_allocate_response_no_panic
      parse_create_permission_response_no_panic parse_data_indication_no_panic
      parse_stun_like_no_panic parse_host_port_no_panic)

text \<open>C31: Without both credentials the \<open>turn\<close> pipeline never opens a session, so the echo check is
  skipped in every run, even when the STUN and allocation checks passed, and then for want of
  a session, which its prerequisites do not rule out.\<close>

theorem no_credentials_no_echo:
  assumes "pipeline_run (turn_suite c) ctx w = Ok (rep, ctx', w')"
    and "ctx_session ctx = None" and "turn_user ctx = None \<or> turn_pass ctx = None"
  shows "ctx_session ctx' = None \<and> r_status (results rep ! 3) = Skip
     \<and> (r_status (results rep ! 1) = Pass \<and> r_status (results rep ! 2) = Pass
          \<longrightarrow> r_summary (results rep ! 3) = ''no TURN session in context'')"
proof -
  obtain w1 w2 where "run_checks (turn_suite c) {} ctx w1 = Ok (results rep, ctx', w2)"
    using pipeline_run_checks [OF assms(1)] by blast
  from turn_suite_chain [OF this] obtain r0 c0 v0 r1 c1 v1 r2 c2 v2 r3 where
    rs: "results rep = [r0, r1, r2, r3]" and 0: "dns_run ctx w1 = Ok (r0, c0, v0)"
    and 1: "if r_status r0 = Pass then stun_run c0 v0 = Ok (r1, c1, v1) else r_status r1 = Skip \<and> c1 = c0 \<and> v1 = v0"
    and 2: "if r_status r0 = Pass then turn_alloc_run c c1 v1 = Ok (r2, c2, v2) else r_status r2 = Skip \<and> c2 = c1 \<and> v2 = v1"
    and 3: "if r_status r1 = Pass \<and> r_status r2 = Pass then turn_echo_run c c2 v2 = Ok (r3, ctx', w2)
        else r_status r3 = Skip \<and> ctx' = c2 \<and> w2 = v2" by blast
  have cred0: "turn_user c0 = None \<or> turn_pass c0 = None"
    using dns_run_keeps(4) [OF 0] assms(3) by (auto simp: config_same)
  have s1: "ctx_session c1 = None" and cred1: "turn_user c1 = None \<or> turn_pass c1 = None"
    using 1 dns_run_session [OF 0] assms(2) cred0
    by (auto split: if_splits dest: stun_run_session stun_run_config simp: config_same)
  have s2: "ctx_session c2 = None"
    using 2 s1 cred1 by (auto split: if_splits dest: turn_alloc_run_scratch(2))
  show ?thesis using 3 s2 unfolding rs
    by (auto split: if_splits simp: turn_echo_run_def skip_result_def numeral_eq_Suc)
qed

theorem no_credentials_no_echo_witness:
  "\<exists>rep ctx' w'. pipeline_run (turn_suite zero_crypto) ctx_new example_cli_world = Ok (rep, ctx', w')
     \<and> ctx_session ctx' = None \<and> r_status (results rep ! 3) = Skip"
proof -
  obtain rep ctx' w' where run: "pipeline_run (turn_suite zero_crypto) ctx_new example_cli_world = Ok (rep, ctx', w')"
    using turn_suite.pipeline_ends by blast
  have "ctx_session ctx_new = None" "turn_user ctx_new = None" by (simp_all add: ctx_new_def)
  then show ?thesis using no_credentials_no_echo [OF run] run by blast
qed

text \<open>C35: In the \<open>turn\<close> pipeline the reflexive address reaches the relay: when STUN binding and allocation
  passed, the address the server reported in the first datagram on the first socket is in the context, as text that reads
  back as that address (without an IPv6 flow label, which the text does not carry); the echo check is skipped
  exactly when no session was opened; and when it passes or warns, the CreatePermission it sent to the server
  was for that address.\<close>

theorem srflx_reaches_echo:
  assumes "pipeline_run (turn_suite c) ctx w = Ok (rep, ctx', w')"
    and "r_status (results rep ! 1) = Pass" and "r_status (results rep ! 2) = Pass"
  shows "\<exists>t msg src rest clock stack_addr txid request srflx.
       w_inbox w (w_socks w) = (t, Inr (msg, src)) # rest
     \<and> build_binding_request clock stack_addr = (txid, request) \<and> parse_binding_response (take 1500 msg) txid = Ok srflx
     \<and> scratch ctx' ''srflx'' = Some (show_sock srflx) \<and> parse_sock (show_sock srflx) = Some (clear_flow srflx)
     \<and> (r_status (results rep ! 3) = Skip \<longleftrightarrow> ctx_session ctx' = None)
     \<and> (r_status (results rep ! 3) \<in> {Pass, Warn} \<longrightarrow>
          (\<exists>s t a tx cp. ctx_session ctx' = Some s \<and> Sent (ts_socket s) cp (ts_server s) \<in> set (w_log w')
             \<and> build_create_permission c t a (ts_username s) (ts_realm s) (ts_nonce s) (ts_key s) (clear_flow srflx) = Ok (tx, cp)))"
proof -
  obtain w1 w2 where "run_checks (turn_suite c) {} ctx w1 = Ok (results rep, ctx', w2)"
    and w1: "w_socks w1 = w_socks w" "w_inbox w1 = w_inbox w" "w_log w' = w_log w2" using pipeline_run_checks [OF assms(1)] by blast
  from turn_suite_chain [OF this(1)] obtain r0 c0 w0 r1 c1 v1 r2 c2 v2 r3 where
    rs: "results rep = [r0, r1, r2, r3]" and 0: "dns_run ctx w1 = Ok (r0, c0, w0)"
    and 1: "if r_status r0 = Pass then stun_run c0 w0 = Ok (r1, c1, v1) else r_status r1 = Skip \<and> c1 = c0 \<and> v1 = w0"
    and 2: "if r_status r0 = Pass then turn_alloc_run c c1 v1 = Ok (r2, c2, v2) else r_status r2 = Skip \<and> c2 = c1 \<and> v2 = v1"
    and 3: "if r_status r1 = Pass \<and> r_status r2 = Pass then turn_echo_run c c2 v2 = Ok (r3, ctx', w2)
        else r_status r3 = Skip \<and> ctx' = c2 \<and> w2 = v2" by blast
  have p: "r_status r1 = Pass" "r_status r2 = Pass" using assms(2,3) rs by (simp_all add: numeral_eq_Suc)
  then have st: "stun_run c0 w0 = Ok (r1, c1, v1)" and al: "turn_alloc_run c c1 v1 = Ok (r2, c2, v2)"
    and ec: "turn_echo_run c c2 v2 = Ok (r3, ctx', w2)" using 1 2 3 by (auto split: if_splits)
  have "stun_asked c0 w0 r1 c1 v1" using stun_run_stages [OF st] p(1) by blast
  then obtain t msg src rest clock stack_addr txid request srflx where
    inb: "w_inbox w0 (w_socks w0) = (t, Inr (msg, src)) # rest"
    and b: "build_binding_request clock stack_addr = (txid, request)" "parse_binding_response (take 1500 msg) txid = Ok srflx"
    and c1: "c1 = c0\<lparr>scratch := (scratch c0)(''srflx'' \<mapsto> show_sock srflx)\<rparr>"
    unfolding stun_asked_def using p(1) by blast
  have inb': "w_inbox w (w_socks w) = (t, Inr (msg, src)) # rest" using inb dns_run_ctx [OF 0] w1 by simp
  have c2: "scratch c2 ''srflx'' = Some (show_sock srflx)" using turn_alloc_run_scratch(1) [OF al] c1 by simp
  have c': "ctx' = c2" using turn_echo_run_spec [of c c2 v2] ec by auto
  have skip: "r_status r3 = Skip \<longleftrightarrow> ctx_session c2 = None"
    using turn_echo_run_skip [OF ec] c2 by (simp add: parse_show_sock del: show_sock.simps)
  have perm: "\<exists>s t a tx cp. ctx_session ctx' = Some s \<and> Sent (ts_socket s) cp (ts_server s) \<in> set (w_log w')
        \<and> build_create_permission c t a (ts_username s) (ts_realm s) (ts_nonce s) (ts_key s) (clear_flow srflx) = Ok (tx, cp)"
    if "r_status r3 \<in> {Pass, Warn}"
  proof -
    have "r_status r3 = Pass \<or> r_status r3 = Warn" using that by simp
    from turn_echo_run_good [OF ec this] obtain s srflx' t a tx cp es where s: "ctx_session c2 = Some s"
      and sx: "Option.bind (scratch c2 ''srflx'') parse_sock = Some srflx'"
      and cp: "build_create_permission c t a (ts_username s) (ts_realm s) (ts_nonce s) (ts_key s) srflx' = Ok (tx, cp)"
      and lg: "w_log w2 = w_log v2 @ es" "Sent (ts_socket s) cp (ts_server s) \<in> set (filter is_sent es)" by (metis list.set_intros(1))
    have "srflx' = clear_flow srflx" using sx c2 by (simp add: parse_show_sock del: show_sock.simps)
    then show ?thesis using s cp lg w1(3) c' by auto
  qed
  show ?thesis
    by (rule exI [of _ t], rule exI [of _ msg], rule exI [of _ src], rule exI [of _ rest], rule exI [of _ clock],
        rule exI [of _ stack_addr], rule exI [of _ txid], rule exI [of _ request], rule exI [of _ srflx])
      (use inb' b c2 c' skip perm rs in \<open>simp add: parse_show_sock numeral_eq_Suc del: show_sock.simps\<close>)
qed

theorem srflx_reaches_echo_witness:
  "\<exists>rep ctx' w' srflx s t a tx cp. pipeline_run (turn_suite zero_crypto) example_cli_ctx example_cli_world = Ok (rep, ctx', w')
     \<and> scratch ctx' ''srflx'' = Some (show_sock srflx) \<and> ctx_session ctx' = Some s
     \<and> Sent (ts_socket s) cp (ts_server s) \<in> set (w_log w')
     \<and> build_create_permission zero_crypto t a (ts_username s) (ts_realm s) (ts_nonce s) (ts_key s) (clear_flow srflx) = Ok (tx, cp)"
proof -
  obtain rep ctx' w' where run: "pipeline_run (turn_suite zero_crypto) example_cli_ctx example_cli_world = Ok (rep, ctx', w')"
    and st: "map r_status (results rep) = [Pass, Pass, Pass, Pass]" by (rule exE [OF example_pipeline]) (elim exE conjE)
  have "r_status (results rep ! 1) = Pass" "r_status (results rep ! 2) = Pass" "r_status (results rep ! 3) \<in> {Pass, Warn}"
    using map_nth_at [OF st, of 1] map_nth_at [OF st, of 2] map_nth_at [OF st, of 3] by simp_all
  with srflx_reaches_echo [OF run this(1,2)] run show ?thesis by blast
qed

text \<open>C1: The \<open>turn\<close> pipeline implements the client protocol: in every run, whatever the server,
  the network and the clock do and however the run ends, what the pipeline did to the network is a run of the protocol machine,
  which a good echo result finds in its last phase, all payloads sent.\<close>

theorem turn_refines_protocol:
  assumes "pipeline_run (turn_suite c) ctx w = Ok (rep, ctx', w')" and "ctx_session ctx = None"
  shows "\<exists>es p. w_log w' = w_log w @ es
     \<and> turn_path (protocol_of c ctx (resolved_ips ctx') w) (Idle (w_socks w)) es p
     \<and> (r_status (results rep ! 3) \<in> {Pass, Warn} \<longrightarrow>
          (\<exists>s. ctx_session ctx' = Some s \<and> p = Echoing (ts_socket s) (ts_relayed s) (unat (max (echo_count ctx) 1))))"
  by (rule turn_pipeline_path [OF assms])

text \<open>C2: At every point of every run of the \<open>turn\<close> pipeline, the payloads sent so far are
  the numbers \<open>0\<close> to \<open>k - 1\<close> in order, no more than the count asked for, all from one socket to one
  address, with a pause of 20 ms between two; and when there is one, both credentials were given, the address is the relay the
  server granted in its second answer on that socket, and the third answer granted the permission.\<close>

theorem turn_run_invariant:
  assumes "pipeline_run (turn_suite c) ctx w = Ok (rep, ctx', w')" and "ctx_session ctx = None"
    and "w_log w' = w_log w @ pre @ post"
  shows "\<exists>n relayed k. filter is_payload pre = map (echo_sent n relayed) [0..<k] \<and> k \<le> unat (max (echo_count ctx) 1)
     \<and> filter is_pause pre \<in> {replicate (k - 1) (Slept ECHO_INTERVAL), replicate k (Slept ECHO_INTERVAL)}
     \<and> (0 < k \<longrightarrow> permitted (protocol_of c ctx (resolved_ips ctx') w) n relayed)"
proof -
  let ?P = "protocol_of c ctx (resolved_ips ctx') w"
  obtain es p where "w_log w' = w_log w @ es" "turn_path ?P (Idle (w_socks w)) es p"
    using turn_pipeline_path [OF assms(1,2)] by blast
  then have "turn_path ?P (Idle (w_socks w)) (pre @ post) p" using assms(3) by simp
  then obtain q where "turn_path ?P (Idle (w_socks w)) pre q" using turn_path_prefix by blast
  then have inv: "phase_inv ?P pre q" by (rule phase_inv_path)
  have cnt: "pr_count ?P = unat (max (echo_count ctx) 1)" by (simp add: protocol_of_def)
  show ?thesis
  proof (cases "\<exists>n relayed k. q = Echoing n relayed k \<or> q = Paused n relayed k")
    case True
    then obtain n relayed k where "q = Echoing n relayed k \<or> q = Paused n relayed k" by blast
    then show ?thesis using inv cnt by (intro exI [of _ n] exI [of _ relayed] exI [of _ k]) auto
  next
    case False
    then have "filter is_payload pre = [] \<and> filter is_pause pre = []" using inv by (cases q) auto
    then show ?thesis by (intro exI [of _ 0]) simp
  qed
qed

theorem turn_refines_protocol_witness:
  "\<exists>rep ctx' w' es (s :: turn_session). pipeline_run (turn_suite zero_crypto) example_cli_ctx example_cli_world = Ok (rep, ctx', w')
     \<and> w_log w' = w_log example_cli_world @ es
     \<and> turn_path (protocol_of zero_crypto example_cli_ctx (resolved_ips ctx') example_cli_world) (Idle 0) es
         (Echoing (ts_socket s) (ts_relayed s) 2)"
proof -
  obtain rep ctx' w' where run: "pipeline_run (turn_suite zero_crypto) example_cli_ctx example_cli_world = Ok (rep, ctx', w')"
    and st: "map r_status (results rep) = [Pass, Pass, Pass, Pass]" by (rule exE [OF example_pipeline]) (elim exE conjE)
  have good: "r_status (results rep ! 3) \<in> {Pass, Warn}" using map_nth_at [OF st, of 3] by simp
  have ex: "w_socks example_cli_world = 0" "unat (max (echo_count example_cli_ctx) 1) = 2"
    by (simp_all add: example_cli_world_def quiet_world_def example_cli_ctx_def)
  from turn_refines_protocol [OF run example_cli_session, unfolded ex] good run show ?thesis by blast
qed

theorem turn_run_invariant_witness:
  "\<exists>rep ctx' w' es n relayed k. pipeline_run (turn_suite zero_crypto) example_cli_ctx example_cli_world = Ok (rep, ctx', w')
     \<and> w_log w' = w_log example_cli_world @ es
     \<and> filter is_payload es = map (echo_sent n relayed) [0..<k] \<and> k \<le> unat (max (echo_count example_cli_ctx) 1)"
proof -
  obtain rep ctx' w' where run: "pipeline_run (turn_suite zero_crypto) example_cli_ctx example_cli_world = Ok (rep, ctx', w')"
    using turn_suite.pipeline_ends by blast
  then obtain es where lg: "w_log w' = w_log example_cli_world @ es"
    using turn_pipeline_path [OF run example_cli_session] by blast
  then have "w_log w' = w_log example_cli_world @ es @ []" by simp
  from turn_run_invariant [OF run example_cli_session this] run lg show ?thesis by blast
qed

text \<open>C3: When the echo check of the \<open>turn\<close> pipeline passes or warns, everything sent during the run
  is, in this order: the Binding request from one freshly bound socket; the unauthenticated and the
  authenticated Allocate and the CreatePermission, for the reflexive address of the context,
  from a second one, bound after the Binding request was sent, all four to the first resolved address; and
  then the numbered payloads, from the second socket to the relayed address.  The user's credentials are set,
  and the password enters only through the MD5 key.\<close>

theorem turn_wire_trace:
  assumes "pipeline_run (turn_suite c) ctx w = Ok (rep, ctx', w')" and "ctx_session ctx = None"
    and "r_status (results rep ! 3) = Pass \<or> r_status (results rep ! 3) = Warn"
  shows "\<exists>es server s user pass srflx breq req1 req2 cp.
       w_log w' = w_log w @ es \<and> ctx_session ctx' = Some s \<and> turn_user ctx = Some user \<and> turn_pass ctx = Some pass
     \<and> (\<exists>ip ips port. resolved_ips ctx' = ip # ips \<and> ctx_port ctx = Some port \<and> server = sock_new ip port)
     \<and> ts_server s = server \<and> ts_key s = long_term_key c user (ts_realm s) pass
     \<and> ts_socket s = w_socks w + 1
     \<and> take 5 es = [Bound (w_socks w) (local_bind_for (hd (resolved_ips ctx'))), Sent (w_socks w) breq server,
            Bound (w_socks w + 1) (local_bind_for (hd (resolved_ips ctx'))), Sent (w_socks w + 1) req1 server,
            Sent (w_socks w + 1) req2 server]
     \<and> Option.bind (scratch ctx' ''srflx'') parse_sock = Some srflx
     \<and> filter is_sent es =
         [Sent (w_socks w) breq server, Sent (ts_socket s) req1 server, Sent (ts_socket s) req2 server,
          Sent (ts_socket s) cp server]
         @ map (\<lambda>sq. Sent (ts_socket s) (make_payload (word_of_nat sq)) (ts_relayed s)) [0..<unat (max (echo_count ctx) 1)]
     \<and> (\<exists>t a. breq = snd (build_binding_request t a))
     \<and> (\<exists>t a tx. build_allocate_unauth t a = Ok (tx, req1))
     \<and> (\<exists>t a tx. build_allocate_authed c t a user (ts_realm s) (ts_nonce s) (ts_key s) = Ok (tx, req2))
     \<and> (\<exists>t a tx. build_create_permission c t a user (ts_realm s) (ts_nonce s) (ts_key s) srflx = Ok (tx, cp))"
proof -
  from turn_suite_good [OF assms(1,3)] obtain w0 r0 c0 v0 r1 c1 v1 r2 c2 v2 r3 w2 where
    st: "stun_run c0 v0 = Ok (r1, c1, v1)" "r_status r1 = Pass"
    and al: "turn_alloc_run c c1 v1 = Ok (r2, c2, v2)" and p: "r_status r2 = Pass"
    and ec: "turn_echo_run c c2 v2 = Ok (r3, ctx', w2)" "r_status r3 = Pass \<or> r_status r3 = Warn"
    and lg: "w_log w' = w_log w2" "w_log v0 = w_log w" "w_socks v0 = w_socks w"
    and cf: "ctx_config c0 = ctx_config ctx" "ctx_session c0 = ctx_session ctx" by metis
  have "stun_asked c0 v0 r1 c1 v1" using stun_run_stages [OF st(1)] st(2) by blast
  then obtain ip0 port0 txid0 t0 a0 breq where b: "build_binding_request t0 a0 = (txid0, breq)"
    and sl: "w_log v1 = w_log v0 @ [Bound (w_socks v0) (local_bind_for ip0), Sent (w_socks v0) breq (sock_new ip0 port0)]"
    and i0: "hd (resolved_ips c0) = ip0" "ctx_port c0 = Some port0" and fresh: "w_socks v1 = w_socks v0 + 1"
    unfolding stun_asked_def by (auto split: if_splits)
  have c1: "resolved_ips c1 = resolved_ips c0" "ctx_config c1 = ctx_config c0" "ctx_session c1 = ctx_session c0"
    using stun_run_cases [OF st(1)] stun_run_config [OF st(1)] stun_run_session [OF st(1)] st(2) by (auto split: if_splits)
  from turn_echo_run_good [OF ec] obtain s srflx t1 a1 tx cp es where s: "ctx_session c2 = Some s"
    and sx: "Option.bind (scratch c2 ''srflx'') parse_sock = Some srflx" and c2: "ctx' = c2"
    and cp: "build_create_permission c t1 a1 (ts_username s) (ts_realm s) (ts_nonce s) (ts_key s) srflx = Ok (tx, cp)"
    and el: "w_log w2 = w_log v2 @ es" "filter is_sent es = Sent (ts_socket s) cp (ts_server s)
          # map (echo_sent (ts_socket s) (ts_relayed s)) [0..<unat (max (echo_count c2) 1)]" by blast
  have "ctx_session c1 = None" using c1 cf assms(2) by simp
  from turn_alloc_run_session [OF al p this s] obtain ip ips port user pass req1 req2 cl sa tx1 cl2 sa2 tx2 where
    a: "resolved_ips c1 = ip # ips" "ctx_port c1 = Some port" "turn_user c1 = Some user" "turn_pass c1 = Some pass"
      "build_allocate_unauth cl sa = Ok (tx1, req1)"
      "build_allocate_authed c cl2 sa2 user (ts_realm s) (ts_nonce s) (long_term_key c user (ts_realm s) pass) = Ok (tx2, req2)"
      "w_log v2 = w_log v1 @ [Bound (w_socks v1) (local_bind_for ip), Sent (w_socks v1) req1 (sock_new ip port),
                              Sent (w_socks v1) req2 (sock_new ip port)]"
      "ts_socket s = w_socks v1" "ts_server s = sock_new ip port" "ts_username s = user"
      "ts_key s = long_term_key c user (ts_realm s) pass" by blast
  have c0: "resolved_ips c0 = ip # ips" using a(1) c1(1) by simp
  have "ip0 = ip" using i0(1) unfolding c0 by simp
  moreover have "ctx_port c0 = ctx_port ctx" "ctx_port c1 = ctx_port ctx" "turn_user c1 = turn_user ctx" "turn_pass c1 = turn_pass ctx"
    "echo_count c2 = echo_count ctx"
    using c1(2) cf(1) turn_alloc_run_config [OF al] by (simp_all add: config_same)
  ultimately have same: "ip0 = ip" "ctx_port ctx = Some port" "turn_user ctx = Some user" "turn_pass ctx = Some pass" "echo_count c2 = echo_count ctx"
    and "ctx_port ctx = Some port0" using i0(2) a(2-4) by simp_all
  then have port: "port0 = port" by simp
  have ips: "resolved_ips c2 = ip # ips"
    using turn_alloc_run_cases [OF al] a(1) by (auto dest!: turn_alloc_challenged_ctx)
  have e2: "echo_sent sock rel = (\<lambda>sq. Sent sock (make_payload (word_of_nat sq)) rel)" for sock rel
    by (rule ext) (simp add: echo_sent_def)
  let ?es = "[Bound (w_socks w) (local_bind_for ip), Sent (w_socks w) breq (ts_server s),
      Bound (ts_socket s) (local_bind_for ip), Sent (ts_socket s) req1 (ts_server s), Sent (ts_socket s) req2 (ts_server s)] @ es"
  have "w_log w' = w_log w @ ?es" using lg sl a same port el(1) by simp
  moreover have "filter is_sent ?es = [Sent (w_socks w) breq (ts_server s), Sent (ts_socket s) req1 (ts_server s),
      Sent (ts_socket s) req2 (ts_server s), Sent (ts_socket s) cp (ts_server s)]
         @ map (\<lambda>sq. Sent (ts_socket s) (make_payload (word_of_nat sq)) (ts_relayed s)) [0..<unat (max (echo_count ctx) 1)]"
    using el(2) same(5) by (simp add: e2)
  moreover have "breq = snd (build_binding_request t0 a0)" using b by simp
  moreover have "build_allocate_authed c cl2 sa2 user (ts_realm s) (ts_nonce s) (ts_key s) = Ok (tx2, req2)"
    "build_create_permission c t1 a1 user (ts_realm s) (ts_nonce s) (ts_key s) srflx = Ok (tx, cp)"
    using a cp by simp_all
  moreover have ips': "resolved_ips ctx' = ip # ips" using ips c2 by simp
  moreover have sock: "ts_socket s = w_socks w + 1" using a(8) fresh lg(3) by simp
  moreover have "take 5 ?es = [Bound (w_socks w) (local_bind_for (hd (resolved_ips ctx'))), Sent (w_socks w) breq (ts_server s),
      Bound (w_socks w + 1) (local_bind_for (hd (resolved_ips ctx'))), Sent (w_socks w + 1) req1 (ts_server s),
      Sent (w_socks w + 1) req2 (ts_server s)]" using ips' sock by simp
  moreover note same(2) a(9) a(11)
  moreover have "ctx_session ctx' = Some s" "Option.bind (scratch ctx' ''srflx'') parse_sock = Some srflx" using s sx c2 by simp_all
  ultimately show ?thesis using a(5) same(3,4) by (intro exI conjI) (assumption | rule refl)+
qed

theorem turn_wire_trace_witness:
  "\<exists>rep ctx' w' es s breq req1 req2 cp.
     pipeline_run (turn_suite zero_crypto) example_cli_ctx example_cli_world = Ok (rep, ctx', w')
     \<and> w_log w' = w_log example_cli_world @ es \<and> ctx_session ctx' = Some s \<and> ts_socket s = 1
     \<and> filter is_sent es =
         [Sent 0 breq (ts_server s), Sent 1 req1 (ts_server s), Sent 1 req2 (ts_server s), Sent 1 cp (ts_server s)]
         @ map (\<lambda>sq. Sent 1 (make_payload (word_of_nat sq)) (ts_relayed s)) [0..<2]"
proof -
  obtain rep ctx' w' where run: "pipeline_run (turn_suite zero_crypto) example_cli_ctx example_cli_world = Ok (rep, ctx', w')"
    and st: "map r_status (results rep) = [Pass, Pass, Pass, Pass]" by (rule exE [OF example_pipeline]) (elim exE conjE)
  have "r_status (results rep ! 3) = Pass \<or> r_status (results rep ! 3) = Warn" using map_nth_at [OF st, of 3] by simp
  note trace = turn_wire_trace [OF run example_cli_session this]
  have "w_socks example_cli_world = 0" by (simp add: example_cli_world_def quiet_world_def)
  moreover have "unat (max (echo_count example_cli_ctx) 1) = 2" by (simp add: example_cli_ctx_def)
  ultimately obtain es server s breq req1 req2 cp where "w_log w' = w_log example_cli_world @ es"
    and "ctx_session ctx' = Some s" "ts_server s = server" "ts_socket s = 1"
    and "filter is_sent es = [Sent 0 breq server, Sent (ts_socket s) req1 server,
             Sent (ts_socket s) req2 server, Sent (ts_socket s) cp server] @
        map (\<lambda>sq. Sent (ts_socket s) (make_payload (word_of_nat sq)) (ts_relayed s)) [0..<2]"
    using trace by (elim exE conjE) simp
  with run show ?thesis by (intro exI conjI) (assumption | simp)+
qed

text \<open>C37: The \<open>ice\<close> pipeline follows the same protocol and stops early: in every run, whatever the server, the
  network and the clock do, what it did to the network is a run of the protocol machine that sends no payload,
  never pauses and ends before a permission is asked for; without a \<open>turn:\<close> URL nothing but the Binding request is
  sent.  A session, and so a relay candidate, exists only after an authenticated request on that session's
  socket, for its realm and nonce, and its relayed address is the one granted by the second datagram there.\<close>

theorem ice_refines_protocol:
  assumes "pipeline_run (ice_suite c is_turn) ctx w = Ok (rep, ctx', w')" and "ctx_session ctx = None"
  shows "\<exists>es p P. P = protocol_of c ctx (resolved_ips ctx') w \<and> w_log w' = w_log w @ es
     \<and> turn_path P (Idle (w_socks w)) es p \<and> gathering p
     \<and> filter is_payload es = [] \<and> filter is_pause es = []
     \<and> (\<not> is_turn \<longrightarrow> binding_only p \<and> ctx_session ctx' = None)
     \<and> (\<forall>s. ctx_session ctx' = Some s \<longrightarrow> (\<exists>b tx buf lifetime.
          p = Authenticating (ts_socket s) b tx (ts_realm s) (ts_nonce s) \<and> to_server P (ts_server s)
        \<and> answer P (ts_socket s) 1 = Some buf
        \<and> parse_allocate_response buf tx = Ok (AllocSuccess (ts_relayed s) lifetime)))"
proof -
  let ?P = "protocol_of c ctx (resolved_ips ctx') w"
  obtain es p where p: "w_log w' = w_log w @ es" "turn_path ?P (Idle (w_socks w)) es p" "gathering p"
     "\<not> is_turn \<longrightarrow> binding_only p \<and> ctx_session ctx' = None"
     "\<forall>s. ctx_session ctx' = Some s \<longrightarrow> (\<exists>b v. session_phase ?P b s v p)"
    using ice_pipeline_path [OF assms] by blast
  have "phase_inv ?P es p" using p(2) by (rule phase_inv_path)
  then have "filter is_payload es = [] \<and> filter is_pause es = []" using p(3) by (cases p) simp_all
  moreover have "\<exists>b tx buf lifetime. p = Authenticating (ts_socket s) b tx (ts_realm s) (ts_nonce s)
      \<and> to_server ?P (ts_server s) \<and> answer ?P (ts_socket s) 1 = Some buf
      \<and> parse_allocate_response buf tx = Ok (AllocSuccess (ts_relayed s) lifetime)" if "ctx_session ctx' = Some s" for s
    using p(5) that unfolding session_phase_def by blast
  ultimately show ?thesis using p by blast
qed

theorem ice_refines_protocol_witness:
  "\<exists>rep ctx' w' es p s. pipeline_run (ice_suite zero_crypto True) example_cli_ctx example_cli_world = Ok (rep, ctx', w')
     \<and> w_log w' = w_log example_cli_world @ es
     \<and> turn_path (protocol_of zero_crypto example_cli_ctx (resolved_ips ctx') example_cli_world) (Idle 0) es p \<and> gathering p
     \<and> filter is_payload es = [] \<and> ctx_session ctx' = Some s \<and> (\<exists>b tx. p = Authenticating (ts_socket s) b tx (ts_realm s) (ts_nonce s))"
proof -
  obtain rep ctx' w' where run: "pipeline_run (ice_suite zero_crypto True) example_cli_ctx example_cli_world = Ok (rep, ctx', w')"
    using ice_suite.pipeline_ends by blast
  then obtain t w1 w2 where i: "instant_now example_cli_world = (t, w1)"
    and ch: "run_checks (ice_suite zero_crypto True) {} example_cli_ctx w1 = Ok (results rep, ctx', w2)"
    using pipeline_run_checks [OF run] by blast
  have w1: "w1 = example_cli_world" using i by (simp add: example_cli_world_def world_eval)
  from ice_suite_chain [OF ch, unfolded w1] obtain r0 c0 v0 r1 c1 v1 where
    0: "dns_run example_cli_ctx example_cli_world = Ok (r0, c0, v0)"
    and 1: "if r_status r0 = Pass then stun_run c0 v0 = Ok (r1, c1, v1) else c1 = c0 \<and> v1 = v0"
    and 2: "if True \<and> r_status r0 = Pass then \<exists>r2 v2. turn_alloc_run zero_crypto c1 v1 = Ok (r2, ctx', v2) \<and> w_log w2 = w_log v2
        else ctx' = c1 \<and> w_log w2 = w_log v1" by blast
  note p0 = example_dns [OF 0]
  have st: "stun_run c0 v0 = Ok (r1, c1, v1)" using 1 p0 by simp
  obtain r2 v2 where al: "turn_alloc_run zero_crypto c1 v1 = Ok (r2, ctx', v2)" using 2 p0 by auto
  obtain l where "c1 = example_cli_ctx\<lparr>resolved_ips := [V4 1], scratch := [''srflx'' \<mapsto> show_sock (SockV4 0xC0000201 1234)]\<rparr>"
    "v1 = example_cli_world\<lparr>w_socks := 1, w_inbox := example_cli_inbox(0 := []), w_log := l\<rparr>"
    using p0 st example_stun by blast
  then obtain s where s: "ctx_session ctx' = Some s" using example_alloc [of l r2 ctx' v2] al by auto
  have "w_socks example_cli_world = 0" by (simp add: example_cli_world_def quiet_world_def)
  with ice_refines_protocol [OF run example_cli_session] run s show ?thesis by fastforce
qed

text \<open>A run whose echo was skipped can still end healthy, with exit code 0: a relay that grants
  anonymous allocations is one case.\<close>

theorem healthy_without_echo:
  "\<exists>ctx w rep code w'. run_prepared ([], ctx, turn_suite zero_crypto) w = Ok (rep, code, w') \<and> code = 0
     \<and> map r_status (results rep) = [Pass, Pass, Pass, Skip]"
proof -
  let ?ctx = "ctx_new\<lparr>ctx_host := Some ''h'', ctx_port := Some 3478\<rparr>"
  let ?w = "quiet_world\<lparr>w_lookup := (\<lambda>_. (0, Inr [SockV4 1 3478])),
     w_inbox := (\<lambda>_. [])(0 := [(0, Inr (example_binding_reply, SockV4 1 3478))],
                         1 := [(0, Inr (example_grant, SockV4 1 3478))])\<rparr>"
  obtain req1 where 1: "build_allocate_unauth None 0 = Ok (example_txid, req1)"
    by (simp add: build_allocate_unauth_message new_txid_example)
  have 2: "take 1500 example_binding_reply = example_binding_reply"
    using length_example_binding_reply by simp
  have "\<exists>rep code w'. run_prepared ([], ?ctx, turn_suite zero_crypto) ?w = Ok (rep, code, w') \<and> code = 0
     \<and> map r_status (results rep) = [Pass, Pass, Pass, Skip]"
    by (simp add: run_prepared_def pipeline_run_def turn_suite_checks run_one_def Let_def world_eval
        dns_check_def stun_check_def turn_alloc_check_def turn_echo_check_def check_ids
        dns_run_def stun_run_def turn_alloc_run_def turn_alloc_round1_def turn_alloc_challenged_def turn_echo_run_def
        1 2 new_txid_example build_binding_request_def example_binding_reply_parses recv_timeout_of_def
        example_replies_fit example_grant_parses report_verdict_def del: show_sock.simps)
  then show ?thesis by (rule exI [of _ ?ctx, OF exI [of _ ?w]])
qed



end
